(* ===== verification/Prelude.thy ===== *)
theory Prelude
  imports Main "HOL-Library.Word" "HOL-Library.List_Lexorder" "HOL-Library.Char_ord"
begin

text \<open>
  Shared vocabulary of the development.

  A JavaScript string is a sequence of UTF-16 code units, so \<open>jstr\<close> is a list of 16-bit
  words; \<open>length\<close> is the source's \<open>.length\<close>. ASCII literals of the source are written
  \<open>js ''...''\<close>. A function of the source that throws returns \<open>error + 'a\<close> or, where
  only the fact that it throws matters, \<open>'a option\<close>.

  The collections: \<open>js_eval\<close> unfolds literals to code units, \<open>res_simps\<close> evaluates the
  result combinators.
\<close>

named_theorems js_eval \<open>evaluation of literals and single code units\<close>
named_theorems res_simps \<open>evaluation of the result combinators\<close>

section \<open>Code units and strings\<close>

type_synonym cu = "16 word"
type_synonym jstr = "cu list"

definition ch :: "char \<Rightarrow> cu" where
  "ch c = of_char c"

definition js :: "string \<Rightarrow> jstr" where
  "js s = map ch s"

declare ch_def [js_eval] js_def [js_eval]

lemma unat_ch: "unat (ch c) = of_char c"
proof -
  have "(of_char c :: nat) < 65536"
    using nat_of_char_less_256 [of c] by (rule less_trans) simp
  then show ?thesis
    unfolding ch_def of_nat_of_char [symmetric, where ?'a = cu] by (simp add: unat_of_nat)
qed

lemma ch_inject [simp]: "ch c = ch d \<longleftrightarrow> c = d"
  by (metis unat_ch of_char_eq_iff)

lemma js_inject [simp]: "js s = js t \<longleftrightarrow> s = t"
  by (simp add: js_def inj_def inj_map_eq_map)

lemma js_Nil [simp]: "js [] = []"
  by (simp add: js_def)

lemma js_eq_Nil [simp]: "js s = [] \<longleftrightarrow> s = []" "[] = js s \<longleftrightarrow> s = []"
  by (auto simp: js_def)

lemma length_js [simp]: "length (js s) = length s"
  by (simp add: js_def)

lemma js_append: "js (s @ t) = js s @ js t"
  by (simp add: js_def)

lemma js_Cons: "js (c # s) = ch c # js s"
  by (simp add: js_def)

text \<open>\<open>s.startsWith(p)\<close>, \<open>parts.join(sep)\<close>, \<open>s.slice(i, j)\<close> for indices in range.\<close>

fun starts_with :: "jstr \<Rightarrow> jstr \<Rightarrow> bool" where
  "starts_with s [] \<longleftrightarrow> True"
| "starts_with [] (c # p) \<longleftrightarrow> False"
| "starts_with (d # s) (c # p) \<longleftrightarrow> d = c \<and> starts_with s p"

lemma starts_with_iff: "starts_with s p \<longleftrightarrow> (\<exists>r. s = p @ r)"
  by (induction s p rule: starts_with.induct) auto

lemma starts_with_append [simp]: "starts_with (p @ r) p"
  by (auto simp: starts_with_iff)

fun join :: "jstr \<Rightarrow> jstr list \<Rightarrow> jstr" where
  "join sep [] = []"
| "join sep [x] = x"
| "join sep (x # y # ys) = x @ sep @ join sep (y # ys)"

definition slice :: "nat \<Rightarrow> nat \<Rightarrow> 'a list \<Rightarrow> 'a list" where
  "slice i j xs = take (j - i) (drop i xs)"

lemma length_slice: "j \<le> length xs \<Longrightarrow> i \<le> j \<Longrightarrow> length (slice i j xs) = j - i"
  by (simp add: slice_def)

text \<open>ASCII lower case, which is what \<open>toLowerCase()\<close> does to host names, digits and hex.\<close>

definition lower_cu :: "cu \<Rightarrow> cu" where
  "lower_cu c = (if 65 \<le> c \<and> c \<le> 90 then c + 32 else c)"

text \<open>\<open>s.split(c)\<close> for a one-unit separator.\<close>

fun split_cu :: "cu \<Rightarrow> jstr \<Rightarrow> jstr list" where
  "split_cu c [] = [[]]"
| "split_cu c (x # xs) =
     (if x = c then [] # split_cu c xs
      else (case split_cu c xs of [] \<Rightarrow> [[x]] | p # ps \<Rightarrow> (x # p) # ps))"

lemma split_cu_no: "c \<notin> set s \<Longrightarrow> split_cu c s = [s]"
  by (induction s) auto

lemma split_cu_nonempty [simp]: "split_cu c s \<noteq> []"
  by (induction s) (auto split: list.splits)

lemma split_cu_at: "c \<notin> set s \<Longrightarrow> split_cu c (s @ c # t) = s # split_cu c t"
  by (induction s) (auto split: list.splits)

text \<open>
  The white space that \<open>trim()\<close> strips and \<open>\s\<close> matches: tab, line feed, vertical tab,
  form feed, carriage return, space, no-break space, byte order mark, line and paragraph
  separators and the Unicode space separators.
\<close>

definition is_js_space :: "cu \<Rightarrow> bool" where
  "is_js_space c \<longleftrightarrow>
     c \<in> set [9, 10, 11, 12, 13, 32, 160, 5760, 8192, 8193, 8194, 8195, 8196, 8197, 8198,
             8199, 8200, 8201, 8202, 8232, 8233, 8239, 8287, 12288, 65279]"

definition js_trim :: "jstr \<Rightarrow> jstr" where
  "js_trim s = rev (dropWhile is_js_space (rev (dropWhile is_js_space s)))"

lemma js_trim_Nil [simp]: "js_trim [] = []"
  by (simp add: js_trim_def)

lemma dropWhile_rev_rev_hd:
  "rev (dropWhile P (rev xs)) \<noteq> [] \<Longrightarrow> hd (rev (dropWhile P (rev xs))) = hd xs"
proof (induction xs)
  case Nil
  then show ?case by simp
next
  case (Cons x xs)
  have *: "rev (dropWhile P (rev (x # xs))) =
      (if \<forall>y \<in> set xs. P y then (if P x then [] else [x]) else x # rev (dropWhile P (rev xs)))"
    by (auto simp: dropWhile_append)
  show ?case
    using Cons.prems unfolding * by (auto split: if_splits)
qed

lemma js_trim_idem [simp]: "js_trim (js_trim s) = js_trim s"
proof (cases "js_trim s")
  case Nil
  then show ?thesis by simp
next
  case (Cons c t)
  let ?u = "dropWhile is_js_space s"
  have u: "js_trim s = rev (dropWhile is_js_space (rev ?u))"
    by (simp add: js_trim_def)
  have ne: "?u \<noteq> []"
    using Cons u by (cases ?u) auto
  have "hd (js_trim s) = hd ?u"
    using Cons u dropWhile_rev_rev_hd [of is_js_space ?u] by simp
  then have "\<not> is_js_space c"
    using ne Cons hd_dropWhile [of is_js_space s] by simp
  then have l: "dropWhile is_js_space (js_trim s) = js_trim s"
    using Cons by simp
  have r: "dropWhile is_js_space (rev (js_trim s)) = rev (js_trim s)"
    by (simp add: js_trim_def dropWhile_idem)
  show ?thesis
    unfolding js_trim_def [of "js_trim s"] l r by simp
qed

section \<open>Decimal digits\<close>

fun digits :: "nat \<Rightarrow> nat list" where
  "digits n = (if n < 10 then [n] else digits (n div 10) @ [n mod 10])"

declare digits.simps [simp del]

definition digit_cu :: "nat \<Rightarrow> cu" where
  "digit_cu d = of_nat (48 + d)"

definition is_digit :: "cu \<Rightarrow> bool" where
  "is_digit c \<longleftrightarrow> 48 \<le> c \<and> c \<le> 57"

definition nat_str :: "nat \<Rightarrow> jstr" where
  "nat_str n = map digit_cu (digits n)"

definition digits_val :: "nat list \<Rightarrow> nat" where
  "digits_val ds = foldl (\<lambda>a d. 10 * a + d) 0 ds"

lemma foldl_digits_append:
  "foldl (\<lambda>a d. 10 * a + d) (x::nat) ds = x * 10 ^ length ds + digits_val ds"
proof (induction ds arbitrary: x)
  case Nil
  then show ?case by (simp add: digits_val_def)
next
  case (Cons d ds)
  have "digits_val (d # ds) = d * 10 ^ length ds + digits_val ds"
    using Cons.IH [of d] by (simp add: digits_val_def)
  then show ?case
    using Cons.IH [of "10 * x + d"] by (simp add: algebra_simps)
qed

lemma digits_val_Nil [simp]: "digits_val [] = 0"
  by (simp add: digits_val_def)

lemma digits_val_Cons: "digits_val (d # ds) = d * 10 ^ length ds + digits_val ds"
  using foldl_digits_append [of d ds] by (simp add: digits_val_def)

lemma digits_val_append: "digits_val (xs @ ys) = digits_val xs * 10 ^ length ys + digits_val ys"
  by (induction xs) (auto simp: digits_val_Cons algebra_simps power_add)

lemma digits_val_replicate_0 [simp]: "digits_val (replicate n 0) = 0"
  by (induction n) (auto simp: digits_val_Cons)

lemma digits_val_digits [simp]: "digits_val (digits n) = n"
proof (induction n rule: digits.induct)
  case (1 n)
  then show ?case
    by (subst digits.simps) (auto simp: digits_val_append digits_val_Cons)
qed

lemma digits_nonempty [simp]: "digits n \<noteq> []"
  by (subst digits.simps) simp

lemma digits_small: "d \<in> set (digits n) \<Longrightarrow> d < 10"
proof (induction n arbitrary: d rule: digits.induct)
  case (1 n)
  show ?case
  proof (cases "n < 10")
    case True
    with "1.prems" show ?thesis by (simp add: digits.simps [of n])
  next
    case False
    with "1.prems" have "d = n mod 10 \<or> d \<in> set (digits (n div 10))"
      by (auto simp: digits.simps [of n])
    with "1.IH" False show ?thesis by auto
  qed
qed

lemma digits_hd_pos: "n > 0 \<Longrightarrow> hd (digits n) > 0"
proof (induction n rule: digits.induct)
  case (1 n)
  then show ?case
    by (subst digits.simps) (auto simp: hd_append)
qed

lemma digits_last: "last (digits n) = n mod 10"
  by (subst digits.simps) simp

lemma unat_digit_cu: "d < 10 \<Longrightarrow> unat (digit_cu d) = 48 + d"
  by (simp add: digit_cu_def unat_of_nat del: of_nat_add)

lemma is_digit_digit_cu: "d < 10 \<Longrightarrow> is_digit (digit_cu d)"
  using unat_digit_cu [of d] by (simp add: is_digit_def word_le_nat_alt)

lemma digit_cu_inject: "d < 10 \<Longrightarrow> e < 10 \<Longrightarrow> digit_cu d = digit_cu e \<longleftrightarrow> d = e"
  by (metis add_left_imp_eq unat_digit_cu)

lemma is_digit_nat_str: "c \<in> set (nat_str n) \<Longrightarrow> is_digit c"
  by (auto simp: nat_str_def digits_small is_digit_digit_cu)

lemma nat_str_nonempty [simp]: "nat_str n \<noteq> []"
  by (simp add: nat_str_def)

definition str_val :: "jstr \<Rightarrow> nat" where
  "str_val s = digits_val (map (\<lambda>c. unat c - 48) s)"

lemma str_val_nat_str [simp]: "str_val (nat_str n) = n"
proof -
  have "map (\<lambda>c. unat c - 48) (map digit_cu ds) = ds" if "\<forall>d \<in> set ds. d < 10" for ds
    using that by (induction ds) (auto simp: unat_digit_cu)
  then show ?thesis
    by (simp add: str_val_def nat_str_def digits_small del: map_map)
qed

lemma nat_str_inject [simp]: "nat_str m = nat_str n \<longleftrightarrow> m = n"
  by (metis str_val_nat_str)

section \<open>Results\<close>

text \<open>Sequencing of computations that may throw, and the loop that stops at the first error.\<close>

fun bindE :: "'e + 'a \<Rightarrow> ('a \<Rightarrow> 'e + 'b) \<Rightarrow> 'e + 'b" where
  "bindE (Inl e) f = Inl e"
| "bindE (Inr x) f = f x"

fun mapE :: "('a \<Rightarrow> 'e + 'b) \<Rightarrow> 'a list \<Rightarrow> 'e + 'b list" where
  "mapE f [] = Inr []"
| "mapE f (x # xs) = bindE (f x) (\<lambda>y. bindE (mapE f xs) (\<lambda>ys. Inr (y # ys)))"

definition of_option :: "'e \<Rightarrow> 'a option \<Rightarrow> 'e + 'a" where
  "of_option e v = (case v of None \<Rightarrow> Inl e | Some x \<Rightarrow> Inr x)"

lemma bindE_Inr_iff [res_simps]: "bindE r f = Inr y \<longleftrightarrow> (\<exists>x. r = Inr x \<and> f x = Inr y)"
  by (cases r) auto

lemma bindE_Inl_iff [res_simps]:
  "bindE r f = Inl e \<longleftrightarrow> r = Inl e \<or> (\<exists>x. r = Inr x \<and> f x = Inl e)"
  by (cases r) auto

lemma of_option_iff [res_simps]:
  "of_option e v = Inr x \<longleftrightarrow> v = Some x" "of_option e v = Inl d \<longleftrightarrow> v = None \<and> d = e"
  by (auto simp: of_option_def split: option.splits)

lemma mapE_Inr_length: "mapE f xs = Inr ys \<Longrightarrow> length ys = length xs"
  by (induction xs arbitrary: ys) (auto simp: res_simps)

lemma mapE_cong [fundef_cong]:
  "xs = ys \<Longrightarrow> (\<And>x. x \<in> set ys \<Longrightarrow> f x = g x) \<Longrightarrow> mapE f xs = mapE g ys"
  by (induction xs arbitrary: ys) auto

lemma mapE_Inr: "(\<And>x. x \<in> set xs \<Longrightarrow> f x = Inr (g x)) \<Longrightarrow> mapE f xs = Inr (map g xs)"
  by (induction xs) auto

lemma mapE_Inr_iff: "mapE f xs = Inr ys \<longleftrightarrow> list_all2 (\<lambda>x y. f x = Inr y) xs ys"
  by (induction xs arbitrary: ys) (auto simp: res_simps list_all2_Cons1)

section \<open>Options over lists\<close>

definition mapO :: "('a \<Rightarrow> 'b option) \<Rightarrow> 'a list \<Rightarrow> 'b list option" where
  "mapO f xs = those (map f xs)"

lemma mapO_simps [simp]:
  "mapO f [] = Some []"
  "mapO f (x # xs) =
     (case f x of None \<Rightarrow> None | Some y \<Rightarrow> map_option (Cons y) (mapO f xs))"
  by (auto simp: mapO_def split: option.split)

lemma mapO_cong [fundef_cong]:
  "xs = ys \<Longrightarrow> (\<And>x. x \<in> set ys \<Longrightarrow> f x = g x) \<Longrightarrow> mapO f xs = mapO g ys"
  by (simp add: mapO_def cong: map_cong)

lemma mapO_Some_iff: "mapO f xs = Some ys \<longleftrightarrow> list_all2 (\<lambda>x y. f x = Some y) xs ys"
  by (induction xs arbitrary: ys) (auto split: option.splits simp: list_all2_Cons1)

lemma mapO_map: "(\<And>x. x \<in> set xs \<Longrightarrow> f (g x) = Some x) \<Longrightarrow> mapO f (map g xs) = Some xs"
  by (induction xs) auto

lemma mapO_SomeD: "mapO f xs = Some ys \<Longrightarrow> y \<in> set ys \<Longrightarrow> \<exists>x \<in> set xs. f x = Some y"
  by (induction xs arbitrary: ys) (auto split: option.splits)

lemma mapO_SomeI: "(\<And>x. x \<in> set xs \<Longrightarrow> f x = Some (g x)) \<Longrightarrow> mapO f xs = Some (map g xs)"
  by (induction xs) auto

section \<open>Association lists\<close>

text \<open>
  An object's own properties, in enumeration order. \<open>assoc_del\<close> is \<open>delete o[k]\<close>,
  \<open>assoc_put\<close> is \<open>o[k] = v\<close>: an existing key keeps its place, a new one goes last.
\<close>

definition assoc_del :: "'k \<Rightarrow> ('k \<times> 'v) list \<Rightarrow> ('k \<times> 'v) list" where
  "assoc_del k kvs = filter (\<lambda>p. fst p \<noteq> k) kvs"

fun assoc_put :: "'k \<Rightarrow> 'v \<Rightarrow> ('k \<times> 'v) list \<Rightarrow> ('k \<times> 'v) list" where
  "assoc_put k v [] = [(k, v)]"
| "assoc_put k v (p # ps) = (if fst p = k then (k, v) # ps else p # assoc_put k v ps)"

lemma map_of_assoc_put: "map_of (assoc_put k v kvs) = (map_of kvs)(k \<mapsto> v)"
  by (induction kvs) auto

lemma map_of_assoc_del: "map_of (assoc_del k kvs) = (map_of kvs)(k := None)"
  by (induction kvs) (auto simp: assoc_del_def)

lemma assoc_put_new: "k \<notin> fst ` set kvs \<Longrightarrow> assoc_put k v kvs = kvs @ [(k, v)]"
  by (induction kvs) auto

lemma fst_set_assoc_put: "fst ` set (assoc_put k v kvs) = insert k (fst ` set kvs)"
  by (induction kvs) auto

lemma distinct_assoc_put: "distinct (map fst kvs) \<Longrightarrow> distinct (map fst (assoc_put k v kvs))"
proof (induction kvs)
  case Nil
  then show ?case by simp
next
  case (Cons p ps)
  then show ?case
    using fst_set_assoc_put [of k v ps] by (auto simp: image_iff)
qed

lemma distinct_assoc_del: "distinct (map fst kvs) \<Longrightarrow> distinct (map fst (assoc_del k kvs))"
  by (simp add: assoc_del_def distinct_map_filter)

end
