(* ===== verification/JsValue.thy ===== *)
theory JsValue
  imports Prelude
begin

text \<open>
  The values the program computes with where TypeScript says \<open>unknown\<close>: numbers, and the
  plain objects and arrays that \<open>JSON.parse\<close> and the editor produce.

  A finite double is written by its shortest decimal: \<open>Dec neg s e\<close> is the double whose
  shortest round-trip decimal is \<open>s * 10 ^ e\<close>, negated when \<open>neg\<close>. Number::toString of
  ECMAScript is defined on exactly these digits, so every double has one such form, the one
  with no trailing zero in \<open>s\<close> (\<open>wf_num\<close>); the two zeros are \<open>Dec False 0 0\<close> and
  \<open>Dec True 0 0\<close>. The shortest decimals of two doubles are ordered as the doubles are, so
  the comparisons are made on them.
\<close>

section \<open>Numbers\<close>

datatype jsnum = NaN | Infty bool | Dec bool nat int

fun wf_num :: "jsnum \<Rightarrow> bool" where
  "wf_num (Dec b s e) \<longleftrightarrow> (if s = 0 then e = 0 else s mod 10 \<noteq> 0)"
| "wf_num NaN \<longleftrightarrow> True"
| "wf_num (Infty b) \<longleftrightarrow> True"

fun is_finite :: "jsnum \<Rightarrow> bool" where
  "is_finite (Dec b s e) \<longleftrightarrow> True"
| "is_finite NaN \<longleftrightarrow> False"
| "is_finite (Infty b) \<longleftrightarrow> False"

text \<open>The coefficient of \<open>10 ^ k\<close>, for \<open>k\<close> at most the exponent.\<close>

fun scaled :: "int \<Rightarrow> bool \<Rightarrow> nat \<Rightarrow> int \<Rightarrow> int" where
  "scaled k b s e = (if b then - int s else int s) * 10 ^ nat (e - k)"

fun num_le :: "jsnum \<Rightarrow> jsnum \<Rightarrow> bool" where
  "num_le NaN y \<longleftrightarrow> False"
| "num_le x NaN \<longleftrightarrow> False"
| "num_le (Infty True) y \<longleftrightarrow> True"
| "num_le x (Infty False) \<longleftrightarrow> True"
| "num_le (Infty False) y \<longleftrightarrow> False"
| "num_le x (Infty True) \<longleftrightarrow> False"
| "num_le (Dec b s e) (Dec c t f) \<longleftrightarrow>
     (let k = min e f in scaled k b s e \<le> scaled k c t f)"

text \<open>The same mathematical value (\<open>===\<close> on two finite numbers).\<close>

fun num_same :: "jsnum \<Rightarrow> jsnum \<Rightarrow> bool" where
  "num_same (Dec b s e) (Dec c t f) \<longleftrightarrow>
     (let k = min e f in scaled k b s e = scaled k c t f)"
| "num_same (Infty b) (Infty c) \<longleftrightarrow> b = c"
| "num_same x y \<longleftrightarrow> False"

fun strip_zeros :: "nat \<Rightarrow> int \<Rightarrow> nat \<times> int" where
  "strip_zeros s e =
     (if s = 0 then (0, 0) else if s mod 10 = 0 then strip_zeros (s div 10) (e + 1) else (s, e))"

declare strip_zeros.simps [simp del]

definition num_of_int :: "int \<Rightarrow> jsnum" where
  "num_of_int i = (let (s, e) = strip_zeros (nat \<bar>i\<bar>) 0 in Dec (i < 0) s e)"

text \<open>The integer a number is, when it is one.\<close>

fun num_int :: "jsnum \<Rightarrow> int option" where
  "num_int (Dec b s e) =
     (if 0 \<le> e then Some ((if b then - int s else int s) * 10 ^ nat e)
      else if s mod 10 ^ nat (- e) = 0
        then Some ((if b then - 1 else 1) * int (s div 10 ^ nat (- e)))
        else None)"
| "num_int NaN = None"
| "num_int (Infty b) = None"

definition max_safe_integer :: int where
  "max_safe_integer = 9007199254740991"

text \<open>\<open>Number.isSafeInteger\<close>, as the integer itself.\<close>

definition safe_int :: "jsnum \<Rightarrow> int option" where
  "safe_int n = (case num_int n of None \<Rightarrow> None
     | Some i \<Rightarrow> if \<bar>i\<bar> \<le> max_safe_integer then Some i else None)"

lemma strip_zeros_value:
  "strip_zeros s e = (t, f) \<Longrightarrow> s > 0 \<Longrightarrow> f \<ge> e \<and> t > 0 \<and> t mod 10 \<noteq> 0 \<and> s = t * 10 ^ nat (f - e)"
proof (induction s e arbitrary: t f rule: strip_zeros.induct)
  case (1 s e)
  show ?case
  proof (cases "s mod 10 = 0")
    case True
    with 1 have st: "strip_zeros (s div 10) (e + 1) = (t, f)" and p: "s div 10 > 0"
      by (auto simp: strip_zeros.simps [of s e])
    with "1.IH" "1.prems" True have ih: "f \<ge> e + 1" "t > 0" "t mod 10 \<noteq> 0"
      "s div 10 = t * 10 ^ nat (f - (e + 1))"
      by auto
    have n: "nat (f - e) = Suc (nat (f - (e + 1)))"
      using ih(1) by linarith
    have "s = 10 * (s div 10)"
      using True by (metis mult_div_mod_eq add_0_right)
    then have "s = t * 10 ^ nat (f - e)"
      unfolding n using ih(4) by simp
    with ih show ?thesis by simp
  next
    case False
    with 1 have "t = s" "f = e" by (auto simp: strip_zeros.simps [of s e])
    with 1 False show ?thesis by simp
  qed
qed

lemma strip_zeros_0 [simp]: "strip_zeros 0 e = (0, 0)"
  by (simp add: strip_zeros.simps)

lemma wf_num_of_int [simp]: "wf_num (num_of_int i)"
proof (cases "i = 0")
  case False
  obtain s e where se: "strip_zeros (nat \<bar>i\<bar>) 0 = (s, e)" by force
  from strip_zeros_value [OF se] False have "s > 0" "s mod 10 \<noteq> 0" by auto
  with se show ?thesis by (simp add: num_of_int_def)
qed (simp add: num_of_int_def)

lemma num_int_of_int [simp]: "num_int (num_of_int i) = Some i"
proof (cases "i = 0")
  case False
  obtain s e where se: "strip_zeros (nat \<bar>i\<bar>) 0 = (s, e)" by force
  from strip_zeros_value [OF se] False have "e \<ge> 0" and v: "nat \<bar>i\<bar> = s * 10 ^ nat e" by auto
  have "int s * 10 ^ nat e = \<bar>i\<bar>"
    using v by (metis abs_ge_zero int_nat_eq of_nat_mult of_nat_numeral of_nat_power)
  with \<open>e \<ge> 0\<close> se show ?thesis
    by (auto simp: num_of_int_def)
qed (simp add: num_of_int_def)

lemma is_finite_num_of_int [simp]: "is_finite (num_of_int i)"
  by (simp add: num_of_int_def split: prod.split)

lemma num_of_int_inject [simp]: "num_of_int i = num_of_int j \<longleftrightarrow> i = j"
  by (metis num_int_of_int option.inject)

lemma safe_int_of_int [simp]:
  "safe_int (num_of_int i) = (if \<bar>i\<bar> \<le> max_safe_integer then Some i else None)"
  by (simp add: safe_int_def)

text \<open>A well-formed decimal is determined by its value, but for the sign of zero.\<close>

lemma wf_dec_unique:
  assumes "wf_num (Dec b s e)" "wf_num (Dec c t f)" "num_same (Dec b s e) (Dec c t f)"
  shows "s = t \<and> e = f \<and> (s \<noteq> 0 \<longrightarrow> b = c)"
proof -
  have aux: "s = t \<and> e = f \<and> (s \<noteq> 0 \<longrightarrow> b = c)"
    if wf: "wf_num (Dec b s e)" "wf_num (Dec c t f)" and le: "e \<le> f"
      and same: "(if b then - int s else int s) = (if c then - int t else int t) * 10 ^ nat (f - e)"
    for b s e c t f
  proof (cases "s = 0")
    case True
    with same have "t = 0" by (auto split: if_splits)
    with True wf show ?thesis by simp
  next
    case False
    have st: "s = t * 10 ^ nat (f - e)"
    proof -
      have "int s = int (t * 10 ^ nat (f - e))"
        using arg_cong [OF same, of abs] by (simp add: abs_mult split: if_splits)
      then show ?thesis by (simp only: of_nat_eq_iff)
    qed
    have "nat (f - e) = 0"
    proof (rule ccontr)
      assume "nat (f - e) \<noteq> 0"
      then have "s mod 10 = 0"
        unfolding st by (cases "nat (f - e)") auto
      with wf(1) False show False by simp
    qed
    with le st have "e = f" "s = t" by auto
    moreover have "b = c"
      using same \<open>e = f\<close> \<open>s = t\<close> False by (auto split: if_splits)
    ultimately show ?thesis by simp
  qed
  show ?thesis
  proof (cases "e \<le> f")
    case True
    with assms(3) have "(if b then - int s else int s) = (if c then - int t else int t) * 10 ^ nat (f - e)"
      by (simp add: min_def)
    with aux [OF assms(1,2) True] show ?thesis by simp
  next
    case False
    with assms(3) have "(if c then - int t else int t) = (if b then - int s else int s) * 10 ^ nat (e - f)"
      by (simp add: min_def)
    with aux [OF assms(2,1)] False show ?thesis by auto
  qed
qed

lemma scaled_shift:
  assumes "k \<le> j" "j \<le> e"
  shows "scaled k b s e = scaled j b s e * 10 ^ nat (j - k)"
proof -
  have "nat (e - k) = nat (e - j) + nat (j - k)" using assms by linarith
  then show ?thesis by (simp add: power_add)
qed

lemma num_same_common:
  assumes "k \<le> e" "k \<le> f"
  shows "num_same (Dec b s e) (Dec c t f) \<longleftrightarrow> scaled k b s e = scaled k c t f"
proof -
  define j where "j = min e f"
  have "scaled k b s e = scaled j b s e * 10 ^ nat (j - k)"
    "scaled k c t f = scaled j c t f * 10 ^ nat (j - k)"
    using assms by (auto intro!: scaled_shift simp: j_def simp del: scaled.simps)
  moreover have "(10::int) ^ nat (j - k) \<noteq> 0" by simp
  ultimately show ?thesis
    by (simp only: num_same.simps Let_def j_def [symmetric] mult_cancel_right) simp
qed

lemma num_same_sym: "num_same x y \<Longrightarrow> num_same y x"
  by (cases x; cases y) (auto simp: Let_def min.commute)

lemma num_same_trans:
  assumes "num_same x y" "num_same y z"
  shows "num_same x z"
proof (cases "\<exists>b s e c t f d u g. x = Dec b s e \<and> y = Dec c t f \<and> z = Dec d u g")
  case True
  then obtain b s e c t f d u g where xyz: "x = Dec b s e" "y = Dec c t f" "z = Dec d u g" by blast
  define k where "k = min e (min f g)"
  have k: "k \<le> e" "k \<le> f" "k \<le> g" by (auto simp: k_def)
  show ?thesis
    using assms unfolding xyz num_same_common [OF k(1,2)] num_same_common [OF k(2,3)]
      num_same_common [OF k(1,3)] by simp
next
  case False
  with assms show ?thesis by (cases x; cases y; cases z) auto
qed

section \<open>Values\<close>

text \<open>
  \<open>JOther\<close> stands for the values that are not data (functions, symbols, bigints), with what
  \<open>typeof\<close> says of them. An object is its own enumerable properties in enumeration order.
\<close>

datatype jsval =
    JUndef
  | JNull
  | JBool bool
  | JNum jsnum
  | JStr jstr
  | JArr "jsval list"
  | JObj "(jstr \<times> jsval) list"
  | JOther string

type_synonym fields = "(jstr \<times> jsval) list"

text \<open>\<open>o[k]\<close>: a missing property reads as \<open>undefined\<close>.\<close>

definition getp :: "fields \<Rightarrow> jstr \<Rightarrow> jsval" where
  "getp fs k = (case map_of fs k of None \<Rightarrow> JUndef | Some v \<Rightarrow> v)"

lemma getp_Nil [simp]: "getp [] k = JUndef"
  by (simp add: getp_def)

lemma getp_Cons [simp]: "getp ((j, v) # fs) k = (if j = k then v else getp fs k)"
  by (simp add: getp_def)

lemma getp_append:
  "getp (fs @ gs) k = (if k \<in> fst ` set fs then getp fs k else getp gs k)"
proof (cases "map_of fs k")
  case None
  then have "k \<notin> fst ` set fs" by (simp add: map_of_eq_None_iff)
  with None show ?thesis by (simp add: getp_def map_add_def split: option.split)
next
  case (Some v)
  then have "k \<in> fst ` set fs" by (metis map_of_SomeD fst_conv image_eqI)
  with Some show ?thesis by (simp add: getp_def map_add_def split: option.split)
qed

lemma getp_mem: "getp fs k = v \<Longrightarrow> v \<noteq> JUndef \<Longrightarrow> (k, v) \<in> set fs"
  by (auto simp: getp_def split: option.splits dest: map_of_SomeD)

lemma getp_perm:
  "distinct (map fst fs) \<Longrightarrow> distinct (map fst gs) \<Longrightarrow> set fs = set gs \<Longrightarrow> getp fs k = getp gs k"
proof -
  assume "distinct (map fst fs)" "distinct (map fst gs)" "set fs = set gs"
  then have "map_of fs = map_of gs" by (simp add: map_of_inject_set)
  then show ?thesis by (simp add: getp_def)
qed

fun truthy :: "jsval \<Rightarrow> bool" where
  "truthy JUndef \<longleftrightarrow> False"
| "truthy JNull \<longleftrightarrow> False"
| "truthy (JBool b) \<longleftrightarrow> b"
| "truthy (JNum n) \<longleftrightarrow> (case n of NaN \<Rightarrow> False | Infty b \<Rightarrow> True | Dec b s e \<Rightarrow> s \<noteq> 0)"
| "truthy (JStr s) \<longleftrightarrow> s \<noteq> []"
| "truthy v \<longleftrightarrow> True"

text \<open>\<open>a ?? b\<close>\<close>

fun nullish :: "jsval \<Rightarrow> bool" where
  "nullish JUndef \<longleftrightarrow> True"
| "nullish JNull \<longleftrightarrow> True"
| "nullish v \<longleftrightarrow> False"

lemma size_getp_less: "getp fs k \<noteq> JUndef \<Longrightarrow> size (getp fs k) < size (JObj fs)"
proof (induction fs)
  case Nil
  then show ?case by simp
next
  case (Cons p fs)
  obtain j v where p: "p = (j, v)" by force
  with Cons show ?case by (cases "j = k") auto
qed

lemma size_arr_less: "v \<in> set vs \<Longrightarrow> size v < size (JArr vs)"
  by (induction vs) auto

lemma size_getp_arr_less: "getp fs k = JArr vs \<Longrightarrow> v \<in> set vs \<Longrightarrow> size v < size (JObj fs)"
  using size_getp_less [of fs k] size_arr_less [of v vs] by simp

lemma size_field_less: "(k, v) \<in> set fs \<Longrightarrow> size v < size (JObj fs)"
  by (induction fs) auto

section \<open>\<open>String(n)\<close>\<close>

text \<open>Number::toString of ECMAScript, on the shortest decimal.\<close>

definition zeros :: "nat \<Rightarrow> jstr" where
  "zeros n = replicate n (digit_cu 0)"

definition int_str :: "int \<Rightarrow> jstr" where
  "int_str i = (if i < 0 then js ''-'' @ nat_str (nat (- i)) else nat_str (nat i))"

definition dec_str :: "nat \<Rightarrow> int \<Rightarrow> jstr" where
  "dec_str s e =
     (let ds = nat_str s; k = int (length ds); n = e + k in
      if k \<le> n \<and> n \<le> 21 then ds @ zeros (nat (n - k))
      else if 0 < n \<and> n \<le> 21 then take (nat n) ds @ js ''.'' @ drop (nat n) ds
      else if - 6 < n \<and> n \<le> 0 then js ''0.'' @ zeros (nat (- n)) @ ds
      else (if k = 1 then ds else take 1 ds @ js ''.'' @ drop 1 ds) @ js ''e'' @
           (if n - 1 < 0 then js ''-'' @ nat_str (nat (1 - n)) else js ''+'' @ nat_str (nat (n - 1))))"

fun num_str :: "jsnum \<Rightarrow> jstr" where
  "num_str NaN = js ''NaN''"
| "num_str (Infty b) = (if b then js ''-Infinity'' else js ''Infinity'')"
| "num_str (Dec b s e) =
     (if s = 0 then js ''0'' else if b then js ''-'' @ dec_str s e else dec_str s e)"

section \<open>Converting to a string\<close>

text \<open>
  \<open>String(v)\<close>, or nothing where it throws: an object of JSON has the inherited \<open>toString\<close> unless
  it has a property of that name of its own, which is not a function.
\<close>

fun js_String :: "jsval \<Rightarrow> jstr option" where
  "js_String JUndef = Some (js ''undefined'')"
| "js_String JNull = Some (js ''null'')"
| "js_String (JBool b) = Some (if b then js ''true'' else js ''false'')"
| "js_String (JNum n) = Some (num_str n)"
| "js_String (JStr s) = Some s"
| "js_String (JArr vs) = map_option (join (js '',''))
     (mapO (\<lambda>v. if nullish v then Some [] else js_String v) vs)"
| "js_String (JObj fs) = (if js ''toString'' \<in> fst ` set fs then None else Some (js ''[object Object]''))"
| "js_String (JOther t) = Some (js ''[object '' @ js t @ js '']'')"

end
