(* ===== verification/Serialize.thy ===== *)
theory Serialize
  imports JsValue "HOL-Library.Multiset"
begin

text \<open>
  \<open>apps/web/lib/ast/serialize.ts\<close> and \<open>hash.ts\<close>: the canonical JSON of an AST value and
  its content hash. SHA-256 over UTF-8 (node:crypto) is the parameter \<open>sha\<close> of
  \<open>contentHash\<close>.
\<close>

section \<open>The writer\<close>

text \<open>\<open>Number(text)\<close> on an optionally signed run of digits; other texts are not met here.\<close>

definition exponent_val :: "jstr \<Rightarrow> int" where
  "exponent_val t =
     (case t of [] \<Rightarrow> 0
      | c # r \<Rightarrow> if c = ch CHR ''-'' then - int (str_val r)
                else if c = ch CHR ''+'' then int (str_val r) else int (str_val t))"

definition expandExponential :: "jstr \<Rightarrow> jstr" where
  "expandExponential v =
     (case split_cu (ch CHR ''e'') (map lower_cu v) of
        coefficient # exponentText # _ \<Rightarrow>
          (let negative = starts_with coefficient (js ''-'');
               unsigned = (if negative then drop 1 coefficient else coefficient);
               parts = split_cu (ch CHR ''.'') unsigned;
               integer = hd parts;
               fraction = (case tl parts of [] \<Rightarrow> [] | f # _ \<Rightarrow> f);
               digs = integer @ fraction;
               decimalIndex = int (length integer) + exponent_val exponentText;
               expanded =
                 (if decimalIndex \<le> 0 then js ''0.'' @ zeros (nat (- decimalIndex)) @ digs
                  else if decimalIndex \<ge> int (length digs)
                    then digs @ zeros (nat (decimalIndex - int (length digs)))
                  else take (nat decimalIndex) digs @ js ''.'' @ drop (nat decimalIndex) digs)
           in if negative then js ''-'' @ expanded else expanded)
      | _ \<Rightarrow> v)"

definition hex_cu :: "nat \<Rightarrow> cu" where
  "hex_cu d = (if d < 10 then of_nat (48 + d) else of_nat (87 + d))"

definition escape_cu :: "cu \<Rightarrow> jstr" where
  "escape_cu c =
     (if c = 34 then [92, 34]
      else if c = 92 then [92, 92]
      else if c = 8 then [92, 98]
      else if c = 12 then [92, 102]
      else if c = 10 then [92, 110]
      else if c = 13 then [92, 114]
      else if c = 9 then [92, 116]
      else if c < 32 then [92, 117, 48, 48] @ [hex_cu (unat c div 16), hex_cu (unat c mod 16)]
      else [c])"

definition escapeString :: "jstr \<Rightarrow> jstr" where
  "escapeString s = [34] @ concat (map escape_cu s) @ [34]"

datatype canonical_error = NumberOutOfRange jsnum | UnsupportedType string

definition typeof_unsupported :: "jsval \<Rightarrow> string" where
  "typeof_unsupported v = (case v of JOther t \<Rightarrow> t | _ \<Rightarrow> ''undefined'')"

definition number_in_range :: "jsnum \<Rightarrow> bool" where
  "number_in_range n \<longleftrightarrow> is_finite n \<and>
     num_le (num_of_int (- max_safe_integer)) n \<and> num_le n (num_of_int max_safe_integer)"

definition write_number :: "jsnum \<Rightarrow> canonical_error + jstr" where
  "write_number n =
     (if \<not> number_in_range n then Inl (NumberOutOfRange n)
      else if n = Dec True 0 0 then Inr (js ''0'')
      else Inr (expandExponential (num_str n)))"

definition live_fields :: "fields \<Rightarrow> fields" where
  "live_fields fs = sort_key fst (filter (\<lambda>p. snd p \<noteq> JUndef) fs)"

lemma set_live_fields: "set (live_fields fs) \<subseteq> set fs"
  by (auto simp: live_fields_def)

lemma live_fields_size [termination_simp]:
  "(k, v) \<in> set (live_fields fs) \<Longrightarrow> size v < Suc (size_list (\<lambda>x. Suc (size (snd x))) fs)"
  using size_field_less [of k v fs] set_live_fields [of fs]
  by (auto simp: prod.size_gen(1) [abs_def] case_prod_unfold size_prod_simp)

fun writeCanonical :: "jsval \<Rightarrow> canonical_error + jstr" where
  "writeCanonical JNull = Inr (js ''null'')"
| "writeCanonical (JBool b) = Inr (if b then js ''true'' else js ''false'')"
| "writeCanonical (JStr s) = Inr (escapeString s)"
| "writeCanonical (JNum n) = write_number n"
| "writeCanonical (JArr vs) =
     bindE (mapE writeCanonical vs) (\<lambda>ps. Inr (js ''['' @ join (js '','') ps @ js '']''))"
| "writeCanonical (JObj fs) =
     bindE (mapE (\<lambda>p. bindE (writeCanonical (snd p)) (\<lambda>s. Inr (escapeString (fst p) @ js '':'' @ s)))
                 (live_fields fs))
       (\<lambda>ps. Inr (js ''{'' @ join (js '','') ps @ js ''}''))"
| "writeCanonical JUndef = Inl (UnsupportedType (typeof_unsupported JUndef))"
| "writeCanonical (JOther t) = Inl (UnsupportedType (typeof_unsupported (JOther t)))"

definition canonicalJson :: "jsval \<Rightarrow> canonical_error + jstr" where
  "canonicalJson v = writeCanonical v"

definition contentHash :: "(jstr \<Rightarrow> jstr) \<Rightarrow> jsval \<Rightarrow> canonical_error + jstr" where
  "contentHash sha v = bindE (canonicalJson v) (\<lambda>s. Inr (sha s))"

section \<open>Numbers are written in plain decimal\<close>

text \<open>The decimal without exponent that the canonical form prescribes.\<close>

definition plain_dec :: "nat \<Rightarrow> int \<Rightarrow> jstr" where
  "plain_dec s e =
     (let ds = nat_str s; n = e + int (length ds) in
      if 0 \<le> e then ds @ zeros (nat e)
      else if 0 < n then take (nat n) ds @ js ''.'' @ drop (nat n) ds
      else js ''0.'' @ zeros (nat (- n)) @ ds)"

definition plain_cu :: "cu \<Rightarrow> bool" where
  "plain_cu c \<longleftrightarrow> is_digit c \<or> c = ch CHR ''.'' \<or> c = ch CHR ''-''"

lemma lower_digit: "is_digit c \<Longrightarrow> lower_cu c = c"
  by (auto simp: lower_cu_def is_digit_def word_le_nat_alt)

lemma lower_lits: "lower_cu (ch CHR ''+'') = ch CHR ''+''" "lower_cu (ch CHR ''-'') = ch CHR ''-''"
  "lower_cu (ch CHR ''.'') = ch CHR ''.''" "lower_cu (ch CHR ''e'') = ch CHR ''e''"
  "\<not> is_digit (ch CHR ''e'')" "\<not> is_digit (ch CHR ''-'')" "\<not> is_digit (ch CHR ''.'')"
  by (simp_all add: lower_cu_def is_digit_def js_eval)

lemma lower_plain: "plain_cu c \<Longrightarrow> lower_cu c = c"
  by (auto simp: plain_cu_def lower_digit lower_lits)

lemma plain_not_e: "plain_cu c \<Longrightarrow> c \<noteq> ch CHR ''e''"
  by (auto simp: plain_cu_def is_digit_def js_eval)

lemma map_lower_plain: "\<forall>c \<in> set s. plain_cu c \<Longrightarrow> map lower_cu s = s"
  by (induction s) (auto simp: lower_plain)

lemma ball_not_mem: "\<forall>c \<in> set s. plain_cu c \<Longrightarrow> ch CHR ''e'' \<notin> set s"
  using plain_not_e by blast

lemma expand_plain: "\<forall>c \<in> set s. plain_cu c \<Longrightarrow> expandExponential s = s"
  by (simp add: expandExponential_def map_lower_plain split_cu_no [of "ch CHR ''e''"]
      plain_not_e [THEN not_sym] ball_not_mem)

lemma plain_nat_str: "\<forall>c \<in> set (nat_str n). plain_cu c"
  by (auto simp: plain_cu_def is_digit_nat_str)

lemma plain_zeros: "\<forall>c \<in> set (zeros n). plain_cu c"
  by (auto simp: zeros_def plain_cu_def is_digit_digit_cu)

lemma plain_lits: "plain_cu (ch CHR ''.'')" "plain_cu (ch CHR ''-'')" "plain_cu (ch CHR ''0'')"
  by (auto simp: plain_cu_def is_digit_def js_eval)

lemma plain_plain_dec: "c \<in> set (plain_dec s e) \<Longrightarrow> plain_cu c"
  using plain_nat_str [of s] plain_zeros
  by (auto simp: plain_dec_def Let_def js_def plain_lits split: if_splits dest: in_set_takeD in_set_dropD)

lemma exponent_val_neg: "exponent_val (js ''-'' @ nat_str m) = - int m"
  by (simp add: exponent_val_def js_def)

lemma exponent_val_pos: "exponent_val (js ''+'' @ nat_str m) = int m"
  by (simp add: exponent_val_def js_def)

lemma dot_notin_nat_str: "ch CHR ''.'' \<notin> set (nat_str s)" "ch CHR ''-'' \<notin> set (nat_str s)"
  using is_digit_nat_str [of "ch CHR ''.''" s] is_digit_nat_str [of "ch CHR ''-''" s]
  by (auto simp: is_digit_def js_eval)

lemma coef_parts:
  fixes s
  defines "ds \<equiv> nat_str s"
  defines "coef \<equiv> (if length ds = 1 then ds else take 1 ds @ js ''.'' @ drop 1 ds)"
  defines "parts \<equiv> split_cu (ch CHR ''.'') coef"
  shows "length (hd parts) = 1" "hd parts @ (case tl parts of [] \<Rightarrow> [] | f # _ \<Rightarrow> f) = ds"
    "\<not> starts_with coef (js ''-'')"
proof -
  have dot: "ch CHR ''.'' \<notin> set (take 1 ds)" "ch CHR ''.'' \<notin> set (drop 1 ds)"
    "ch CHR ''.'' \<notin> set ds"
    using dot_notin_nat_str(1) [of s] by (auto simp: ds_def dest: in_set_takeD in_set_dropD)
  have ne: "ds \<noteq> []" by (simp add: ds_def)
  have "split_cu (ch CHR ''.'') (take 1 ds @ ch CHR ''.'' # drop 1 ds) = [take 1 ds, drop 1 ds]"
    using dot by (simp add: split_cu_at split_cu_no)
  then have parts: "parts = (if length ds = 1 then [ds] else [take 1 ds, drop 1 ds])"
    using dot by (simp add: parts_def coef_def split_cu_no js_def)
  show "length (hd parts) = 1"
    using ne by (cases ds) (auto simp: parts)
  show "hd parts @ (case tl parts of [] \<Rightarrow> [] | f # _ \<Rightarrow> f) = ds"
    by (simp add: parts)
  have "hd coef = hd ds" "coef \<noteq> []"
    using ne by (auto simp: coef_def hd_append)
  moreover have "hd ds \<noteq> ch CHR ''-''"
    using dot_notin_nat_str(2) [of s] ne by (metis ds_def hd_in_set)
  ultimately show "\<not> starts_with coef (js ''-'')"
    by (cases coef) (auto simp: js_def)
qed

lemma expand_exponent:
  assumes p: "p = [] \<or> p = js ''-''"
    and coef: "\<forall>c \<in> set coef. plain_cu c" "\<not> starts_with coef (js ''-'')"
    and ex: "\<forall>c \<in> set ex. is_digit c \<or> c = ch CHR ''+'' \<or> c = ch CHR ''-''"
  shows "expandExponential (p @ coef @ js ''e'' @ ex) =
     p @ (let parts = split_cu (ch CHR ''.'') coef;
              integer = hd parts;
              digs = integer @ (case tl parts of [] \<Rightarrow> [] | f # _ \<Rightarrow> f);
              i = int (length integer) + exponent_val ex
          in if i \<le> 0 then js ''0.'' @ zeros (nat (- i)) @ digs
             else if i \<ge> int (length digs) then digs @ zeros (nat (i - int (length digs)))
             else take (nat i) digs @ js ''.'' @ drop (nat i) digs)"
proof -
  have plain: "\<forall>c \<in> set (p @ coef). plain_cu c"
    using p coef(1) by (auto simp: js_def plain_lits)
  have ex': "map lower_cu ex = ex" "ch CHR ''e'' \<notin> set ex"
    using ex by (auto intro!: map_idI simp: lower_digit lower_lits dest!: bspec)
  have "map lower_cu (p @ coef @ js ''e'' @ ex) = map lower_cu (p @ coef) @ ch CHR ''e'' # map lower_cu ex"
    by (simp add: js_def lower_lits)
  then have "map lower_cu (p @ coef @ js ''e'' @ ex) = (p @ coef) @ ch CHR ''e'' # ex"
    by (simp only: map_lower_plain [OF plain] ex'(1))
  then have "split_cu (ch CHR ''e'') (map lower_cu (p @ coef @ js ''e'' @ ex)) = [p @ coef, ex]"
    by (simp only: split_cu_at [OF ball_not_mem [OF plain]] split_cu_no [OF ex'(2)])
  moreover have "starts_with (p @ coef) (js ''-'') \<longleftrightarrow> p = js ''-''"
    using p coef(2) by (auto simp: js_def)
  ultimately show ?thesis
    using p by (auto simp: expandExponential_def Let_def js_def)
qed

lemma expand_dec_str:
  assumes p: "p = [] \<or> p = js ''-''"
  shows "expandExponential (p @ dec_str s e) = p @ plain_dec s e"
proof -
  let ?ds = "nat_str s"
  define k where "k = int (length ?ds)"
  define n where "n = e + k"
  have k1: "k = 1 \<longleftrightarrow> length ?ds = 1" by (simp add: k_def)
  show ?thesis
  proof (cases "- 6 < n \<and> n \<le> 21")
    case True
    then have "dec_str s e = plain_dec s e"
      by (auto simp: dec_str_def plain_dec_def Let_def n_def k_def [symmetric])
    then show ?thesis
      using p plain_plain_dec by (subst expand_plain) (auto simp: js_def plain_lits)
  next
    case False
    define coef where "coef = (if length ?ds = 1 then ?ds else take 1 ?ds @ js ''.'' @ drop 1 ?ds)"
    define ex where "ex = (if n - 1 < 0 then js ''-'' @ nat_str (nat (1 - n))
                           else js ''+'' @ nat_str (nat (n - 1)))"
    have d: "dec_str s e = coef @ js ''e'' @ ex"
      using False by (auto simp: dec_str_def Let_def n_def k_def coef_def ex_def)
    have coef_plain: "\<forall>c \<in> set coef. plain_cu c"
      using plain_nat_str [of s]
      by (auto simp: coef_def js_def plain_lits dest: in_set_takeD in_set_dropD)
    have ex_val: "exponent_val ex = n - 1"
      by (auto simp: ex_def exponent_val_neg exponent_val_pos)
    have ex_cu: "\<forall>c \<in> set ex. is_digit c \<or> c = ch CHR ''+'' \<or> c = ch CHR ''-''"
      by (auto simp: ex_def js_def is_digit_nat_str)
    note cp = coef_parts [of s, folded coef_def]
    show ?thesis
      unfolding d expand_exponent [OF p coef_plain cp(3) ex_cu] Let_def cp ex_val
      using False by (auto simp: plain_dec_def Let_def n_def k_def)
  qed
qed

text \<open>Reading a plain decimal back.\<close>

definition read_plain :: "jstr \<Rightarrow> jsnum" where
  "read_plain t =
     (let neg = starts_with t (js ''-'');
          u = (if neg then drop 1 t else t);
          i = takeWhile is_digit u;
          f = drop 1 (dropWhile is_digit u)
      in Dec neg (str_val (i @ f)) (- int (length f)))"

lemma str_val_append: "str_val (s @ t) = str_val s * 10 ^ length t + str_val t"
  by (simp add: str_val_def digits_val_append)

lemma str_val_zeros [simp]: "str_val (zeros n) = 0"
  by (simp add: str_val_def zeros_def unat_digit_cu)

lemma length_zeros [simp]: "length (zeros n) = n"
  by (simp add: zeros_def)

lemma str_val_0: "str_val (ch CHR ''0'' # s) = str_val s"
  by (simp add: str_val_def digits_val_Cons ch_def)

lemma digits_nat_str [simp]: "\<forall>c \<in> set (nat_str n). is_digit c" "\<forall>c \<in> set (zeros n). is_digit c"
  by (auto simp: is_digit_nat_str zeros_def is_digit_digit_cu)

lemma span_digits:
  "\<forall>c \<in> set i. is_digit c \<Longrightarrow> takeWhile is_digit (i @ ch CHR ''.'' # f) = i"
  "\<forall>c \<in> set i. is_digit c \<Longrightarrow> dropWhile is_digit (i @ ch CHR ''.'' # f) = ch CHR ''.'' # f"
  "\<forall>c \<in> set i. is_digit c \<Longrightarrow> takeWhile is_digit i = i"
  "\<forall>c \<in> set i. is_digit c \<Longrightarrow> dropWhile is_digit i = []"
  by (auto simp: takeWhile_append dropWhile_append lower_lits)

lemma read_plain_digits:
  assumes "\<forall>c \<in> set i. is_digit c" "i \<noteq> []"
  shows "read_plain (i @ ch CHR ''.'' # f) = Dec False (str_val (i @ f)) (- int (length f))"
    and "read_plain i = Dec False (str_val i) 0"
proof -
  have "hd i \<noteq> ch CHR ''-''"
    using assms lower_lits(6) by (metis hd_in_set)
  then have "\<not> starts_with (i @ r) (js ''-'')" for r
    using assms(2) by (cases i) (auto simp: js_def)
  from this [of "ch CHR ''.'' # f"] this [of "[]"]
  show "read_plain (i @ ch CHR ''.'' # f) = Dec False (str_val (i @ f)) (- int (length f))"
    "read_plain i = Dec False (str_val i) 0"
    using assms(1) by (simp_all add: read_plain_def span_digits lower_lits)
qed

lemma read_plain_neg: "read_plain (js ''-'' @ t) =
   (case (if starts_with t (js ''-'') then Dec True 0 0 else read_plain t) of
      Dec b s e \<Rightarrow> Dec True s e | n \<Rightarrow> n)
  \<or> starts_with t (js ''-'')"
  by (simp add: read_plain_def Let_def js_def)

lemma is_digit_hd_nat_str [simp]: "is_digit (hd (nat_str s))"
  by (rule is_digit_nat_str [of _ s]) simp

lemma is_digit_0: "is_digit (ch CHR ''0'')"
  by (simp add: is_digit_def js_eval)

lemma read_plain_dec:
  "\<exists>m f. read_plain (plain_dec s e) = Dec False m f \<and> \<not> starts_with (plain_dec s e) (js ''-'') \<and>
         f \<le> e \<and> m = s * 10 ^ nat (e - f)"
proof -
  let ?ds = "nat_str s"
  define n where "n = e + int (length ?ds)"
  have nd: "\<not> starts_with t (js ''-'')" if "t \<noteq> []" "is_digit (hd t)" for t
    using that lower_lits(6) by (cases t) (auto simp: js_def)
  consider "0 \<le> e" | "e < 0" "0 < n" | "e < 0" "n \<le> 0" by linarith
  then show ?thesis
  proof cases
    case 1
    let ?t = "?ds @ zeros (nat e)"
    have t: "plain_dec s e = ?t" using 1 by (simp add: plain_dec_def)
    have "\<forall>c \<in> set ?t. is_digit c" using digits_nat_str by auto
    then have "read_plain ?t = Dec False (str_val ?t) 0" "is_digit (hd ?t)"
      by (simp_all add: read_plain_digits(2) del: set_append)
    with 1 t nd [of ?t] show ?thesis by (simp add: str_val_append)
  next
    case 2
    let ?i = "take (nat n) ?ds" and ?f = "drop (nat n) ?ds"
    have t: "plain_dec s e = ?i @ ch CHR ''.'' # ?f"
      using 2 by (simp add: plain_dec_def Let_def n_def js_def)
    have i: "\<forall>c \<in> set ?i. is_digit c" "?i \<noteq> []"
      using 2 by (auto dest: in_set_takeD simp: is_digit_nat_str)
    have lf: "int (length ?f) = - e" using 2 by (simp add: n_def)
    have "read_plain (plain_dec s e) = Dec False s e"
      using read_plain_digits(1) [OF i, of ?f] lf by (simp add: t)
    moreover have "is_digit (hd (plain_dec s e))" "plain_dec s e \<noteq> []"
      using i by (auto simp: t hd_append)
    ultimately show ?thesis using nd by auto
  next
    case 3
    let ?f = "zeros (nat (- n)) @ ?ds"
    have t: "plain_dec s e = [ch CHR ''0''] @ ch CHR ''.'' # ?f"
      using 3 by (simp add: plain_dec_def Let_def n_def js_def)
    have lf: "int (length ?f) = - e" using 3 by (simp add: n_def)
    have "read_plain (plain_dec s e) = Dec False s e"
      using read_plain_digits(1) [of "[ch CHR ''0'']" ?f] lf
      by (simp add: t is_digit_0 str_val_0 str_val_append)
    moreover have "is_digit (hd (plain_dec s e))" "plain_dec s e \<noteq> []"
      by (auto simp: t is_digit_0)
    ultimately show ?thesis using nd by auto
  qed
qed

lemma write_number_Dec:
  "write_number (Dec b s e) =
     (if \<not> number_in_range (Dec b s e) then Inl (NumberOutOfRange (Dec b s e))
      else if s = 0 then Inr (js ''0'')
      else Inr ((if b then js ''-'' else []) @ plain_dec s e))"
proof -
  have "expandExponential (js ''0'') = js ''0''"
    by (rule expand_plain) (simp add: js_def plain_lits)
  then show ?thesis
    using expand_dec_str [of "[]" s e] expand_dec_str [of "js ''-''" s e]
    by (auto simp: write_number_def)
qed

lemma read_plain_sign:
  "\<not> starts_with t (js ''-'') \<Longrightarrow> read_plain t = Dec False m f \<Longrightarrow> read_plain (js ''-'' @ t) = Dec True m f"
  by (simp add: read_plain_def Let_def js_def)

lemma read_write_number:
  assumes "write_number (Dec b s e) = Inr t"
  shows "num_same (read_plain t) (Dec b s e)" and "\<forall>c \<in> set t. plain_cu c" and "t \<noteq> []"
proof -
  have t: "t = (if s = 0 then js ''0'' else (if b then js ''-'' else []) @ plain_dec s e)"
    using assms by (simp add: write_number_Dec split: if_splits)
  obtain m f where r: "read_plain (plain_dec s e) = Dec False m f"
    and nd: "\<not> starts_with (plain_dec s e) (js ''-'')" and f: "f \<le> e" and m: "m = s * 10 ^ nat (e - f)"
    using read_plain_dec by blast
  have "read_plain (js ''0'') = Dec False 0 0"
    using read_plain_digits(2) [of "js ''0''"] by (simp add: js_def is_digit_0 str_val_0) (simp add: str_val_def)
  moreover have "read_plain (js ''-'' @ plain_dec s e) = Dec True m f"
    using nd r by (rule read_plain_sign)
  ultimately show "num_same (read_plain t) (Dec b s e)"
    using f by (simp add: t r m Let_def)
  show "\<forall>c \<in> set t. plain_cu c"
    using plain_plain_dec by (auto simp: t js_def plain_lits)
  show "t \<noteq> []"
    by (auto simp: t plain_dec_def Let_def)
qed

lemma write_number_finite: "write_number n = Inr t \<Longrightarrow> \<exists>b s e. n = Dec b s e"
  by (cases n) (auto simp: write_number_def number_in_range_def)

lemma write_number_inj:
  assumes "write_number n = Inr t" "write_number n' = Inr t" "wf_num n" "wf_num n'"
  shows "(if n = Dec True 0 0 then Dec False 0 0 else n) = (if n' = Dec True 0 0 then Dec False 0 0 else n')"
proof -
  obtain b s e where n: "n = Dec b s e" using assms(1) write_number_finite by blast
  obtain c u f where n': "n' = Dec c u f" using assms(2) write_number_finite by blast
  have same: "num_same (read_plain t) (Dec b s e)" "num_same (read_plain t) (Dec c u f)"
    using assms(1,2) read_write_number(1) by (auto simp: n n')
  have "num_same (Dec b s e) (Dec c u f)"
    using num_same_trans [OF num_same_sym [OF same(1)] same(2)] .
  with assms(3,4) have "s = u \<and> e = f \<and> (s \<noteq> 0 \<longrightarrow> b = c)"
    unfolding n n' by (rule wf_dec_unique)
  with assms(3,4) show ?thesis by (auto simp: n n' split: if_splits)
qed

section \<open>The canonical form determines the value\<close>

text \<open>A code whose words are recognised from the left, closed by a mark no word starts with.\<close>

locale prefix_code =
  fixes enc :: "'a \<Rightarrow> 'b list" and stop :: 'b
  assumes prefix: "enc x @ r = enc y @ r' \<Longrightarrow> x = y \<and> r = r'"
    and head: "\<exists>c r. enc x = c # r \<and> c \<noteq> stop"
begin

lemma concat_prefix:
  "concat (map enc xs) @ stop # r = concat (map enc ys) @ stop # r' \<Longrightarrow> xs = ys \<and> r = r'"
proof (induction xs arbitrary: ys)
  case Nil
  note prem = Nil.prems
  show ?case
  proof (cases ys)
    case Nil
    with prem show ?thesis by simp
  next
    case (Cons y ys')
    with prem head [of y] show ?thesis by auto
  qed
next
  case (Cons x xs)
  show ?case
  proof (cases ys)
    case Nil
    with Cons.prems head [of x] show ?thesis by auto
  next
    case (Cons y ys')
    with Cons.prems have "enc x @ (concat (map enc xs) @ stop # r) = enc y @ (concat (map enc ys') @ stop # r')"
      by simp
    from prefix [OF this] Cons.IH Cons show ?thesis by blast
  qed
qed

end

lemma unat_hex_cu: "d < 16 \<Longrightarrow> unat (hex_cu d) = (if d < 10 then 48 + d else 87 + d)"
  by (simp add: hex_cu_def unat_of_nat del: of_nat_add)

lemma hex_cu_inject: "a < 16 \<Longrightarrow> b < 16 \<Longrightarrow> hex_cu a = hex_cu b \<Longrightarrow> a = b"
  by (drule arg_cong [of _ _ unat]) (simp add: unat_hex_cu split: if_splits)

lemma small_unat: "c < 32 \<Longrightarrow> unat (c :: cu) < 32"
  by (simp add: word_less_nat_alt)

lemma escape_prefix: "escape_cu c @ r = escape_cu d @ r' \<Longrightarrow> c = d \<and> r = r'"
proof -
  assume eq: "escape_cu c @ r = escape_cu d @ r'"
  show ?thesis
  proof (cases "c < 32 \<and> d < 32 \<and> length (escape_cu c) = 6 \<and> length (escape_cu d) = 6")
    case True
    then have c: "escape_cu c = [92, 117, 48, 48, hex_cu (unat c div 16), hex_cu (unat c mod 16)]"
      and d: "escape_cu d = [92, 117, 48, 48, hex_cu (unat d div 16), hex_cu (unat d mod 16)]"
      by (auto simp: escape_cu_def split: if_splits)
    have "unat c div 16 = unat d div 16" "unat c mod 16 = unat d mod 16"
      using eq True small_unat [of c] small_unat [of d]
      by (auto simp: c d dest!: hex_cu_inject [rotated 2])
    then have "unat c = unat d" by (metis mult_div_mod_eq)
    then have "c = d" by (simp only: word_unat_eq_iff)
    with eq c d show ?thesis by auto
  next
    case False
    with eq show ?thesis
      by (auto simp: escape_cu_def split: if_splits)
  qed
qed

lemma escape_head: "\<exists>x r. escape_cu c = x # r \<and> x \<noteq> 34"
  by (auto simp: escape_cu_def)

interpretation esc: prefix_code escape_cu 34
  by unfold_locales (use escape_prefix escape_head in blast)+

lemma escapeString_prefix: "escapeString s @ r = escapeString t @ r' \<Longrightarrow> s = t \<and> r = r'"
  using esc.concat_prefix [of s r t r'] by (simp add: escapeString_def)


text \<open>
  What a value means to the canonical form: keys sorted, undefined properties dropped, one
  zero.
\<close>

fun normal :: "jsval \<Rightarrow> jsval" where
  "normal (JNum n) = JNum (if n = Dec True 0 0 then Dec False 0 0 else n)"
| "normal (JArr vs) = JArr (map normal vs)"
| "normal (JObj fs) = JObj (map (\<lambda>p. (fst p, normal (snd p))) (live_fields fs))"
| "normal v = v"

fun wf_val :: "jsval \<Rightarrow> bool" where
  "wf_val (JNum n) \<longleftrightarrow> wf_num n"
| "wf_val (JArr vs) \<longleftrightarrow> (\<forall>v \<in> set vs. wf_val v)"
| "wf_val (JObj fs) \<longleftrightarrow> distinct (map fst fs) \<and> (\<forall>p \<in> set fs. wf_val (snd p))"
| "wf_val v \<longleftrightarrow> True"

fun head_ok :: "jsval \<Rightarrow> cu \<Rightarrow> bool" where
  "head_ok JNull c \<longleftrightarrow> c = 110"
| "head_ok (JBool b) c \<longleftrightarrow> c = (if b then 116 else 102)"
| "head_ok (JStr s) c \<longleftrightarrow> c = 34"
| "head_ok (JNum n) c \<longleftrightarrow> plain_cu c"
| "head_ok (JArr vs) c \<longleftrightarrow> c = 91"
| "head_ok (JObj fs) c \<longleftrightarrow> c = 123"
| "head_ok v c \<longleftrightarrow> False"

definition delim :: "jstr \<Rightarrow> bool" where
  "delim r \<longleftrightarrow> r = [] \<or> \<not> plain_cu (hd r)"

lemma plain_cu_iff: "plain_cu c \<longleftrightarrow> (48 \<le> c \<and> c \<le> 57) \<or> c = 46 \<or> c = 45"
  by (simp add: plain_cu_def is_digit_def js_eval)

lemma delim_simps [simp]: "delim []" "delim (44 # r)" "delim (93 # r)" "delim (125 # r)"
  by (simp_all add: delim_def plain_cu_iff)

lemma writeCanonical_head:
  "writeCanonical v = Inr s \<Longrightarrow> \<exists>c r. s = c # r \<and> head_ok v c"
proof (cases v)
  case (JNum n)
  assume "writeCanonical v = Inr s"
  with JNum have w: "write_number n = Inr s" by simp
  then obtain b m e where n: "n = Dec b m e" using write_number_finite by blast
  from read_write_number(2,3) [OF w [unfolded n]] obtain c r where "s = c # r" "plain_cu c"
    by (cases s) auto
  with JNum show ?thesis by simp
qed (auto simp: res_simps js_eval escapeString_def)

lemma head_ok_unique:
  "head_ok v c \<Longrightarrow> head_ok w c \<Longrightarrow>
     (case v of JNull \<Rightarrow> w = JNull | JBool b \<Rightarrow> w = JBool b | JStr _ \<Rightarrow> \<exists>t. w = JStr t
      | JNum _ \<Rightarrow> \<exists>n. w = JNum n | JArr _ \<Rightarrow> \<exists>vs. w = JArr vs | JObj _ \<Rightarrow> \<exists>fs. w = JObj fs
      | _ \<Rightarrow> False)"
  by (cases v; cases w) (auto simp: plain_cu_iff split: if_splits)

lemma same_head:
  assumes "writeCanonical v = Inr s" "writeCanonical w = Inr t" "s @ r = t @ r'"
  shows "case v of JNull \<Rightarrow> w = JNull | JBool b \<Rightarrow> w = JBool b | JStr _ \<Rightarrow> \<exists>t. w = JStr t
      | JNum _ \<Rightarrow> \<exists>n. w = JNum n | JArr _ \<Rightarrow> \<exists>vs. w = JArr vs | JObj _ \<Rightarrow> \<exists>fs. w = JObj fs
      | _ \<Rightarrow> False"
proof -
  obtain c u where "s = c # u" "head_ok v c" using writeCanonical_head [OF assms(1)] by blast
  moreover obtain d x where "t = d # x" "head_ok w d" using writeCanonical_head [OF assms(2)] by blast
  ultimately show ?thesis using assms(3) head_ok_unique by auto
qed

lemma head_not_close: "head_ok v c \<Longrightarrow> c \<noteq> 93 \<and> c \<noteq> 44 \<and> c \<noteq> 125 \<and> c \<noteq> 58"
  by (cases v) (auto simp: plain_cu_iff)

text \<open>The items of an array or object after the first, each with its comma.\<close>

definition items :: "jstr list \<Rightarrow> jstr" where
  "items ps = concat (map (\<lambda>p. 44 # p) ps)"

lemma items_simps [simp]: "items [] = []" "items (p # ps) = 44 # p @ items ps"
  by (simp_all add: items_def)

lemma join_items: "join (js '','') (p # ps) = p @ items ps"
proof (induction ps arbitrary: p)
  case Nil
  then show ?case by simp
next
  case (Cons q qs)
  then show ?case by (simp add: js_eval)
qed

text \<open>A write that is determined up to what may follow it.\<close>

definition determined :: "('a \<Rightarrow> canonical_error + jstr) \<Rightarrow> ('a \<Rightarrow> 'b) \<Rightarrow> 'a \<Rightarrow> 'a \<Rightarrow> bool" where
  "determined W N v w \<longleftrightarrow> (\<forall>s t r r'. W v = Inr s \<longrightarrow> W w = Inr t \<longrightarrow> s @ r = t @ r' \<longrightarrow>
     delim r \<longrightarrow> delim r' \<longrightarrow> N v = N w \<and> r = r')"

lemma items_determined:
  assumes "mapE W vs = Inr ps" "mapE W ws = Inr qs"
    and "\<And>v w. v \<in> set vs \<Longrightarrow> w \<in> set ws \<Longrightarrow> determined W N v w"
    and "items ps @ c # r = items qs @ c # r'" and "c = 93 \<or> c = 125"
  shows "map N vs = map N ws \<and> r = r'"
  using assms
proof (induction vs arbitrary: ws ps qs)
  case Nil
  then have "ps = []" by simp
  moreover have "qs = []" using Nil.prems(4,5) \<open>ps = []\<close> by (cases qs) auto
  ultimately show ?case using Nil.prems by (auto dest: mapE_Inr_length)
next
  case (Cons v vs)
  from Cons.prems(1) obtain p ps' where p: "W v = Inr p" "mapE W vs = Inr ps'" "ps = p # ps'"
    by (auto simp: res_simps)
  have "qs \<noteq> []" using Cons.prems(4,5) p(3) by (cases qs) auto
  then obtain w ws' where ws: "ws = w # ws'"
    using Cons.prems(2) by (cases ws) auto
  with Cons.prems(2) obtain q qs' where q: "W w = Inr q" "mapE W ws' = Inr qs'" "qs = q # qs'"
    by (auto simp: res_simps)
  have delims: "delim (items xs @ c # y)" for xs y
    using Cons.prems(5) by (cases xs) auto
  have "p @ (items ps' @ c # r) = q @ (items qs' @ c # r')"
    using Cons.prems(4) p(3) q(3) by simp
  then have "N v = N w \<and> items ps' @ c # r = items qs' @ c # r'"
    using Cons.prems(3) [of v w] p(1) q(1) delims ws by (auto simp: determined_def)
  moreover from this have "map N vs = map N ws' \<and> r = r'"
    using Cons.IH [OF p(2) q(2)] Cons.prems(3,5) ws by auto
  ultimately show ?case using ws by simp
qed

lemma bracketed_determined:
  assumes "mapE W vs = Inr ps" "mapE W ws = Inr qs"
    and det: "\<And>v w. v \<in> set vs \<Longrightarrow> w \<in> set ws \<Longrightarrow> determined W N v w"
    and heads: "\<And>v s. W v = Inr s \<Longrightarrow> \<exists>d t. s = d # t \<and> d \<noteq> c"
    and eq: "join (js '','') ps @ c # r = join (js '','') qs @ c # r'" and c: "c = 93 \<or> c = 125"
  shows "map N vs = map N ws \<and> r = r'"
proof -
  have ne: "\<exists>d t. join (js '','') xs = d # t \<and> d \<noteq> c" if "mapE W us = Inr xs" "us \<noteq> []" for us xs
  proof -
    from that obtain u us' x xs' where "us = u # us'" "W u = Inr x" "xs = x # xs'"
      by (cases us) (auto simp: res_simps)
    with heads [of u x] show ?thesis by (auto simp: join_items)
  qed
  show ?thesis
  proof (cases "vs = [] \<or> ws = []")
    case True
    with ne [OF assms(1)] ne [OF assms(2)] eq assms(1,2) show ?thesis
      by (cases vs; cases ws) (auto simp del: join.simps(2,3))
  next
    case False
    from assms(1) False obtain v vs' p ps' where v: "vs = v # vs'" "W v = Inr p" "ps = p # ps'" "mapE W vs' = Inr ps'"
      by (cases vs) (auto simp: res_simps)
    from assms(2) False obtain w ws' q qs' where w: "ws = w # ws'" "W w = Inr q" "qs = q # qs'" "mapE W ws' = Inr qs'"
      by (cases ws) (auto simp: res_simps)
    have "items ps @ c # r = items qs @ c # r'"
      using eq unfolding v(3) w(3) join_items by simp
    with items_determined [OF assms(1,2) det] c show ?thesis by blast
  qed
qed

lemma plain_token_determined:
  assumes "\<forall>c \<in> set s. plain_cu c" "\<forall>c \<in> set t. plain_cu c" "s @ r = t @ r'" "delim r" "delim r'"
  shows "s = t \<and> r = r'"
proof -
  have tw: "takeWhile plain_cu (u @ x) = u" if "\<forall>c \<in> set u. plain_cu c" "delim x" for u x
    using that by (cases x) (auto simp: delim_def takeWhile_append)
  have "s = t"
    using tw [OF assms(1,4)] tw [OF assms(2,5)] assms(3) by simp
  with assms(3) show ?thesis by simp
qed

lemma write_number_determined:
  assumes "wf_num n" "wf_num m"
  shows "determined write_number (\<lambda>n. if n = Dec True 0 0 then Dec False 0 0 else n) n m"
  unfolding determined_def
proof (intro allI impI)
  fix s t r r'
  assume w: "write_number n = Inr s" "write_number m = Inr t" and eq: "s @ r = t @ r'"
    and d: "delim r" "delim r'"
  have "\<forall>c \<in> set s. plain_cu c" "\<forall>c \<in> set t. plain_cu c"
    using w write_number_finite [OF w(1)] write_number_finite [OF w(2)] read_write_number(2) by auto
  then have st: "s = t \<and> r = r'"
    using eq d by (rule plain_token_determined)
  with w write_number_inj [OF w(1) _ assms] show
    "(if n = Dec True 0 0 then Dec False 0 0 else n) = (if m = Dec True 0 0 then Dec False 0 0 else m) \<and> r = r'"
    by simp
qed

definition write_field :: "jstr \<times> jsval \<Rightarrow> canonical_error + jstr" where
  "write_field p = bindE (writeCanonical (snd p)) (\<lambda>s. Inr (escapeString (fst p) @ js '':'' @ s))"

lemma write_field_head: "write_field p = Inr s \<Longrightarrow> \<exists>r. s = 34 # r"
  by (auto simp: write_field_def res_simps escapeString_def)

lemma write_field_determined:
  assumes "determined writeCanonical normal (snd p) (snd q)"
  shows "determined write_field (\<lambda>p. (fst p, normal (snd p))) p q"
  unfolding determined_def
proof (intro allI impI)
  fix s t r r'
  assume "write_field p = Inr s" "write_field q = Inr t" and eq: "s @ r = t @ r'"
    and d: "delim r" "delim r'"
  then obtain u v where u: "writeCanonical (snd p) = Inr u" "s = escapeString (fst p) @ js '':'' @ u"
    and v: "writeCanonical (snd q) = Inr v" "t = escapeString (fst q) @ js '':'' @ v"
    by (auto simp: write_field_def res_simps)
  have "escapeString (fst p) @ (js '':'' @ u @ r) = escapeString (fst q) @ (js '':'' @ v @ r')"
    using eq u v by simp
  from escapeString_prefix [OF this] have "fst p = fst q" "u @ r = v @ r'" by auto
  with assms u v d show "(fst p, normal (snd p)) = (fst q, normal (snd q)) \<and> r = r'"
    by (auto simp: determined_def)
qed

lemma writeCanonical_determined:
  "wf_val v \<Longrightarrow> wf_val w \<Longrightarrow> determined writeCanonical normal v w"
proof (induction v arbitrary: w rule: writeCanonical.induct)
  case 1
  show ?case
    unfolding determined_def
  proof (intro allI impI)
    fix u t r r'
    assume u: "writeCanonical JNull = Inr u" and t: "writeCanonical w = Inr t" and eq: "u @ r = t @ r'"
    from same_head [OF u t eq] have "w = JNull" by simp
    with u t eq show "normal JNull = normal w \<and> r = r'" by simp
  qed
next
  case (2 b)
  show ?case
    unfolding determined_def
  proof (intro allI impI)
    fix u t r r'
    assume u: "writeCanonical (JBool b) = Inr u" and t: "writeCanonical w = Inr t" and eq: "u @ r = t @ r'"
    from same_head [OF u t eq] have "w = JBool b" by simp
    with u t eq show "normal (JBool b) = normal w \<and> r = r'" by simp
  qed
next
  case (5 vs)
  show ?case
    unfolding determined_def
  proof (intro allI impI)
    fix s t r r'
    assume s: "writeCanonical (JArr vs) = Inr s" and t: "writeCanonical w = Inr t"
      and eq: "s @ r = t @ r'"
    from same_head [OF s t eq] obtain ws where w: "w = JArr ws"
      by auto
    from s obtain ps where ps: "mapE writeCanonical vs = Inr ps" "s = js ''['' @ join (js '','') ps @ js '']''"
      by (auto simp: res_simps)
    from t w obtain qs where qs: "mapE writeCanonical ws = Inr qs" "t = js ''['' @ join (js '','') qs @ js '']''"
      by (auto simp: res_simps)
    have "map normal vs = map normal ws \<and> r = r'"
    proof (rule bracketed_determined [OF ps(1) qs(1), where c = 93])
      show "determined writeCanonical normal x y" if "x \<in> set vs" "y \<in> set ws" for x y
        using that "5.IH" "5.prems" w by auto
      show "\<exists>d t. s = d # t \<and> d \<noteq> 93" if "writeCanonical v = Inr s" for v s
        using writeCanonical_head [OF that] head_not_close by blast
      show "join (js '','') ps @ 93 # r = join (js '','') qs @ 93 # r'"
        using eq ps(2) qs(2) by (simp add: js_eval)
    qed simp
    then show "normal (JArr vs) = normal w \<and> r = r'" by (simp add: w)
  qed
next
  case (6 fs)
  show ?case
    unfolding determined_def
  proof (intro allI impI)
    fix s t r r'
    assume s: "writeCanonical (JObj fs) = Inr s" and t: "writeCanonical w = Inr t"
      and eq: "s @ r = t @ r'"
    from same_head [OF s t eq] obtain gs where w: "w = JObj gs"
      by auto
    from s obtain ps where ps: "mapE write_field (live_fields fs) = Inr ps" "s = js ''{'' @ join (js '','') ps @ js ''}''"
      by (auto simp: res_simps write_field_def [abs_def])
    from t w obtain qs where qs: "mapE write_field (live_fields gs) = Inr qs" "t = js ''{'' @ join (js '','') qs @ js ''}''"
      by (auto simp: res_simps write_field_def [abs_def])
    have "map (\<lambda>p. (fst p, normal (snd p))) (live_fields fs) = map (\<lambda>p. (fst p, normal (snd p))) (live_fields gs) \<and> r = r'"
    proof (rule bracketed_determined [OF ps(1) qs(1), where c = 125])
      show "determined write_field (\<lambda>p. (fst p, normal (snd p))) p q"
        if "p \<in> set (live_fields fs)" "q \<in> set (live_fields gs)" for p q
      proof (rule write_field_determined, rule "6.IH")
        show "p \<in> set (live_fields fs)" by fact
        show "wf_val (snd p)" "wf_val (snd q)"
          using that "6.prems" w set_live_fields [of fs] set_live_fields [of gs] by auto
      qed
      show "\<exists>d t. s = d # t \<and> d \<noteq> 125" if "write_field p = Inr s" for p s
        using write_field_head [OF that] by auto
      show "join (js '','') ps @ 125 # r = join (js '','') qs @ 125 # r'"
        using eq ps(2) qs(2) by (simp add: js_eval)
    qed simp
    then show "normal (JObj fs) = normal w \<and> r = r'" by (simp add: w)
  qed
next
  case (3 s)
  show ?case
    unfolding determined_def
  proof (intro allI impI)
    fix u t r r'
    assume u: "writeCanonical (JStr s) = Inr u" and t: "writeCanonical w = Inr t"
      and eq: "u @ r = t @ r'"
    from same_head [OF u t eq] obtain s' where w: "w = JStr s'"
      by auto
    with u t eq have "escapeString s @ r = escapeString s' @ r'" by simp
    from escapeString_prefix [OF this] w show "normal (JStr s) = normal w \<and> r = r'" by simp
  qed
next
  case (4 n)
  show ?case
    unfolding determined_def
  proof (intro allI impI)
    fix u t r r'
    assume u: "writeCanonical (JNum n) = Inr u" and t: "writeCanonical w = Inr t"
      and eq: "u @ r = t @ r'" and d: "delim r" "delim r'"
    from same_head [OF u t eq] obtain m where w: "w = JNum m"
      by auto
    with write_number_determined [of n m] u t eq d "4.prems"
    show "normal (JNum n) = normal w \<and> r = r'" by (auto simp: determined_def)
  qed
qed (simp_all add: determined_def)

lemma normal_eq_undef [simp]: "normal v = JUndef \<longleftrightarrow> v = JUndef"
  by (cases v) auto

lemma filter_sort_undef:
  "filter (\<lambda>p. snd p \<noteq> JUndef) (live_fields fs) = live_fields fs"
  by (auto simp: live_fields_def)

lemma live_fields_normal:
  "live_fields (map (\<lambda>p. (fst p, normal (snd p))) (live_fields fs)) =
   map (\<lambda>p. (fst p, normal (snd p))) (live_fields fs)"
proof -
  have live: "snd p \<noteq> JUndef" if "p \<in> set (live_fields fs)" for p
    using that by (auto simp: live_fields_def)
  have "filter (\<lambda>p. snd p \<noteq> JUndef) (map (\<lambda>p. (fst p, normal (snd p))) (live_fields fs)) =
        map (\<lambda>p. (fst p, normal (snd p))) (live_fields fs)"
    using live by (auto simp: filter_id_conv)
  moreover have "sorted (map fst (map (\<lambda>p. (fst p, normal (snd p))) (live_fields fs)))"
    by (simp add: live_fields_def comp_def)
  ultimately show ?thesis
    unfolding live_fields_def [of "map _ _"] by (simp only: sort_key_id_if_sorted)
qed

lemma mapE_map: "mapE f (map g xs) = mapE (\<lambda>x. f (g x)) xs"
  by (induction xs) auto

lemma mapE_eq: "(\<And>x. x \<in> set xs \<Longrightarrow> f x = g x) \<Longrightarrow> mapE f xs = mapE g xs"
  by (rule mapE_cong) auto

lemma write_number_zero: "write_number (Dec True 0 0) = write_number (Dec False 0 0)"
proof -
  have "number_in_range (Dec True 0 0)" "number_in_range (Dec False 0 0)"
    by (simp_all add: number_in_range_def num_of_int_def max_safe_integer_def Let_def strip_zeros.simps
        js_eval)
  then show ?thesis by (simp add: write_number_Dec)
qed

lemma writeCanonical_normal: "writeCanonical (normal v) = writeCanonical v"
proof (induction v rule: writeCanonical.induct)
  case (6 fs)
  have "mapE (\<lambda>p. bindE (writeCanonical (normal (snd p))) (\<lambda>s. Inr (escapeString (fst p) @ js '':'' @ s))) (live_fields fs)
     = mapE (\<lambda>p. bindE (writeCanonical (snd p)) (\<lambda>s. Inr (escapeString (fst p) @ js '':'' @ s))) (live_fields fs)"
    using 6 by (intro mapE_eq) simp
  then show ?case
    by (simp add: live_fields_normal mapE_map comp_def)
next
  case (5 vs)
  have "mapE (\<lambda>v. writeCanonical (normal v)) vs = mapE writeCanonical vs"
    using 5 by (intro mapE_eq) simp
  then show ?case by (simp add: mapE_map)
qed (auto simp: write_number_zero)

lemma live_fields_perm:
  assumes "distinct (map fst fs)" "mset fs = mset gs"
  shows "live_fields fs = live_fields gs"
proof -
  have inj: "inj_on fst (set fs)" using assms(1) by (simp add: distinct_map)
  have "mset (filter (\<lambda>p. snd p \<noteq> JUndef) fs) = mset (filter (\<lambda>p. snd p \<noteq> JUndef) gs)"
    using assms(2) by simp
  moreover have "inj_on fst (set (filter (\<lambda>p. snd p \<noteq> JUndef) fs))"
    using inj by (rule inj_on_subset) auto
  ultimately show ?thesis
    unfolding live_fields_def by (intro sort_key_inj_key_eq) simp_all
qed

text \<open>The values the canonical form covers: finite safe numbers and JSON types only.\<close>

fun canonical_ok :: "jsval \<Rightarrow> bool" where
  "canonical_ok (JNum n) \<longleftrightarrow> number_in_range n"
| "canonical_ok (JArr vs) \<longleftrightarrow> (\<forall>v \<in> set vs. canonical_ok v)"
| "canonical_ok (JObj fs) \<longleftrightarrow> (\<forall>p \<in> set fs. snd p \<noteq> JUndef \<longrightarrow> canonical_ok (snd p))"
| "canonical_ok JUndef \<longleftrightarrow> False"
| "canonical_ok (JOther t) \<longleftrightarrow> False"
| "canonical_ok v \<longleftrightarrow> True"

lemma mapE_total: "(\<exists>ys. mapE f xs = Inr ys) \<longleftrightarrow> (\<forall>x \<in> set xs. \<exists>y. f x = Inr y)"
  by (induction xs) (auto simp: res_simps)

lemma bindE_total: "(\<exists>y. bindE m f = Inr y) \<longleftrightarrow> (\<exists>x. m = Inr x \<and> (\<exists>y. f x = Inr y))"
  by (cases m) auto

lemma writeCanonical_total: "(\<exists>s. writeCanonical v = Inr s) \<longleftrightarrow> canonical_ok v"
proof (induction v rule: writeCanonical.induct)
  case (6 fs)
  have live: "p \<in> set (live_fields fs) \<longleftrightarrow> p \<in> set fs \<and> snd p \<noteq> JUndef" for p
    by (auto simp: live_fields_def)
  have "(\<exists>s. writeCanonical (JObj fs) = Inr s) \<longleftrightarrow>
        (\<forall>p \<in> set (live_fields fs). \<exists>s. writeCanonical (snd p) = Inr s)"
    by (simp add: bindE_total mapE_total)
  also have "\<dots> \<longleftrightarrow> (\<forall>p \<in> set (live_fields fs). canonical_ok (snd p))"
    using 6 by blast
  also have "\<dots> \<longleftrightarrow> canonical_ok (JObj fs)"
    by (simp only: canonical_ok.simps live Ball_def imp_conjL)
  finally show ?case .
next
  case (5 vs)
  then show ?case by (simp add: bindE_total mapE_total)
qed (auto simp: write_number_def)

section \<open>Properties\<close>

text \<open>C16: on JavaScript values with distinct keys and shortest-form numbers, the canonical text
  determines the value up to key order, undefined properties and the sign of zero, and those
  differences never change it.\<close>

theorem canonicalJson_determines:
  assumes "wf_val v" "wf_val w" "canonicalJson v = Inr s"
  shows "canonicalJson w = Inr s \<longleftrightarrow> normal v = normal w"
proof
  assume "canonicalJson w = Inr s"
  then show "normal v = normal w"
    using writeCanonical_determined [OF assms(1,2)] assms(3)
    by (auto simp: canonicalJson_def determined_def dest!: spec [of _ "[]"])
next
  assume "normal v = normal w"
  then show "canonicalJson w = Inr s"
    using assms(3) writeCanonical_normal [of v] writeCanonical_normal [of w]
    by (simp add: canonicalJson_def)
qed

lemma eval_canonical_example:
  "canonicalJson (JObj [(js ''b'', JNum (Dec True 0 0)), (js ''a'', JUndef)]) =
   Inr [123, 34, 98, 34, 58, 48, 125]"
  by (simp add: canonicalJson_def live_fields_def js_eval escapeString_def escape_cu_def write_number_def
      number_in_range_def num_of_int_def max_safe_integer_def Let_def strip_zeros.simps)

lemma canonicalJson_determines_witness:
  "canonicalJson (JObj [(js ''b'', JNum (Dec False 0 0))]) = Inr [123, 34, 98, 34, 58, 48, 125]"
  by (subst canonicalJson_determines [OF _ _ eval_canonical_example])
    (simp_all add: live_fields_def js_eval)

text \<open>The canonical text and the content hash do not depend on the order in which an object
  lists its properties.\<close>

theorem contentHash_key_order:
  assumes "distinct (map fst fs)" "mset fs = mset gs"
  shows "contentHash sha (JObj fs) = contentHash sha (JObj gs)"
  using live_fields_perm [OF assms] by (simp add: contentHash_def canonicalJson_def)
lemma contentHash_key_order_witness:
  "contentHash id (JObj [(js ''b'', JNull), (js ''a'', JBool True)]) =
   contentHash id (JObj [(js ''a'', JBool True), (js ''b'', JNull)])"
  by (rule contentHash_key_order) (simp_all add: js_eval)


text \<open>CanonicalJson raises exactly when some live value is a number outside the safe integer
  range (or not finite) or of a type JSON does not have; everything else has a canonical text.\<close>

theorem canonicalJson_total: "(\<exists>s. canonicalJson v = Inr s) \<longleftrightarrow> canonical_ok v"
  by (simp add: canonicalJson_def writeCanonical_total)

text \<open>A number in canonical text is in plain decimal (no exponent), not empty, and reads back as the
  number it was written from.\<close>

theorem canonical_number_plain:
  assumes "canonicalJson (JNum (Dec b s e)) = Inr t"
  shows "num_same (read_plain t) (Dec b s e) \<and> (\<forall>c \<in> set t. plain_cu c) \<and> t \<noteq> []"
  using read_write_number [of b s e t] assms by (simp add: canonicalJson_def)

lemma canonical_number_plain_witness:
  "\<exists>t. canonicalJson (JNum (Dec True 15 (-9))) = Inr t \<and> num_same (read_plain t) (Dec True 15 (-9))"
proof -
  obtain t where "canonicalJson (JNum (Dec True 15 (-9))) = Inr t"
    by (simp add: canonicalJson_def write_number_def
        number_in_range_def num_of_int_def max_safe_integer_def Let_def strip_zeros.simps js_eval)
  from canonical_number_plain [OF this] this show ?thesis by blast
qed

end
