(* ===== verification/Zod.thy ===== *)
theory Zod
  imports JsValue "HOL-Library.Monad_Syntax"
begin

text \<open>
  The schema combinators of zod as \<open>lib/ast/schema.ts\<close>, \<open>lib/http-url.ts\<close> and
  \<open>lib/components.ts\<close> use them, by their documented meaning: a schema takes an unknown value
  and gives the parsed one, or nothing where zod reports issues. \<open>strict_object\<close> refuses
  properties it does not list, a missing property reads as undefined, an optional property
  accepts undefined, and \<open>z.number().int()\<close> accepts safe integers only.

  What zod decides by its own string formats (UUID, ISO date, URL) is not code of the
  repository: it is the record \<open>zenv\<close>, an argument of every schema that uses it. \<open>z_url\<close>
  gives the text zod hands on; \<open>url_pure\<close> is the behaviour of \<open>z.url()\<close> of zod 4 without its
  \<open>normalize\<close> flag: that is the given text without white space around it, and it is accepted
  itself. \<open>parse_url\<close> is \<open>new URL\<close>.
\<close>

type_synonym 'a schema = "jsval \<Rightarrow> 'a option"

text \<open>The fields of a WHATWG URL that the program reads.\<close>

record url =
  protocol :: jstr
  hostname :: jstr
  pathname :: jstr
  search_v :: "jstr option"
  href :: jstr

record zenv =
  z_uuid :: "jstr \<Rightarrow> bool"
  z_iso_date :: "jstr \<Rightarrow> bool"
  z_url :: "jstr \<Rightarrow> jstr option"
  parse_url :: "jstr \<Rightarrow> url option"

definition url_pure :: "zenv \<Rightarrow> bool" where
  "url_pure env \<longleftrightarrow> (\<forall>s t. z_url env s = Some t \<longrightarrow> t = js_trim s \<and> z_url env t = Some t)"

section \<open>Leaf schemas\<close>

definition z_refine :: "('a \<Rightarrow> bool) \<Rightarrow> 'a schema \<Rightarrow> 'a schema" where
  "z_refine P S v = (case S v of None \<Rightarrow> None | Some x \<Rightarrow> if P x then Some x else None)"

fun z_string :: "jstr schema" where
  "z_string (JStr s) = Some s"
| "z_string v = None"

fun z_boolean :: "bool schema" where
  "z_boolean (JBool b) = Some b"
| "z_boolean v = None"

fun z_number :: "jsnum schema" where
  "z_number (JNum n) = (if is_finite n then Some n else None)"
| "z_number v = None"

fun z_int :: "int schema" where
  "z_int (JNum n) = safe_int n"
| "z_int v = None"

definition z_literal :: "string \<Rightarrow> unit schema" where
  "z_literal s v = (if v = JStr (js s) then Some () else None)"

definition z_literal_int :: "int \<Rightarrow> unit schema" where
  "z_literal_int i v = (case v of JNum n \<Rightarrow> if num_same n (num_of_int i) then Some () else None | _ \<Rightarrow> None)"

text \<open>\<open>z.enum\<close>: the names with the constructors they stand for.\<close>

definition z_enum :: "(string \<times> 'a) list \<Rightarrow> 'a schema" where
  "z_enum tbl v = (case v of JStr s \<Rightarrow> map_of (map (\<lambda>p. (js (fst p), snd p)) tbl) s | _ \<Rightarrow> None)"

definition enum_name :: "(string \<times> 'a) list \<Rightarrow> 'a \<Rightarrow> jstr" where
  "enum_name tbl x = (case map_of (map (\<lambda>p. (snd p, fst p)) tbl) x of None \<Rightarrow> [] | Some s \<Rightarrow> js s)"

definition str_min :: "nat \<Rightarrow> jstr schema \<Rightarrow> jstr schema" where
  "str_min n = z_refine (\<lambda>s. n \<le> length s)"

definition str_max :: "nat \<Rightarrow> jstr schema \<Rightarrow> jstr schema" where
  "str_max n = z_refine (\<lambda>s. length s \<le> n)"

definition int_min :: "int \<Rightarrow> int schema \<Rightarrow> int schema" where
  "int_min n = z_refine (\<lambda>i. n \<le> i)"

definition int_max :: "int \<Rightarrow> int schema \<Rightarrow> int schema" where
  "int_max n = z_refine (\<lambda>i. i \<le> n)"

definition num_min :: "jsnum \<Rightarrow> jsnum schema \<Rightarrow> jsnum schema" where
  "num_min n = z_refine (\<lambda>x. num_le n x)"

definition num_max :: "jsnum \<Rightarrow> jsnum schema \<Rightarrow> jsnum schema" where
  "num_max n = z_refine (\<lambda>x. num_le x n)"

section \<open>Composite schemas\<close>

definition z_array :: "'a schema \<Rightarrow> 'a list schema" where
  "z_array S v = (case v of JArr vs \<Rightarrow> mapO S vs | _ \<Rightarrow> None)"

definition list_min :: "nat \<Rightarrow> 'a list schema \<Rightarrow> 'a list schema" where
  "list_min n = z_refine (\<lambda>xs. n \<le> length xs)"

definition list_max :: "nat \<Rightarrow> 'a list schema \<Rightarrow> 'a list schema" where
  "list_max n = z_refine (\<lambda>xs. length xs \<le> n)"

text \<open>\<open>z.record(z.string(), z.unknown())\<close>\<close>

fun z_record :: "fields schema" where
  "z_record (JObj fs) = Some fs"
| "z_record v = None"

definition z_optional :: "'a schema \<Rightarrow> 'a option schema" where
  "z_optional S v = (if v = JUndef then Some None else map_option Some (S v))"

definition z_nullable :: "'a schema \<Rightarrow> 'a option schema" where
  "z_nullable S v = (if v = JNull then Some None else map_option Some (S v))"

definition only_keys :: "string list \<Rightarrow> fields \<Rightarrow> bool" where
  "only_keys ks fs \<longleftrightarrow> list_all (\<lambda>p. fst p \<in> js ` set ks) fs"

definition strict_object :: "string list \<Rightarrow> (fields \<Rightarrow> 'a option) \<Rightarrow> 'a schema" where
  "strict_object ks body v =
     (case v of JObj fs \<Rightarrow> if only_keys ks fs then body fs else None
      | _ \<Rightarrow> None)"

definition req :: "fields \<Rightarrow> string \<Rightarrow> 'a schema \<Rightarrow> 'a option" where
  "req fs k S = S (getp fs (js k))"

definition opt :: "fields \<Rightarrow> string \<Rightarrow> 'a schema \<Rightarrow> 'a option option" where
  "opt fs k S = z_optional S (getp fs (js k))"

text \<open>\<open>z.union\<close>: the first alternative that accepts.\<close>

fun z_union :: "'a schema list \<Rightarrow> 'a schema" where
  "z_union [] v = None"
| "z_union (S # Ss) v = (case S v of Some x \<Rightarrow> Some x | None \<Rightarrow> z_union Ss v)"

section \<open>What a schema accepts\<close>

lemma z_refine_Some: "z_refine P S v = Some x \<longleftrightarrow> S v = Some x \<and> P x"
  by (auto simp: z_refine_def split: option.splits)

lemma z_string_Some: "z_string v = Some s \<longleftrightarrow> v = JStr s"
  by (cases v) auto

lemma z_boolean_Some: "z_boolean v = Some b \<longleftrightarrow> v = JBool b"
  by (cases v) auto

lemma z_number_Some: "z_number v = Some n \<longleftrightarrow> v = JNum n \<and> is_finite n"
  by (cases v) auto

lemma z_record_Some: "z_record v = Some fs \<longleftrightarrow> v = JObj fs"
  by (cases v) auto

lemma z_literal_Some: "z_literal s v = Some u \<longleftrightarrow> v = JStr (js s)"
  by (auto simp: z_literal_def)

lemma z_array_Some: "z_array S v = Some xs \<longleftrightarrow> (\<exists>vs. v = JArr vs \<and> mapO S vs = Some xs)"
  by (auto simp: z_array_def split: jsval.splits)

lemma z_optional_Some:
  "z_optional S v = Some r \<longleftrightarrow>
     (case r of None \<Rightarrow> v = JUndef | Some x \<Rightarrow> v \<noteq> JUndef \<and> S v = Some x)"
  by (auto simp: z_optional_def split: option.splits)

lemma z_nullable_Some:
  "z_nullable S v = Some r \<longleftrightarrow> (case r of None \<Rightarrow> v = JNull | Some x \<Rightarrow> v \<noteq> JNull \<and> S v = Some x)"
  by (auto simp: z_nullable_def split: option.splits)

lemma strict_object_Some:
  "strict_object ks body v = Some x \<longleftrightarrow>
     (\<exists>fs. v = JObj fs \<and> only_keys ks fs \<and> body fs = Some x)"
  by (auto simp: strict_object_def split: jsval.splits)

lemma z_union_Some: "z_union Ss v = Some x \<Longrightarrow> \<exists>S \<in> set Ss. S v = Some x"
  by (induction Ss) (auto split: option.splits)

lemma bind_Some [simp]: "Option.bind m f = Some y \<longleftrightarrow> (\<exists>x. m = Some x \<and> f x = Some y)"
  by (cases m) auto

lemmas z_Some = z_refine_Some z_string_Some z_boolean_Some z_number_Some z_record_Some
  z_literal_Some z_array_Some strict_object_Some str_min_def str_max_def int_min_def int_max_def
  num_min_def num_max_def list_min_def list_max_def req_def

lemma z_int_of_int [simp]: "z_int (JNum (num_of_int i)) = (if \<bar>i\<bar> \<le> max_safe_integer then Some i else None)"
  by simp

lemma z_literal_js [simp]: "z_literal s (JStr (js t)) = (if t = s then Some () else None)"
  by (simp add: z_literal_def)

lemma num_same_refl: "is_finite n \<Longrightarrow> num_same n n"
  by (cases n) (auto simp: Let_def)

lemma z_literal_int_of_int [simp]: "z_literal_int i (JNum (num_of_int i)) = Some ()"
  by (simp add: z_literal_int_def num_same_refl)

text \<open>The integer a number schema reads is the number itself.\<close>

lemma num_same_num_int:
  assumes "num_int n = Some i"
  shows "num_same n (num_of_int i)"
proof -
  obtain b s e where n: "n = Dec b s e" using assms by (cases n) auto
  obtain c t f where m: "num_of_int i = Dec c t f"
    using is_finite_num_of_int [of i] by (cases "num_of_int i") auto
  have v: "scaled k b s e = i * 10 ^ nat (- k)" if "num_int (Dec b s e) = Some i" "k \<le> e" "k \<le> 0"
    for k b s e i
  proof (cases "0 \<le> e")
    case True
    with that(2,3) have "nat (e - k) = nat e + nat (- k)" by linarith
    with True that(1) show ?thesis by (auto simp: power_add)
  next
    case False
    with that have "s mod 10 ^ nat (- e) = 0" and i: "i = (if b then - 1 else 1) * int (s div 10 ^ nat (- e))"
      by (auto split: if_splits)
    then have s: "int s = int (s div 10 ^ nat (- e)) * 10 ^ nat (- e)"
      by (metis mod_0_imp_dvd dvd_div_mult_self of_nat_mult of_nat_numeral of_nat_power)
    have "nat (- k) = nat (- e) + nat (e - k)" using False that(2,3) by linarith
    then show ?thesis using s i by (simp add: power_add)
  qed
  define k where "k = min (min e f) 0"
  have k: "k \<le> e" "k \<le> f" "k \<le> 0" by (auto simp: k_def)
  have "num_int (Dec c t f) = Some i" using num_int_of_int [of i] by (simp add: m)
  with v k assms n show ?thesis
    unfolding m n num_same_common [OF k(1,2)] by metis
qed

lemma num_int_unique:
  assumes "wf_num n" "num_int n = Some i"
  shows "n = num_of_int i \<or> i = 0 \<and> n = Dec True 0 0"
proof -
  obtain b s e where n: "n = Dec b s e" using assms(2) by (cases n) auto
  obtain c t f where m: "num_of_int i = Dec c t f"
    using is_finite_num_of_int [of i] by (cases "num_of_int i") auto
  have "wf_num (Dec c t f)" using wf_num_of_int [of i] by (simp add: m)
  from wf_dec_unique [OF assms(1) [unfolded n] this] num_same_num_int [OF assms(2)]
  have "s = t \<and> e = f \<and> (s \<noteq> 0 \<longrightarrow> b = c)" by (simp add: n m)
  moreover have "num_of_int i = Dec False 0 0 \<and> i = 0" if "t = 0"
  proof -
    have "i = 0" using num_int_of_int [of i] that unfolding m by (auto split: if_splits)
    then show ?thesis by (simp add: num_of_int_def)
  qed
  ultimately show ?thesis
    using assms(1) by (cases "s = 0"; cases b; cases c) (auto simp: n m)
qed

section \<open>The object a parsed value is\<close>

text \<open>
  A parsed value is again a plain object. \<open>optf k g x\<close> is its optional property \<open>k\<close>: absent,
  or present with the value encoded by \<open>g\<close>.
\<close>

definition optf :: "string \<Rightarrow> ('a \<Rightarrow> jsval) \<Rightarrow> 'a option \<Rightarrow> fields" where
  "optf k g x = (case x of None \<Rightarrow> [] | Some y \<Rightarrow> [(js k, g y)])"

definition optv :: "('a \<Rightarrow> jsval) \<Rightarrow> 'a option \<Rightarrow> jsval" where
  "optv g x = (case x of None \<Rightarrow> JUndef | Some y \<Rightarrow> g y)"

lemma optf_simps [simp]: "optf k g None = []" "optf k g (Some y) = [(js k, g y)]"
  by (simp_all add: optf_def)

lemma optv_simps [simp]: "optv g None = JUndef" "optv g (Some y) = g y"
  by (simp_all add: optv_def)

lemma getp_optf_append [simp]:
  "j \<noteq> k \<Longrightarrow> getp (optf k g x @ fs) (js j) = getp fs (js j)"
  "getp fs (js k) = JUndef \<Longrightarrow> getp (optf k g x @ fs) (js k) = optv g x"
  by (cases x; simp)+

lemma getp_optf [simp]: "getp (optf k g x) (js j) = (if j = k then optv g x else JUndef)"
  by (cases x) auto

lemma case_optv [simp]: "(case x of None \<Rightarrow> JUndef | Some y \<Rightarrow> g y) = optv g x"
  by (simp add: optv_def)

lemma list_all_optf [simp]: "list_all P (optf k g x) \<longleftrightarrow> (\<forall>y. x = Some y \<longrightarrow> P (js k, g y))"
  by (cases x) auto

lemma js_mem [simp]: "js s \<in> js ` A \<longleftrightarrow> s \<in> A"
  by (auto dest: js_inject [THEN iffD1])

lemma z_optional_optv:
  "(\<And>y. x = Some y \<Longrightarrow> S (g y) = Some y) \<Longrightarrow> (\<And>y. x = Some y \<Longrightarrow> g y \<noteq> JUndef) \<Longrightarrow>
   z_optional S (optv g x) = Some x"
  by (cases x) (auto simp: z_optional_def)

lemma z_array_map: "(\<And>x. x \<in> set xs \<Longrightarrow> S (g x) = Some x) \<Longrightarrow> z_array S (JArr (map g xs)) = Some xs"
  by (simp add: z_array_def mapO_map)

lemma z_refine_eq: "S v = Some x \<Longrightarrow> z_refine P S v = (if P x then Some x else None)"
  by (simp add: z_refine_def)

section \<open>Recursion through schemas\<close>

lemma z_array_cong_size:
  assumes "\<And>w. size w < size (JObj fs) \<Longrightarrow> f w = g w"
  shows "z_array f (getp fs k) = z_array g (getp fs k)"
  using assms size_getp_arr_less [of fs k]
  by (auto simp: z_array_def split: jsval.split intro!: mapO_cong)

end
