(* ===== verification/HttpUrl.thy ===== *)
theory HttpUrl
  imports Zod
begin

text \<open>
  \<open>lib/http-url.ts\<close> (which links are accepted) and \<open>lib/embed.ts\<close> (which of them become an
  iframe, and with what address). \<open>new URL\<close> and \<open>z.url()\<close> are the fields of \<open>zenv\<close>;
  \<open>toLowerCase\<close> is applied to host names only, which a URL keeps in ASCII. A link that passed
  \<open>safeHttpUrl\<close> parses, and a URL's \<open>href\<close> is ASCII, so neither \<open>new URL\<close> nor
  \<open>encodeURIComponent\<close> throws there; the model's None in those branches is not reached.
\<close>

section \<open>Accepted links\<close>

definition http_protocol :: "zenv \<Rightarrow> jstr \<Rightarrow> bool" where
  "http_protocol env s =
     (case parse_url env s of None \<Rightarrow> False
      | Some u \<Rightarrow> protocol u = js ''http:'' \<or> protocol u = js ''https:'')"

definition httpUrlSchema :: "zenv \<Rightarrow> jstr schema" where
  "httpUrlSchema env v =
     (case v of JStr s \<Rightarrow>
        (case z_url env s of None \<Rightarrow> None | Some t \<Rightarrow> if http_protocol env t then Some t else None)
      | _ \<Rightarrow> None)"

definition safeHttpUrl :: "zenv \<Rightarrow> jsval \<Rightarrow> jstr option" where
  "safeHttpUrl env v = (case v of JStr s \<Rightarrow> httpUrlSchema env (JStr (js_trim s)) | _ \<Rightarrow> None)"

lemma httpUrlSchema_Some:
  "httpUrlSchema env v = Some t \<longleftrightarrow> (\<exists>s. v = JStr s \<and> z_url env s = Some t \<and> http_protocol env t)"
  by (auto simp: httpUrlSchema_def split: jsval.splits option.splits)

lemma httpUrlSchema_pure:
  "url_pure env \<Longrightarrow> httpUrlSchema env v = Some t \<Longrightarrow> \<exists>s. v = JStr s \<and> t = js_trim s \<and> httpUrlSchema env (JStr t) = Some t"
  by (auto simp: httpUrlSchema_Some url_pure_def)

lemma safeHttpUrl_pure:
  "url_pure env \<Longrightarrow> safeHttpUrl env (JStr s) = Some t \<Longrightarrow> t = js_trim s"
  using httpUrlSchema_pure by (fastforce simp: safeHttpUrl_def)

lemma safeHttpUrl_idem:
  "url_pure env \<Longrightarrow> safeHttpUrl env (JStr s) = Some t \<Longrightarrow> safeHttpUrl env (JStr t) = Some t"
  using safeHttpUrl_pure [of env s t] by (simp add: safeHttpUrl_def)

section \<open>encodeURIComponent\<close>

definition uri_unreserved :: "cu \<Rightarrow> bool" where
  "uri_unreserved c \<longleftrightarrow> (48 \<le> c \<and> c \<le> 57) \<or> (65 \<le> c \<and> c \<le> 90) \<or> (97 \<le> c \<and> c \<le> 122) \<or>
     c \<in> set [45, 95, 46, 33, 126, 42, 39, 40, 41]"

definition upper_hex :: "nat \<Rightarrow> cu" where
  "upper_hex d = (if d < 10 then of_nat (48 + d) else of_nat (55 + d))"

definition percent :: "nat \<Rightarrow> jstr" where
  "percent b = [37, upper_hex (b div 16), upper_hex (b mod 16)]"

definition utf8_bytes :: "nat \<Rightarrow> nat list" where
  "utf8_bytes cp =
     (if cp < 128 then [cp]
      else if cp < 2048 then [192 + cp div 64, 128 + cp mod 64]
      else if cp < 65536 then [224 + cp div 4096, 128 + cp div 64 mod 64, 128 + cp mod 64]
      else [240 + cp div 262144, 128 + cp div 4096 mod 64, 128 + cp div 64 mod 64, 128 + cp mod 64])"

fun encodeURIComponent :: "jstr \<Rightarrow> jstr option" where
  "encodeURIComponent [] = Some []"
| "encodeURIComponent (c # s) =
     (if uri_unreserved c then map_option (Cons c) (encodeURIComponent s)
      else if c < 0xD800 \<or> 0xDFFF < c
        then map_option (\<lambda>r. concat (map percent (utf8_bytes (unat c))) @ r) (encodeURIComponent s)
      else (case s of [] \<Rightarrow> None
            | d # t \<Rightarrow>
                if c < 0xDC00 \<and> 0xDC00 \<le> d \<and> d \<le> 0xDFFF
                then map_option (\<lambda>r. concat (map percent (utf8_bytes
                       (65536 + (unat c - 0xD800) * 1024 + (unat d - 0xDC00)))) @ r)
                     (encodeURIComponent t)
                else None))"

text \<open>The characters of an encoded component: none of the URL delimiters among them.\<close>

definition component_cu :: "cu \<Rightarrow> bool" where
  "component_cu c \<longleftrightarrow> uri_unreserved c \<or> c = 37"

lemma upper_hex_component: "d < 16 \<Longrightarrow> component_cu (upper_hex d)"
proof -
  assume d: "d < 16"
  then have "unat (upper_hex d) = (if d < 10 then 48 + d else 55 + d)"
    by (simp add: upper_hex_def unat_of_nat del: of_nat_add)
  with d show ?thesis
    by (auto simp: component_cu_def uri_unreserved_def word_le_nat_alt split: if_splits)
qed

lemma utf8_bytes_less: "cp < 1114112 \<Longrightarrow> b \<in> set (utf8_bytes cp) \<Longrightarrow> b < 256"
  by (auto simp: utf8_bytes_def split: if_splits)

lemma percent_component: "b < 256 \<Longrightarrow> c \<in> set (percent b) \<Longrightarrow> component_cu c"
proof -
  assume "b < 256" "c \<in> set (percent b)"
  moreover from this have "b div 16 < 16" "b mod 16 < 16" by auto
  ultimately show ?thesis
    using upper_hex_component [of "b div 16"] upper_hex_component [of "b mod 16"]
    by (auto simp: percent_def component_cu_def)
qed

lemma utf8_component:
  "cp < 1114112 \<Longrightarrow> x \<in> set (concat (map percent (utf8_bytes cp))) \<Longrightarrow> component_cu x"
  using utf8_bytes_less percent_component by fastforce

lemma encoded_component:
  "encodeURIComponent s = Some r \<Longrightarrow> \<forall>c \<in> set r. component_cu c"
proof (induction s arbitrary: r rule: encodeURIComponent.induct)
  case 1
  then show ?case by simp
next
  case (2 c s)
  have "unat c < 1114112"
    using unsigned_less [of c, where ?'a = nat] by simp
  then have single: "\<forall>x \<in> set (concat (map percent (utf8_bytes (unat c)))). component_cu x"
    using utf8_component by blast
  consider (keep) "uri_unreserved c" | (one) "\<not> uri_unreserved c" "c < 0xD800 \<or> 0xDFFF < c"
    | (pair) "\<not> uri_unreserved c" "\<not> (c < 0xD800 \<or> 0xDFFF < c)" by blast
  then show ?case
  proof cases
    case keep
    with 2 show ?thesis by (auto simp: component_cu_def)
  next
    case one
    with 2 single show ?thesis by auto
  next
    case pair
    with "2.prems" obtain d t q where s: "s = d # t" "c < 0xDC00 \<and> 0xDC00 \<le> d \<and> d \<le> 0xDFFF"
      "encodeURIComponent t = Some q"
      "r = concat (map percent (utf8_bytes (65536 + (unat c - 0xD800) * 1024 + (unat d - 0xDC00)))) @ q"
      by (auto split: list.splits if_splits)
    have "unat c < 0xDC00" "unat d \<le> 0xDFFF"
      using s(2) by (simp_all add: word_less_nat_alt word_le_nat_alt)
    then have "65536 + (unat c - 0xD800) * 1024 + (unat d - 0xDC00) < 1114112" by linarith
    moreover have "\<forall>x \<in> set q. component_cu x"
      using "2.IH"(3) pair s(1-3) by blast
    ultimately show ?thesis
      using utf8_component unfolding s(4) set_append by blast
  qed
qed

section \<open>Embeds\<close>

datatype provider = Youtube | Vimeo | Figma

definition token_cu :: "cu \<Rightarrow> bool" where
  "token_cu c \<longleftrightarrow> (65 \<le> c \<and> c \<le> 90) \<or> (97 \<le> c \<and> c \<le> 122) \<or> (48 \<le> c \<and> c \<le> 57) \<or> c = 95 \<or> c = 45"

definition safeToken :: "jstr \<Rightarrow> bool" where
  "safeToken s \<longleftrightarrow> 6 \<le> length s \<and> length s \<le> 32 \<and> list_all token_cu s"

definition embed_host :: "url \<Rightarrow> jstr" where
  "embed_host u = (let h = map lower_cu (hostname u) in
     if starts_with h (js ''www.'') then drop 4 h else h)"

definition path_parts :: "url \<Rightarrow> jstr list" where
  "path_parts u = filter (\<lambda>p. p \<noteq> []) (split_cu (ch CHR ''/'') (pathname u))"

definition youtube_id :: "url \<Rightarrow> jstr" where
  "youtube_id u =
     (if embed_host u = js ''youtu.be'' then (case path_parts u of [] \<Rightarrow> [] | p # _ \<Rightarrow> p)
      else if embed_host u = js ''youtube.com'' \<or> embed_host u = js ''m.youtube.com'' then
        (case search_v u of Some v \<Rightarrow> v
         | None \<Rightarrow> if starts_with (pathname u) (js ''/embed/'')
                   then hd (split_cu (ch CHR ''/'') (drop 7 (pathname u))) else [])
      else [])"

definition interactiveEmbedUrl :: "zenv \<Rightarrow> provider option \<Rightarrow> jstr \<Rightarrow> jstr option" where
  "interactiveEmbedUrl env provider raw =
     do {
       p \<leftarrow> provider;
       safe \<leftarrow> safeHttpUrl env (JStr raw);
       u \<leftarrow> parse_url env safe;
       (if p = Youtube then
          (if safeToken (youtube_id u)
           then Some (js ''https://www.youtube-nocookie.com/embed/'' @ youtube_id u) else None)
        else if p = Vimeo \<and> (embed_host u = js ''vimeo.com'' \<or> embed_host u = js ''player.vimeo.com'') then
          (let videoId = (if path_parts u = [] then [] else last (path_parts u)) in
           if videoId \<noteq> [] \<and> list_all is_digit videoId
           then Some (js ''https://player.vimeo.com/video/'' @ videoId) else None)
        else if p = Figma \<and> embed_host u = js ''figma.com'' \<and>
            list_ex (\<lambda>prefix. starts_with (pathname u) (js prefix)) [''/design/'', ''/file/'', ''/proto/''] then
          map_option (\<lambda>e. js ''https://www.figma.com/embed?embed_host=anby&url='' @ e)
            (encodeURIComponent (href u))
        else None)
     }"

definition detectEmbedProvider :: "zenv \<Rightarrow> jstr \<Rightarrow> provider option" where
  "detectEmbedProvider env raw =
     do {
       safe \<leftarrow> safeHttpUrl env (JStr raw);
       u \<leftarrow> parse_url env safe;
       (if embed_host u \<in> set (map js [''youtu.be'', ''youtube.com'', ''m.youtube.com'']) then
          (if interactiveEmbedUrl env (Some Youtube) safe \<noteq> None then Some Youtube else None)
        else if embed_host u \<in> set (map js [''vimeo.com'', ''player.vimeo.com'']) then
          (if interactiveEmbedUrl env (Some Vimeo) safe \<noteq> None then Some Vimeo else None)
        else if embed_host u = js ''figma.com'' then
          (if interactiveEmbedUrl env (Some Figma) safe \<noteq> None then Some Figma else None)
        else None)
     }"

text \<open>What an iframe may be pointed at: a fixed origin and path, then characters that end neither.\<close>

definition embed_target_ok :: "provider \<Rightarrow> jstr \<Rightarrow> bool" where
  "embed_target_ok p u \<longleftrightarrow>
     (case p of
        Youtube \<Rightarrow> \<exists>t. u = js ''https://www.youtube-nocookie.com/embed/'' @ t \<and> safeToken t
      | Vimeo \<Rightarrow> \<exists>t. u = js ''https://player.vimeo.com/video/'' @ t \<and> t \<noteq> [] \<and> list_all is_digit t
      | Figma \<Rightarrow> \<exists>t. u = js ''https://www.figma.com/embed?embed_host=anby&url='' @ t \<and> list_all component_cu t)"

definition sample_url :: url where
  "sample_url = \<lparr>protocol = js ''https:'', hostname = js ''youtu.be'', pathname = js ''/dQw4w9Wg'',
     search_v = None, href = js ''https://youtu.be/dQw4w9Wg''\<rparr>"

definition sample_env :: zenv where
  "sample_env = \<lparr>z_uuid = (\<lambda>s. length s = 36), z_iso_date = (\<lambda>s. length s = 10), z_url = (\<lambda>s. Some (js_trim s)),
     parse_url = (\<lambda>s. if s = href sample_url then Some sample_url else None)\<rparr>"

lemma embed_targets:
  assumes "interactiveEmbedUrl env p raw = Some u"
  shows "\<exists>q. p = Some q \<and> embed_target_ok q u"
  using assms encoded_component
  by (cases p)
    (auto simp: interactiveEmbedUrl_def embed_target_ok_def Let_def list_all_iff
          split: if_splits provider.splits)

text \<open>C32: an embed address is always one of the three providers' player pages with an identifier made of
  token characters, digits, or a percent-encoded component, whatever the link in the document says.\<close>

theorem interactiveEmbedUrl_safe:
  assumes "interactiveEmbedUrl env p raw = Some u"
  shows "\<exists>q. p = Some q \<and> embed_target_ok q u"
  using assms by (rule embed_targets)

lemma interactiveEmbedUrl_safe_witness:
  "\<exists>u. interactiveEmbedUrl sample_env (Some Youtube) (js ''https://youtu.be/dQw4w9Wg'') = Some u \<and>
     (\<exists>q. Some Youtube = Some q \<and> embed_target_ok q u)"
proof -
  obtain u where "interactiveEmbedUrl sample_env (Some Youtube) (js ''https://youtu.be/dQw4w9Wg'') = Some u"
    by (simp add: interactiveEmbedUrl_def safeHttpUrl_def httpUrlSchema_def http_protocol_def js_trim_def
        is_js_space_def sample_env_def sample_url_def youtube_id_def embed_host_def lower_cu_def
        path_parts_def safeToken_def token_cu_def js_eval)
  from interactiveEmbedUrl_safe [OF this] this show ?thesis by blast
qed

text \<open>When \<open>detectEmbedProvider\<close> names a provider for a link, that provider's embed address
  exists for it.\<close>

theorem detectEmbedProvider_sound:
  assumes "url_pure env" "detectEmbedProvider env raw = Some p"
  shows "interactiveEmbedUrl env (Some p) raw \<noteq> None"
proof -
  from assms(2) obtain safe u where safe: "safeHttpUrl env (JStr raw) = Some safe"
    and u: "parse_url env safe = Some u"
    by (auto simp: detectEmbedProvider_def)
  have "interactiveEmbedUrl env (Some p) safe \<noteq> None"
    using assms(2) safe u by (auto simp: detectEmbedProvider_def split: if_splits)
  moreover have "interactiveEmbedUrl env (Some p) safe = interactiveEmbedUrl env (Some p) raw"
    using safe safeHttpUrl_idem [OF assms(1) safe] by (simp add: interactiveEmbedUrl_def)
  ultimately show ?thesis by simp
qed

lemma detectEmbedProvider_sound_witness:
  "interactiveEmbedUrl sample_env (Some Youtube) (js '' https://youtu.be/dQw4w9Wg'') \<noteq> None"
proof (rule detectEmbedProvider_sound)
  show "url_pure sample_env" by (simp add: url_pure_def sample_env_def)
  show "detectEmbedProvider sample_env (js '' https://youtu.be/dQw4w9Wg'') = Some Youtube"
    by (simp add: detectEmbedProvider_def interactiveEmbedUrl_def safeHttpUrl_def httpUrlSchema_def
        http_protocol_def js_trim_def is_js_space_def sample_env_def sample_url_def youtube_id_def
        embed_host_def lower_cu_def path_parts_def safeToken_def token_cu_def js_eval)
qed

end
