(* ===== verification/Ast.thy ===== *)
theory Ast
  imports Zod
begin

text \<open>
  The typed document of \<open>lib/ast/schema.ts\<close>: its inline nodes and its thirty blocks, with the
  optional properties as options, and the plain object each one is at run time (\<open>encode_...\<close>,
  the properties in the order of the interface). An interface that narrows its children
  (\<open>BulletListBlock.children: ListItemBlock[]\<close>) is the invariant \<open>valid_block\<close> of
  \<open>AstSchema\<close> here.
\<close>

section \<open>Inline nodes\<close>

datatype mark = Bold | Italic | Underline | Strikethrough | Code

datatype inline_color = Gray | Brown | Red | Orange | Yellow | Green | Blue | Purple | Pink

datatype inline =
    Text jstr "mark list option" "inline_color option" "inline_color option"
  | InlineCode jstr
  | PageReference jstr "jstr option" jstr
  | UnresolvedReference jstr jstr "jstr option"
  | PageAnchorReference jstr jstr jstr
  | ExternalLink jstr jstr
  | EntityReference jstr jstr
  | ClaimReference jstr jstr
  | CitationReference jstr "jstr option"
  | Math jstr
  | Mention jstr jstr
  | DateMention jstr "jstr option" jstr

definition marks :: "(string \<times> mark) list" where
  "marks = [(''bold'', Bold), (''italic'', Italic), (''underline'', Underline),
     (''strikethrough'', Strikethrough), (''code'', Code)]"

definition inline_colors :: "(string \<times> inline_color) list" where
  "inline_colors = [(''gray'', Gray), (''brown'', Brown), (''red'', Red), (''orange'', Orange),
     (''yellow'', Yellow), (''green'', Green), (''blue'', Blue), (''purple'', Purple), (''pink'', Pink)]"

section \<open>Blocks\<close>

datatype preformatted_kind = AsciiDiagram | FixedTable | ProtocolTrace | FormulaText | Plain

datatype callout_kind = Info | Warning | Danger

datatype callout_color = CDefault | CGray | CBrown | COrange | CYellow | CGreen | CBlue | CPurple
  | CPink | CRed

datatype tone = TDefault | TSuccess | TInfo | TWarning | TError

datatype embed_provider = PYoutube | PVimeo | PFigma

type_synonym breadcrumb_item = "jstr option \<times> jstr"

datatype 'b button_action =
    InsertBlocks jstr "'b list"
  | UpdateDatasetRecord jstr "jstr option option" fields
  | Notification jstr "tone option"
  | Webhook jstr fields

datatype block =
    Heading jstr int "bool option" "inline list" "block list option"
  | Paragraph jstr "inline list"
  | BulletList jstr "block list"
  | OrderedList jstr "block list"
  | ListItem jstr "block list"
  | Table jstr "jstr option" "bool option" "bool option" "block list"
  | TableRow jstr "block list"
  | TableCell jstr "block list"
  | CodeBlock jstr jstr "jstr option" "jstr option"
  | Preformatted jstr preformatted_kind jstr "jstr option"
  | Equation jstr jstr "jstr option"
  | Todo jstr bool "inline list" "block list option"
  | Toggle jstr "inline list" "block list option"
  | Breadcrumb jstr "breadcrumb_item list"
  | ColumnList jstr "block list"
  | Column jstr jsnum "block list"
  | Button jstr jstr "jstr option" "block button_action list"
  | Html jstr jstr int "jstr option"
  | Quote jstr "block list"
  | Callout jstr callout_kind "jstr option" "callout_color option" "block list"
  | Component jstr jstr int jstr fields
  | Image jstr jstr jstr "jstr option"
  | Video jstr jstr "jstr option" "jstr option" "jstr option"
  | Audio jstr jstr jstr "jstr option" "jstr option" "jsnum option" "jstr option"
  | File jstr jstr jstr "jstr option"
  | Pdf jstr jstr "jstr option" "int option" int "jstr option"
  | Bookmark jstr jstr jstr "jstr option" "jstr option" "jstr option"
  | LinkPreview jstr jstr jstr "jstr option" "jstr option"
  | Embed jstr jstr "jstr option" "embed_provider option" "jstr option"
  | Divider jstr

type_synonym document = "block list"

definition preformatted_kinds :: "(string \<times> preformatted_kind) list" where
  "preformatted_kinds = [(''ascii_diagram'', AsciiDiagram), (''fixed_table'', FixedTable),
     (''protocol_trace'', ProtocolTrace), (''formula_text'', FormulaText), (''plain'', Plain)]"

definition callout_kinds :: "(string \<times> callout_kind) list" where
  "callout_kinds = [(''info'', Info), (''warning'', Warning), (''danger'', Danger)]"

definition callout_colors :: "(string \<times> callout_color) list" where
  "callout_colors = [(''default'', CDefault), (''gray'', CGray), (''brown'', CBrown),
     (''orange'', COrange), (''yellow'', CYellow), (''green'', CGreen), (''blue'', CBlue),
     (''purple'', CPurple), (''pink'', CPink), (''red'', CRed)]"

definition tones :: "(string \<times> tone) list" where
  "tones = [(''default'', TDefault), (''success'', TSuccess), (''info'', TInfo),
     (''warning'', TWarning), (''error'', TError)]"

definition embed_providers :: "(string \<times> embed_provider) list" where
  "embed_providers = [(''youtube'', PYoutube), (''vimeo'', PVimeo), (''figma'', PFigma)]"

lemma size_button_action [termination_simp]:
  "a \<in> set as \<Longrightarrow> b \<in> set_button_action a \<Longrightarrow> size b < Suc (size_list (size_button_action size) as)"
proof (induction as)
  case Nil
  then show ?case by simp
next
  case (Cons x as)
  have "size b < Suc (size_button_action size a)" if "b \<in> set_button_action a" for a
  proof (cases a)
    case (InsertBlocks i bs)
    with that show ?thesis
      using size_list_estimation' [of b bs "size b" size] by simp
  qed (use that in auto)
  with Cons show ?case by fastforce
qed

lemma size_button_action_le [termination_simp]:
  "a \<in> set as \<Longrightarrow> b \<in> set_button_action a \<Longrightarrow> size b \<le> Suc (size_list (size_button_action size) as)"
  using size_button_action [of a as b] by simp

section \<open>The plain object of a node\<close>

definition text_obj :: "string \<Rightarrow> fields \<Rightarrow> jsval" where
  "text_obj t fs = JObj ((js ''type'', JStr (js t)) # fs)"

definition encode_enum :: "(string \<times> 'a) list \<Rightarrow> 'a \<Rightarrow> jsval" where
  "encode_enum tbl x = JStr (enum_name tbl x)"

fun encode_inline :: "inline \<Rightarrow> jsval" where
  "encode_inline (Text t ms c g) = text_obj ''text'' ((js ''text'', JStr t) #
     optf ''marks'' (\<lambda>ms. JArr (map (encode_enum marks) ms)) ms @
     optf ''text_color'' (encode_enum inline_colors) c @
     optf ''background_color'' (encode_enum inline_colors) g)"
| "encode_inline (InlineCode t) = text_obj ''inline_code'' [(js ''text'', JStr t)]"
| "encode_inline (PageReference p h d) = text_obj ''page_reference'' ((js ''target_page_id'', JStr p) #
     optf ''target_heading_block_id'' JStr h @ [(js ''display_text'', JStr d)])"
| "encode_inline (UnresolvedReference n t e) = text_obj ''page_reference''
     ([(js ''resolution_status'', JStr (js ''unresolved'')), (js ''target_namespace'', JStr n),
       (js ''normalized_title'', JStr t)] @ optf ''expected_entity_type'' JStr e)"
| "encode_inline (PageAnchorReference p h d) = text_obj ''page_anchor_reference''
     [(js ''target_page_id'', JStr p), (js ''target_heading_block_id'', JStr h), (js ''display_text'', JStr d)]"
| "encode_inline (ExternalLink u d) = text_obj ''external_link'' [(js ''url'', JStr u), (js ''display_text'', JStr d)]"
| "encode_inline (EntityReference e d) = text_obj ''entity_reference''
     [(js ''entity_id'', JStr e), (js ''display_text'', JStr d)]"
| "encode_inline (ClaimReference c d) = text_obj ''claim_reference''
     [(js ''claim_id'', JStr c), (js ''display_text'', JStr d)]"
| "encode_inline (CitationReference c d) = text_obj ''citation_reference''
     ((js ''citation_id'', JStr c) # optf ''display_text'' JStr d)"
| "encode_inline (Math e) = text_obj ''math'' [(js ''expression'', JStr e)]"
| "encode_inline (Mention a d) = text_obj ''mention'' [(js ''actor_id'', JStr a), (js ''display_text'', JStr d)]"
| "encode_inline (DateMention a e d) = text_obj ''date_mention'' ((js ''date'', JStr a) #
     optf ''end_date'' JStr e @ [(js ''display_text'', JStr d)])"

fun encode_breadcrumb_item :: "breadcrumb_item \<Rightarrow> jsval" where
  "encode_breadcrumb_item (p, d) = JObj (optf ''target_page_id'' JStr p @ [(js ''display_text'', JStr d)])"

fun encode_entity_id :: "jstr option \<Rightarrow> jsval" where
  "encode_entity_id None = JNull"
| "encode_entity_id (Some i) = JStr i"

fun encode_button_action :: "jsval button_action \<Rightarrow> jsval" where
  "encode_button_action (InsertBlocks p bs) = text_obj ''insert_blocks''
     [(js ''target_page_id'', JStr p), (js ''blocks'', JArr bs)]"
| "encode_button_action (UpdateDatasetRecord r e vs) = text_obj ''update_dataset_record''
     ((js ''record_id'', JStr r) # optf ''entity_id'' encode_entity_id e @ [(js ''values'', JObj vs)])"
| "encode_button_action (Notification m t) = text_obj ''notification''
     ((js ''message'', JStr m) # optf ''tone'' (encode_enum tones) t)"
| "encode_button_action (Webhook u p) = text_obj ''webhook''
     [(js ''url'', JStr u), (js ''payload'', JObj p)]"

definition block_obj :: "jstr \<Rightarrow> string \<Rightarrow> fields \<Rightarrow> jsval" where
  "block_obj i t fs = JObj ((js ''id'', JStr i) # (js ''type'', JStr (js t)) # fs)"

definition encode_int :: "int \<Rightarrow> jsval" where
  "encode_int i = JNum (num_of_int i)"

definition encode_inlines :: "inline list \<Rightarrow> jsval" where
  "encode_inlines c = JArr (map encode_inline c)"

text \<open>One level of a block, its children already encoded.\<close>

fun encode_block :: "block \<Rightarrow> jsval" where
  "encode_block (Heading i l t c k) = block_obj i ''heading'' ((js ''level'', encode_int l) #
     optf ''is_toggleable'' JBool t @ (js ''content'', encode_inlines c) #
     optf ''children'' JArr (map_option (map encode_block) k))"
| "encode_block (Paragraph i c) = block_obj i ''paragraph'' [(js ''content'', encode_inlines c)]"
| "encode_block (BulletList i k) = block_obj i ''bullet_list'' [(js ''children'', JArr (map encode_block k))]"
| "encode_block (OrderedList i k) = block_obj i ''ordered_list'' [(js ''children'', JArr (map encode_block k))]"
| "encode_block (ListItem i k) = block_obj i ''list_item'' [(js ''children'', JArr (map encode_block k))]"
| "encode_block (Table i c h r k) = block_obj i ''table'' (optf ''caption'' JStr c @
     optf ''has_column_header'' JBool h @ optf ''has_row_header'' JBool r @
     [(js ''children'', JArr (map encode_block k))])"
| "encode_block (TableRow i k) = block_obj i ''table_row'' [(js ''children'', JArr (map encode_block k))]"
| "encode_block (TableCell i k) = block_obj i ''table_cell'' [(js ''children'', JArr (map encode_block k))]"
| "encode_block (CodeBlock i c l cap) = block_obj i ''code'' ((js ''content'', JStr c) #
     optf ''language'' JStr l @ optf ''caption'' JStr cap)"
| "encode_block (Preformatted i k c cap) = block_obj i ''preformatted''
     ([(js ''kind'', encode_enum preformatted_kinds k), (js ''content'', JStr c)] @ optf ''caption'' JStr cap)"
| "encode_block (Equation i e cap) = block_obj i ''equation'' ((js ''expression'', JStr e) # optf ''caption'' JStr cap)"
| "encode_block (Todo i d c k) = block_obj i ''todo'' ([(js ''checked'', JBool d), (js ''content'', encode_inlines c)] @
     optf ''children'' JArr (map_option (map encode_block) k))"
| "encode_block (Toggle i c k) = block_obj i ''toggle'' ((js ''content'', encode_inlines c) #
     optf ''children'' JArr (map_option (map encode_block) k))"
| "encode_block (Breadcrumb i its) = block_obj i ''breadcrumb''
     [(js ''items'', JArr (map encode_breadcrumb_item its))]"
| "encode_block (ColumnList i k) = block_obj i ''column_list'' [(js ''children'', JArr (map encode_block k))]"
| "encode_block (Column i w k) = block_obj i ''column''
     [(js ''width_ratio'', JNum w), (js ''children'', JArr (map encode_block k))]"
| "encode_block (Button i l c as) = block_obj i ''button'' ((js ''label'', JStr l) #
     optf ''confirmation'' JStr c @
     [(js ''actions'', JArr (map (\<lambda>a. encode_button_action (map_button_action encode_block a)) as))])"
| "encode_block (Html i h n cap) = block_obj i ''html''
     ([(js ''html'', JStr h), (js ''height'', encode_int n)] @ optf ''caption'' JStr cap)"
| "encode_block (Quote i k) = block_obj i ''quote'' [(js ''children'', JArr (map encode_block k))]"
| "encode_block (Callout i kd ic co k) = block_obj i ''callout'' ((js ''kind'', encode_enum callout_kinds kd) #
     optf ''icon'' JStr ic @ optf ''color'' (encode_enum callout_colors) co @
     [(js ''children'', JArr (map encode_block k))])"
| "encode_block (Component i c v e d) = block_obj i ''component''
     [(js ''component_id'', JStr c), (js ''component_version'', encode_int v), (js ''entity_id'', JStr e),
      (js ''display_config'', JObj d)]"
| "encode_block (Image i a t cap) = block_obj i ''image''
     ([(js ''asset_revision_id'', JStr a), (js ''alt_text'', JStr t)] @ optf ''caption'' JStr cap)"
| "encode_block (Video i a p t cap) = block_obj i ''video'' ((js ''asset_revision_id'', JStr a) #
     optf ''poster_asset_revision_id'' JStr p @ optf ''title'' JStr t @ optf ''caption'' JStr cap)"
| "encode_block (Audio i a t ar al du cap) = block_obj i ''audio''
     ([(js ''asset_revision_id'', JStr a), (js ''title'', JStr t)] @ optf ''artist'' JStr ar @
      optf ''album'' JStr al @ optf ''duration_seconds'' JNum du @ optf ''caption'' JStr cap)"
| "encode_block (File i a n cap) = block_obj i ''file''
     ([(js ''asset_revision_id'', JStr a), (js ''name'', JStr n)] @ optf ''caption'' JStr cap)"
| "encode_block (Pdf i a t s h cap) = block_obj i ''pdf'' ((js ''asset_revision_id'', JStr a) #
     optf ''title'' JStr t @ optf ''start_page'' encode_int s @ (js ''height'', encode_int h) #
     optf ''caption'' JStr cap)"
| "encode_block (Bookmark i u t d s cap) = block_obj i ''bookmark''
     ([(js ''url'', JStr u), (js ''title'', JStr t)] @ optf ''description'' JStr d @
      optf ''site_name'' JStr s @ optf ''caption'' JStr cap)"
| "encode_block (LinkPreview i u t d s) = block_obj i ''link_preview''
     ([(js ''url'', JStr u), (js ''title'', JStr t)] @ optf ''description'' JStr d @ optf ''site_name'' JStr s)"
| "encode_block (Embed i u t p cap) = block_obj i ''embed'' ((js ''url'', JStr u) #
     optf ''title'' JStr t @ optf ''provider'' (encode_enum embed_providers) p @ optf ''caption'' JStr cap)"
| "encode_block (Divider i) = block_obj i ''divider'' []"

definition encode_document :: "document \<Rightarrow> jsval" where
  "encode_document bs = JObj [(js ''type'', JStr (js ''document'')), (js ''schema_version'', encode_int 1),
     (js ''children'', JArr (map encode_block bs))]"

section \<open>What every block has\<close>

fun block_id :: "block \<Rightarrow> jstr" where
  "block_id (Heading i _ _ _ _) = i"
| "block_id (Paragraph i _) = i"
| "block_id (BulletList i _) = i"
| "block_id (OrderedList i _) = i"
| "block_id (ListItem i _) = i"
| "block_id (Table i _ _ _ _) = i"
| "block_id (TableRow i _) = i"
| "block_id (TableCell i _) = i"
| "block_id (CodeBlock i _ _ _) = i"
| "block_id (Preformatted i _ _ _) = i"
| "block_id (Equation i _ _) = i"
| "block_id (Todo i _ _ _) = i"
| "block_id (Toggle i _ _) = i"
| "block_id (Breadcrumb i _) = i"
| "block_id (ColumnList i _) = i"
| "block_id (Column i _ _) = i"
| "block_id (Button i _ _ _) = i"
| "block_id (Html i _ _ _) = i"
| "block_id (Quote i _) = i"
| "block_id (Callout i _ _ _ _) = i"
| "block_id (Component i _ _ _ _) = i"
| "block_id (Image i _ _ _) = i"
| "block_id (Video i _ _ _ _) = i"
| "block_id (Audio i _ _ _ _ _ _) = i"
| "block_id (File i _ _ _) = i"
| "block_id (Pdf i _ _ _ _ _) = i"
| "block_id (Bookmark i _ _ _ _ _) = i"
| "block_id (LinkPreview i _ _ _ _) = i"
| "block_id (Embed i _ _ _ _) = i"
| "block_id (Divider i) = i"

text \<open>\<open>"children" in block ? block.children ?? [] : []\<close>\<close>

fun block_children :: "block \<Rightarrow> block list" where
  "block_children (Heading _ _ _ _ k) = (case k of None \<Rightarrow> [] | Some bs \<Rightarrow> bs)"
| "block_children (BulletList _ k) = k"
| "block_children (OrderedList _ k) = k"
| "block_children (ListItem _ k) = k"
| "block_children (Table _ _ _ _ k) = k"
| "block_children (TableRow _ k) = k"
| "block_children (TableCell _ k) = k"
| "block_children (Todo _ _ _ k) = (case k of None \<Rightarrow> [] | Some bs \<Rightarrow> bs)"
| "block_children (Toggle _ _ k) = (case k of None \<Rightarrow> [] | Some bs \<Rightarrow> bs)"
| "block_children (ColumnList _ k) = k"
| "block_children (Column _ _ k) = k"
| "block_children (Quote _ k) = k"
| "block_children (Callout _ _ _ _ k) = k"
| "block_children _ = []"

lemma size_mem_le: "(c :: block) \<in> set k \<Longrightarrow> size c \<le> size_list size k"
  by (induction k) auto

lemma size_block_children [termination_simp]: "c \<in> set (block_children b) \<Longrightarrow> size c < size b"
  by (cases b) (auto dest: size_mem_le split: option.splits)

text \<open>The blocks of a document, each before its children.\<close>

fun preorder :: "block \<Rightarrow> block list" where
  "preorder b = b # concat (map preorder (block_children b))"

declare preorder.simps [simp del]

definition all_blocks :: "document \<Rightarrow> block list" where
  "all_blocks d = concat (map preorder d)"

end
