(* ===== verification/AstSchema.thy ===== *)
theory AstSchema
  imports Ast HttpUrl Serialize
begin

text \<open>
  \<open>lib/ast/schema.ts\<close>: one definition per schema, in the order of the file, and
  \<open>parseDocument\<close>. A block schema takes the lazily referenced \<open>blockSchema\<close> as its
  argument \<open>rec\<close> where it mentions it; \<open>blockSchema\<close> ties the knot, by recursion on the
  value. Then the invariant of a parsed document and the proofs that parsing establishes it,
  accepts every object of such a document, and changes nothing but key order.
\<close>

section \<open>Inline schemas\<close>

definition idSchema :: "zenv \<Rightarrow> jstr schema" where
  "idSchema env = z_refine (z_uuid env) z_string"

definition isoDate :: "zenv \<Rightarrow> jstr schema" where
  "isoDate env = z_refine (z_iso_date env) z_string"

definition markSchema :: "mark schema" where
  "markSchema = z_enum marks"

definition inlineColorSchema :: "inline_color schema" where
  "inlineColorSchema = z_enum inline_colors"

definition textNodeSchema :: "inline schema" where
  "textNodeSchema = strict_object [''type'', ''text'', ''marks'', ''text_color'', ''background_color'']
     (\<lambda>fs. do {
       req fs ''type'' (z_literal ''text'');
       t \<leftarrow> req fs ''text'' z_string;
       m \<leftarrow> opt fs ''marks'' (z_array markSchema);
       c \<leftarrow> opt fs ''text_color'' inlineColorSchema;
       g \<leftarrow> opt fs ''background_color'' inlineColorSchema;
       Some (Text t m c g) })"

definition inlineCodeNodeSchema :: "inline schema" where
  "inlineCodeNodeSchema = strict_object [''type'', ''text'']
     (\<lambda>fs. do {
       req fs ''type'' (z_literal ''inline_code'');
       t \<leftarrow> req fs ''text'' z_string;
       Some (InlineCode t) })"

definition resolvedPageReferenceSchema :: "zenv \<Rightarrow> inline schema" where
  "resolvedPageReferenceSchema env =
     strict_object [''type'', ''target_page_id'', ''target_heading_block_id'', ''display_text'']
     (\<lambda>fs. do {
       req fs ''type'' (z_literal ''page_reference'');
       p \<leftarrow> req fs ''target_page_id'' (idSchema env);
       h \<leftarrow> opt fs ''target_heading_block_id'' (idSchema env);
       d \<leftarrow> req fs ''display_text'' z_string;
       Some (PageReference p h d) })"

definition unresolvedPageReferenceSchema :: "inline schema" where
  "unresolvedPageReferenceSchema =
     strict_object [''type'', ''resolution_status'', ''target_namespace'', ''normalized_title'',
                    ''expected_entity_type'']
     (\<lambda>fs. do {
       req fs ''type'' (z_literal ''page_reference'');
       req fs ''resolution_status'' (z_literal ''unresolved'');
       n \<leftarrow> req fs ''target_namespace'' z_string;
       t \<leftarrow> req fs ''normalized_title'' z_string;
       e \<leftarrow> opt fs ''expected_entity_type'' z_string;
       Some (UnresolvedReference n t e) })"

definition pageReferenceNodeSchema :: "zenv \<Rightarrow> inline schema" where
  "pageReferenceNodeSchema env = z_union [resolvedPageReferenceSchema env, unresolvedPageReferenceSchema]"

definition pageAnchorReferenceNodeSchema :: "zenv \<Rightarrow> inline schema" where
  "pageAnchorReferenceNodeSchema env =
     strict_object [''type'', ''target_page_id'', ''target_heading_block_id'', ''display_text'']
     (\<lambda>fs. do {
       req fs ''type'' (z_literal ''page_anchor_reference'');
       p \<leftarrow> req fs ''target_page_id'' (idSchema env);
       h \<leftarrow> req fs ''target_heading_block_id'' (idSchema env);
       d \<leftarrow> req fs ''display_text'' z_string;
       Some (PageAnchorReference p h d) })"

definition externalLinkNodeSchema :: "zenv \<Rightarrow> inline schema" where
  "externalLinkNodeSchema env = strict_object [''type'', ''url'', ''display_text'']
     (\<lambda>fs. do {
       req fs ''type'' (z_literal ''external_link'');
       u \<leftarrow> req fs ''url'' (httpUrlSchema env);
       d \<leftarrow> req fs ''display_text'' z_string;
       Some (ExternalLink u d) })"

definition entityReferenceNodeSchema :: "zenv \<Rightarrow> inline schema" where
  "entityReferenceNodeSchema env = strict_object [''type'', ''entity_id'', ''display_text'']
     (\<lambda>fs. do {
       req fs ''type'' (z_literal ''entity_reference'');
       e \<leftarrow> req fs ''entity_id'' (idSchema env);
       d \<leftarrow> req fs ''display_text'' z_string;
       Some (EntityReference e d) })"

definition claimReferenceNodeSchema :: "zenv \<Rightarrow> inline schema" where
  "claimReferenceNodeSchema env = strict_object [''type'', ''claim_id'', ''display_text'']
     (\<lambda>fs. do {
       req fs ''type'' (z_literal ''claim_reference'');
       c \<leftarrow> req fs ''claim_id'' (idSchema env);
       d \<leftarrow> req fs ''display_text'' z_string;
       Some (ClaimReference c d) })"

definition citationReferenceNodeSchema :: "zenv \<Rightarrow> inline schema" where
  "citationReferenceNodeSchema env = strict_object [''type'', ''citation_id'', ''display_text'']
     (\<lambda>fs. do {
       req fs ''type'' (z_literal ''citation_reference'');
       c \<leftarrow> req fs ''citation_id'' (idSchema env);
       d \<leftarrow> opt fs ''display_text'' z_string;
       Some (CitationReference c d) })"

definition mathNodeSchema :: "inline schema" where
  "mathNodeSchema = strict_object [''type'', ''expression'']
     (\<lambda>fs. do {
       req fs ''type'' (z_literal ''math'');
       e \<leftarrow> req fs ''expression'' z_string;
       Some (Math e) })"

definition mentionNodeSchema :: "zenv \<Rightarrow> inline schema" where
  "mentionNodeSchema env = strict_object [''type'', ''actor_id'', ''display_text'']
     (\<lambda>fs. do {
       req fs ''type'' (z_literal ''mention'');
       a \<leftarrow> req fs ''actor_id'' (idSchema env);
       d \<leftarrow> req fs ''display_text'' z_string;
       Some (Mention a d) })"

definition dateMentionNodeSchema :: "zenv \<Rightarrow> inline schema" where
  "dateMentionNodeSchema env = strict_object [''type'', ''date'', ''end_date'', ''display_text'']
     (\<lambda>fs. do {
       req fs ''type'' (z_literal ''date_mention'');
       a \<leftarrow> req fs ''date'' (isoDate env);
       e \<leftarrow> opt fs ''end_date'' (isoDate env);
       d \<leftarrow> req fs ''display_text'' z_string;
       Some (DateMention a e d) })"

definition inlineNodeSchema :: "zenv \<Rightarrow> inline schema" where
  "inlineNodeSchema env = z_union
     [textNodeSchema, inlineCodeNodeSchema, pageReferenceNodeSchema env,
      pageAnchorReferenceNodeSchema env, externalLinkNodeSchema env, entityReferenceNodeSchema env,
      claimReferenceNodeSchema env, citationReferenceNodeSchema env, mathNodeSchema,
      mentionNodeSchema env, dateMentionNodeSchema env]"

section \<open>Block schemas\<close>

definition headingBlockSchema :: "zenv \<Rightarrow> block schema \<Rightarrow> block schema" where
  "headingBlockSchema env rec =
     strict_object [''id'', ''type'', ''level'', ''is_toggleable'', ''content'', ''children'']
     (\<lambda>fs. do {
       i \<leftarrow> req fs ''id'' (idSchema env);
       req fs ''type'' (z_literal ''heading'');
       l \<leftarrow> req fs ''level'' (int_max 6 (int_min 1 z_int));
       t \<leftarrow> opt fs ''is_toggleable'' z_boolean;
       c \<leftarrow> req fs ''content'' (z_array (inlineNodeSchema env));
       k \<leftarrow> opt fs ''children'' (z_array rec);
       (if k \<noteq> None \<and> t \<noteq> Some True then None else Some (Heading i l t c k)) })"

definition paragraphBlockSchema :: "zenv \<Rightarrow> block schema" where
  "paragraphBlockSchema env = strict_object [''id'', ''type'', ''content'']
     (\<lambda>fs. do {
       i \<leftarrow> req fs ''id'' (idSchema env);
       req fs ''type'' (z_literal ''paragraph'');
       c \<leftarrow> req fs ''content'' (z_array (inlineNodeSchema env));
       Some (Paragraph i c) })"

definition listItemBlockSchema :: "zenv \<Rightarrow> block schema \<Rightarrow> block schema" where
  "listItemBlockSchema env rec = strict_object [''id'', ''type'', ''children'']
     (\<lambda>fs. do {
       i \<leftarrow> req fs ''id'' (idSchema env);
       req fs ''type'' (z_literal ''list_item'');
       k \<leftarrow> req fs ''children'' (z_array rec);
       Some (ListItem i k) })"

definition bulletListBlockSchema :: "zenv \<Rightarrow> block schema \<Rightarrow> block schema" where
  "bulletListBlockSchema env rec = strict_object [''id'', ''type'', ''children'']
     (\<lambda>fs. do {
       i \<leftarrow> req fs ''id'' (idSchema env);
       req fs ''type'' (z_literal ''bullet_list'');
       k \<leftarrow> req fs ''children'' (z_array (listItemBlockSchema env rec));
       Some (BulletList i k) })"

definition orderedListBlockSchema :: "zenv \<Rightarrow> block schema \<Rightarrow> block schema" where
  "orderedListBlockSchema env rec = strict_object [''id'', ''type'', ''children'']
     (\<lambda>fs. do {
       i \<leftarrow> req fs ''id'' (idSchema env);
       req fs ''type'' (z_literal ''ordered_list'');
       k \<leftarrow> req fs ''children'' (z_array (listItemBlockSchema env rec));
       Some (OrderedList i k) })"

definition tableCellBlockSchema :: "zenv \<Rightarrow> block schema \<Rightarrow> block schema" where
  "tableCellBlockSchema env rec = strict_object [''id'', ''type'', ''children'']
     (\<lambda>fs. do {
       i \<leftarrow> req fs ''id'' (idSchema env);
       req fs ''type'' (z_literal ''table_cell'');
       k \<leftarrow> req fs ''children'' (z_array rec);
       Some (TableCell i k) })"

definition tableRowBlockSchema :: "zenv \<Rightarrow> block schema \<Rightarrow> block schema" where
  "tableRowBlockSchema env rec = strict_object [''id'', ''type'', ''children'']
     (\<lambda>fs. do {
       i \<leftarrow> req fs ''id'' (idSchema env);
       req fs ''type'' (z_literal ''table_row'');
       k \<leftarrow> req fs ''children'' (z_array (tableCellBlockSchema env rec));
       Some (TableRow i k) })"

definition tableBlockSchema :: "zenv \<Rightarrow> block schema \<Rightarrow> block schema" where
  "tableBlockSchema env rec =
     strict_object [''id'', ''type'', ''caption'', ''has_column_header'', ''has_row_header'', ''children'']
     (\<lambda>fs. do {
       i \<leftarrow> req fs ''id'' (idSchema env);
       req fs ''type'' (z_literal ''table'');
       c \<leftarrow> opt fs ''caption'' z_string;
       h \<leftarrow> opt fs ''has_column_header'' z_boolean;
       r \<leftarrow> opt fs ''has_row_header'' z_boolean;
       k \<leftarrow> req fs ''children'' (z_array (tableRowBlockSchema env rec));
       Some (Table i c h r k) })"

definition codeBlockSchema :: "zenv \<Rightarrow> block schema" where
  "codeBlockSchema env = strict_object [''id'', ''type'', ''content'', ''language'', ''caption'']
     (\<lambda>fs. do {
       i \<leftarrow> req fs ''id'' (idSchema env);
       req fs ''type'' (z_literal ''code'');
       c \<leftarrow> req fs ''content'' z_string;
       l \<leftarrow> opt fs ''language'' z_string;
       cap \<leftarrow> opt fs ''caption'' z_string;
       Some (CodeBlock i c l cap) })"

definition preformattedKindSchema :: "preformatted_kind schema" where
  "preformattedKindSchema = z_enum preformatted_kinds"

definition preformattedBlockSchema :: "zenv \<Rightarrow> block schema" where
  "preformattedBlockSchema env = strict_object [''id'', ''type'', ''kind'', ''content'', ''caption'']
     (\<lambda>fs. do {
       i \<leftarrow> req fs ''id'' (idSchema env);
       req fs ''type'' (z_literal ''preformatted'');
       k \<leftarrow> req fs ''kind'' preformattedKindSchema;
       c \<leftarrow> req fs ''content'' z_string;
       cap \<leftarrow> opt fs ''caption'' z_string;
       Some (Preformatted i k c cap) })"

definition equationBlockSchema :: "zenv \<Rightarrow> block schema" where
  "equationBlockSchema env = strict_object [''id'', ''type'', ''expression'', ''caption'']
     (\<lambda>fs. do {
       i \<leftarrow> req fs ''id'' (idSchema env);
       req fs ''type'' (z_literal ''equation'');
       e \<leftarrow> req fs ''expression'' (str_min 1 z_string);
       cap \<leftarrow> opt fs ''caption'' z_string;
       Some (Equation i e cap) })"

definition todoBlockSchema :: "zenv \<Rightarrow> block schema \<Rightarrow> block schema" where
  "todoBlockSchema env rec = strict_object [''id'', ''type'', ''checked'', ''content'', ''children'']
     (\<lambda>fs. do {
       i \<leftarrow> req fs ''id'' (idSchema env);
       req fs ''type'' (z_literal ''todo'');
       d \<leftarrow> req fs ''checked'' z_boolean;
       c \<leftarrow> req fs ''content'' (z_array (inlineNodeSchema env));
       k \<leftarrow> opt fs ''children'' (z_array rec);
       Some (Todo i d c k) })"

definition toggleBlockSchema :: "zenv \<Rightarrow> block schema \<Rightarrow> block schema" where
  "toggleBlockSchema env rec = strict_object [''id'', ''type'', ''content'', ''children'']
     (\<lambda>fs. do {
       i \<leftarrow> req fs ''id'' (idSchema env);
       req fs ''type'' (z_literal ''toggle'');
       c \<leftarrow> req fs ''content'' (z_array (inlineNodeSchema env));
       k \<leftarrow> opt fs ''children'' (z_array rec);
       Some (Toggle i c k) })"

definition breadcrumbItemSchema :: "zenv \<Rightarrow> breadcrumb_item schema" where
  "breadcrumbItemSchema env = strict_object [''target_page_id'', ''display_text'']
     (\<lambda>fs. do {
       p \<leftarrow> opt fs ''target_page_id'' (idSchema env);
       d \<leftarrow> req fs ''display_text'' (str_max 255 (str_min 1 z_string));
       Some (p, d) })"

definition breadcrumbBlockSchema :: "zenv \<Rightarrow> block schema" where
  "breadcrumbBlockSchema env = strict_object [''id'', ''type'', ''items'']
     (\<lambda>fs. do {
       i \<leftarrow> req fs ''id'' (idSchema env);
       req fs ''type'' (z_literal ''breadcrumb'');
       its \<leftarrow> req fs ''items'' (list_max 32 (list_min 1 (z_array (breadcrumbItemSchema env))));
       Some (Breadcrumb i its) })"

definition columnBlockSchema :: "zenv \<Rightarrow> block schema \<Rightarrow> block schema" where
  "columnBlockSchema env rec = strict_object [''id'', ''type'', ''width_ratio'', ''children'']
     (\<lambda>fs. do {
       i \<leftarrow> req fs ''id'' (idSchema env);
       req fs ''type'' (z_literal ''column'');
       w \<leftarrow> req fs ''width_ratio'' (num_max (Dec False 1 1) (num_min (Dec False 1 (-1)) z_number));
       k \<leftarrow> req fs ''children'' (z_array rec);
       Some (Column i w k) })"

definition columnListBlockSchema :: "zenv \<Rightarrow> block schema \<Rightarrow> block schema" where
  "columnListBlockSchema env rec = strict_object [''id'', ''type'', ''children'']
     (\<lambda>fs. do {
       i \<leftarrow> req fs ''id'' (idSchema env);
       req fs ''type'' (z_literal ''column_list'');
       k \<leftarrow> req fs ''children'' (list_max 5 (list_min 2 (z_array (columnBlockSchema env rec))));
       Some (ColumnList i k) })"

definition buttonInsertBlocksActionSchema :: "zenv \<Rightarrow> block schema \<Rightarrow> block button_action schema" where
  "buttonInsertBlocksActionSchema env rec = strict_object [''type'', ''target_page_id'', ''blocks'']
     (\<lambda>fs. do {
       req fs ''type'' (z_literal ''insert_blocks'');
       p \<leftarrow> req fs ''target_page_id'' (idSchema env);
       bs \<leftarrow> req fs ''blocks'' (list_max 20 (list_min 1 (z_array rec)));
       Some (InsertBlocks p bs) })"

definition buttonUpdateRecordActionSchema :: "zenv \<Rightarrow> block button_action schema" where
  "buttonUpdateRecordActionSchema env = strict_object [''type'', ''record_id'', ''entity_id'', ''values'']
     (\<lambda>fs. do {
       req fs ''type'' (z_literal ''update_dataset_record'');
       r \<leftarrow> req fs ''record_id'' (idSchema env);
       e \<leftarrow> opt fs ''entity_id'' (z_nullable (idSchema env));
       vs \<leftarrow> req fs ''values'' z_record;
       Some (UpdateDatasetRecord r e vs) })"

definition buttonNotificationActionSchema :: "block button_action schema" where
  "buttonNotificationActionSchema = strict_object [''type'', ''message'', ''tone'']
     (\<lambda>fs. do {
       req fs ''type'' (z_literal ''notification'');
       m \<leftarrow> req fs ''message'' (str_max 500 (str_min 1 z_string));
       t \<leftarrow> opt fs ''tone'' (z_enum tones);
       Some (Notification m t) })"

definition buttonWebhookActionSchema :: "zenv \<Rightarrow> block button_action schema" where
  "buttonWebhookActionSchema env = strict_object [''type'', ''url'', ''payload'']
     (\<lambda>fs. do {
       req fs ''type'' (z_literal ''webhook'');
       u \<leftarrow> req fs ''url'' (z_refine (\<lambda>s. starts_with s (js ''https://'')) (httpUrlSchema env));
       p \<leftarrow> req fs ''payload'' z_record;
       Some (Webhook u p) })"

definition buttonActionSchema :: "zenv \<Rightarrow> block schema \<Rightarrow> block button_action schema" where
  "buttonActionSchema env rec = z_union
     [buttonInsertBlocksActionSchema env rec, buttonUpdateRecordActionSchema env,
      buttonNotificationActionSchema, buttonWebhookActionSchema env]"

definition buttonBlockSchema :: "zenv \<Rightarrow> block schema \<Rightarrow> block schema" where
  "buttonBlockSchema env rec = strict_object [''id'', ''type'', ''label'', ''confirmation'', ''actions'']
     (\<lambda>fs. do {
       i \<leftarrow> req fs ''id'' (idSchema env);
       req fs ''type'' (z_literal ''button'');
       l \<leftarrow> req fs ''label'' (str_max 120 (str_min 1 z_string));
       c \<leftarrow> opt fs ''confirmation'' (str_max 500 (str_min 1 z_string));
       as \<leftarrow> req fs ''actions'' (list_max 10 (list_min 1 (z_array (buttonActionSchema env rec))));
       Some (Button i l c as) })"

definition htmlBlockSchema :: "zenv \<Rightarrow> block schema" where
  "htmlBlockSchema env = strict_object [''id'', ''type'', ''html'', ''height'', ''caption'']
     (\<lambda>fs. do {
       i \<leftarrow> req fs ''id'' (idSchema env);
       req fs ''type'' (z_literal ''html'');
       h \<leftarrow> req fs ''html'' (str_max 200000 z_string);
       n \<leftarrow> req fs ''height'' (int_max 1200 (int_min 120 z_int));
       cap \<leftarrow> opt fs ''caption'' (str_max 1000 z_string);
       Some (Html i h n cap) })"

definition quoteBlockSchema :: "zenv \<Rightarrow> block schema \<Rightarrow> block schema" where
  "quoteBlockSchema env rec = strict_object [''id'', ''type'', ''children'']
     (\<lambda>fs. do {
       i \<leftarrow> req fs ''id'' (idSchema env);
       req fs ''type'' (z_literal ''quote'');
       k \<leftarrow> req fs ''children'' (z_array rec);
       Some (Quote i k) })"

definition calloutKindSchema :: "callout_kind schema" where
  "calloutKindSchema = z_enum callout_kinds"

definition calloutColorSchema :: "callout_color schema" where
  "calloutColorSchema = z_enum callout_colors"

definition calloutBlockSchema :: "zenv \<Rightarrow> block schema \<Rightarrow> block schema" where
  "calloutBlockSchema env rec =
     strict_object [''id'', ''type'', ''kind'', ''icon'', ''color'', ''children'']
     (\<lambda>fs. do {
       i \<leftarrow> req fs ''id'' (idSchema env);
       req fs ''type'' (z_literal ''callout'');
       kd \<leftarrow> req fs ''kind'' calloutKindSchema;
       ic \<leftarrow> opt fs ''icon'' (str_max 64 (str_min 1 z_string));
       co \<leftarrow> opt fs ''color'' calloutColorSchema;
       k \<leftarrow> req fs ''children'' (z_array rec);
       Some (Callout i kd ic co k) })"

definition componentBlockSchema :: "zenv \<Rightarrow> block schema" where
  "componentBlockSchema env =
     strict_object [''id'', ''type'', ''component_id'', ''component_version'', ''entity_id'', ''display_config'']
     (\<lambda>fs. do {
       i \<leftarrow> req fs ''id'' (idSchema env);
       req fs ''type'' (z_literal ''component'');
       c \<leftarrow> req fs ''component_id'' (idSchema env);
       v \<leftarrow> req fs ''component_version'' (int_min 1 z_int);
       e \<leftarrow> req fs ''entity_id'' (idSchema env);
       d \<leftarrow> req fs ''display_config'' z_record;
       Some (Component i c v e d) })"

definition imageBlockSchema :: "zenv \<Rightarrow> block schema" where
  "imageBlockSchema env = strict_object [''id'', ''type'', ''asset_revision_id'', ''alt_text'', ''caption'']
     (\<lambda>fs. do {
       i \<leftarrow> req fs ''id'' (idSchema env);
       req fs ''type'' (z_literal ''image'');
       a \<leftarrow> req fs ''asset_revision_id'' (idSchema env);
       t \<leftarrow> req fs ''alt_text'' (str_min 1 z_string);
       cap \<leftarrow> opt fs ''caption'' z_string;
       Some (Image i a t cap) })"

definition videoBlockSchema :: "zenv \<Rightarrow> block schema" where
  "videoBlockSchema env =
     strict_object [''id'', ''type'', ''asset_revision_id'', ''poster_asset_revision_id'', ''title'', ''caption'']
     (\<lambda>fs. do {
       i \<leftarrow> req fs ''id'' (idSchema env);
       req fs ''type'' (z_literal ''video'');
       a \<leftarrow> req fs ''asset_revision_id'' (idSchema env);
       p \<leftarrow> opt fs ''poster_asset_revision_id'' (idSchema env);
       t \<leftarrow> opt fs ''title'' z_string;
       cap \<leftarrow> opt fs ''caption'' z_string;
       Some (Video i a p t cap) })"

definition audioBlockSchema :: "zenv \<Rightarrow> block schema" where
  "audioBlockSchema env =
     strict_object [''id'', ''type'', ''asset_revision_id'', ''title'', ''artist'', ''album'',
                    ''duration_seconds'', ''caption'']
     (\<lambda>fs. do {
       i \<leftarrow> req fs ''id'' (idSchema env);
       req fs ''type'' (z_literal ''audio'');
       a \<leftarrow> req fs ''asset_revision_id'' (idSchema env);
       t \<leftarrow> req fs ''title'' (str_max 500 (str_min 1 z_string));
       ar \<leftarrow> opt fs ''artist'' (str_max 500 z_string);
       al \<leftarrow> opt fs ''album'' (str_max 500 z_string);
       du \<leftarrow> opt fs ''duration_seconds'' (num_min (Dec False 0 0) z_number);
       cap \<leftarrow> opt fs ''caption'' (str_max 1000 z_string);
       Some (Audio i a t ar al du cap) })"

definition fileBlockSchema :: "zenv \<Rightarrow> block schema" where
  "fileBlockSchema env = strict_object [''id'', ''type'', ''asset_revision_id'', ''name'', ''caption'']
     (\<lambda>fs. do {
       i \<leftarrow> req fs ''id'' (idSchema env);
       req fs ''type'' (z_literal ''file'');
       a \<leftarrow> req fs ''asset_revision_id'' (idSchema env);
       n \<leftarrow> req fs ''name'' (str_max 500 (str_min 1 z_string));
       cap \<leftarrow> opt fs ''caption'' (str_max 1000 z_string);
       Some (File i a n cap) })"

definition pdfBlockSchema :: "zenv \<Rightarrow> block schema" where
  "pdfBlockSchema env =
     strict_object [''id'', ''type'', ''asset_revision_id'', ''title'', ''start_page'', ''height'', ''caption'']
     (\<lambda>fs. do {
       i \<leftarrow> req fs ''id'' (idSchema env);
       req fs ''type'' (z_literal ''pdf'');
       a \<leftarrow> req fs ''asset_revision_id'' (idSchema env);
       t \<leftarrow> opt fs ''title'' (str_max 500 z_string);
       s \<leftarrow> opt fs ''start_page'' (int_min 1 z_int);
       h \<leftarrow> req fs ''height'' (int_max 1200 (int_min 320 z_int));
       cap \<leftarrow> opt fs ''caption'' (str_max 1000 z_string);
       Some (Pdf i a t s h cap) })"

definition bookmarkBlockSchema :: "zenv \<Rightarrow> block schema" where
  "bookmarkBlockSchema env =
     strict_object [''id'', ''type'', ''url'', ''title'', ''description'', ''site_name'', ''caption'']
     (\<lambda>fs. do {
       i \<leftarrow> req fs ''id'' (idSchema env);
       req fs ''type'' (z_literal ''bookmark'');
       u \<leftarrow> req fs ''url'' (httpUrlSchema env);
       t \<leftarrow> req fs ''title'' (str_max 500 (str_min 1 z_string));
       d \<leftarrow> opt fs ''description'' (str_max 1000 z_string);
       s \<leftarrow> opt fs ''site_name'' (str_max 255 z_string);
       cap \<leftarrow> opt fs ''caption'' (str_max 1000 z_string);
       Some (Bookmark i u t d s cap) })"

definition linkPreviewBlockSchema :: "zenv \<Rightarrow> block schema" where
  "linkPreviewBlockSchema env =
     strict_object [''id'', ''type'', ''url'', ''title'', ''description'', ''site_name'']
     (\<lambda>fs. do {
       i \<leftarrow> req fs ''id'' (idSchema env);
       req fs ''type'' (z_literal ''link_preview'');
       u \<leftarrow> req fs ''url'' (httpUrlSchema env);
       t \<leftarrow> req fs ''title'' (str_max 500 (str_min 1 z_string));
       d \<leftarrow> opt fs ''description'' (str_max 1000 z_string);
       s \<leftarrow> opt fs ''site_name'' (str_max 255 z_string);
       Some (LinkPreview i u t d s) })"

definition embedBlockSchema :: "zenv \<Rightarrow> block schema" where
  "embedBlockSchema env =
     strict_object [''id'', ''type'', ''url'', ''title'', ''provider'', ''caption'']
     (\<lambda>fs. do {
       i \<leftarrow> req fs ''id'' (idSchema env);
       req fs ''type'' (z_literal ''embed'');
       u \<leftarrow> req fs ''url'' (httpUrlSchema env);
       t \<leftarrow> opt fs ''title'' z_string;
       p \<leftarrow> opt fs ''provider'' (z_enum embed_providers);
       cap \<leftarrow> opt fs ''caption'' (str_max 1000 z_string);
       Some (Embed i u t p cap) })"

definition dividerBlockSchema :: "zenv \<Rightarrow> block schema" where
  "dividerBlockSchema env = strict_object [''id'', ''type'']
     (\<lambda>fs. do {
       i \<leftarrow> req fs ''id'' (idSchema env);
       req fs ''type'' (z_literal ''divider'');
       Some (Divider i) })"

definition block_union :: "zenv \<Rightarrow> block schema \<Rightarrow> block schema" where
  "block_union env rec = z_union
     [headingBlockSchema env rec, paragraphBlockSchema env, bulletListBlockSchema env rec,
      orderedListBlockSchema env rec, listItemBlockSchema env rec, tableBlockSchema env rec,
      tableRowBlockSchema env rec, tableCellBlockSchema env rec, codeBlockSchema env,
      preformattedBlockSchema env, equationBlockSchema env, todoBlockSchema env rec,
      toggleBlockSchema env rec, breadcrumbBlockSchema env, columnListBlockSchema env rec,
      columnBlockSchema env rec, buttonBlockSchema env rec, htmlBlockSchema env,
      quoteBlockSchema env rec, calloutBlockSchema env rec, componentBlockSchema env,
      imageBlockSchema env, videoBlockSchema env, audioBlockSchema env, fileBlockSchema env,
      pdfBlockSchema env, bookmarkBlockSchema env, linkPreviewBlockSchema env, embedBlockSchema env,
      dividerBlockSchema env]"

lemmas block_schema_defs = headingBlockSchema_def paragraphBlockSchema_def bulletListBlockSchema_def
  orderedListBlockSchema_def listItemBlockSchema_def tableBlockSchema_def tableRowBlockSchema_def
  tableCellBlockSchema_def codeBlockSchema_def preformattedBlockSchema_def equationBlockSchema_def
  todoBlockSchema_def toggleBlockSchema_def breadcrumbBlockSchema_def columnListBlockSchema_def
  columnBlockSchema_def buttonBlockSchema_def htmlBlockSchema_def quoteBlockSchema_def
  calloutBlockSchema_def componentBlockSchema_def imageBlockSchema_def videoBlockSchema_def
  audioBlockSchema_def fileBlockSchema_def pdfBlockSchema_def bookmarkBlockSchema_def
  linkPreviewBlockSchema_def embedBlockSchema_def dividerBlockSchema_def


section \<open>The recursive schema\<close>

text \<open>A schema looks only at the parts of its value, so it calls \<open>blockSchema\<close> on smaller values.\<close>

definition agree :: "jsval \<Rightarrow> block schema \<Rightarrow> block schema \<Rightarrow> bool" where
  "agree v f g \<longleftrightarrow> (\<forall>w. size w < size v \<longrightarrow> f w = g w)"

definition local_schema :: "(block schema \<Rightarrow> 'a schema) \<Rightarrow> bool" where
  "local_schema S \<longleftrightarrow> (\<forall>f g v. agree v f g \<longrightarrow> S f v = S g v)"

lemma local_schemaD: "local_schema S \<Longrightarrow> agree v f g \<Longrightarrow> S f v = S g v"
  unfolding local_schema_def by blast

lemma local_const [simp]: "local_schema (\<lambda>f. S)"
  by (simp add: local_schema_def)

lemma local_union_Nil: "local_schema (\<lambda>f. z_union [])"
  by (simp add: local_schema_def)

lemma local_union_Cons:
  "local_schema S \<Longrightarrow> local_schema (\<lambda>f. z_union (Ss f)) \<Longrightarrow> local_schema (\<lambda>f. z_union (S f # Ss f))"
  unfolding local_schema_def by (metis (no_types, lifting) z_union.simps(2))

lemma local_strict_object:
  assumes "\<And>fs f g. agree (JObj fs) f g \<Longrightarrow> body f fs = body g fs"
  shows "local_schema (\<lambda>f. strict_object ks (body f))"
  unfolding local_schema_def
proof (intro allI impI)
  fix f g v assume "agree v f g"
  with assms show "strict_object ks (body f) v = strict_object ks (body g) v"
    by (cases v) (simp_all add: strict_object_def)
qed

lemma local_array_cong:
  assumes "local_schema S" "agree (JObj fs) f g"
  shows "z_array (S f) (getp fs k) = z_array (S g) (getp fs k)"
proof (rule z_array_cong_size)
  fix w :: jsval assume "size w < size (JObj fs)"
  with assms(2) have "agree w f g" by (simp add: agree_def)
  with assms(1) show "S f w = S g w" by (rule local_schemaD)
qed

lemma local_req: "local_schema S \<Longrightarrow> agree (JObj fs) f g \<Longrightarrow> req fs k (z_array (S f)) = req fs k (z_array (S g))"
  by (simp only: req_def local_array_cong [of S])

lemma local_opt: "local_schema S \<Longrightarrow> agree (JObj fs) f g \<Longrightarrow> opt fs k (z_array (S f)) = opt fs k (z_array (S g))"
  by (simp only: opt_def z_optional_def local_array_cong [of S])

lemma local_req_between:
  "local_schema S \<Longrightarrow> agree (JObj fs) f g \<Longrightarrow>
   req fs k (list_max m (list_min n (z_array (S f)))) = req fs k (list_max m (list_min n (z_array (S g))))"
  by (simp only: req_def list_max_def list_min_def z_refine_def local_array_cong [of S])

lemma children_cong:
  assumes "agree (JObj fs) f g"
  shows "req fs k (z_array f) = req fs k (z_array g)" "opt fs k (z_array f) = opt fs k (z_array g)"
    "req fs k (list_max m (list_min n (z_array f))) = req fs k (list_max m (list_min n (z_array g)))"
proof -
  have id: "z_array f (getp fs k) = z_array g (getp fs k)" for k
    using assms by (auto intro: z_array_cong_size simp: agree_def)
  show "req fs k (z_array f) = req fs k (z_array g)" "opt fs k (z_array f) = opt fs k (z_array g)"
    "req fs k (list_max m (list_min n (z_array f))) = req fs k (list_max m (list_min n (z_array g)))"
    by (simp_all only: req_def opt_def z_optional_def list_max_def list_min_def z_refine_def id)
qed

lemma local_list_item: "local_schema (listItemBlockSchema env)"
  unfolding listItemBlockSchema_def
  by (rule local_strict_object) (simp only: children_cong)

lemma local_table_cell: "local_schema (tableCellBlockSchema env)"
  unfolding tableCellBlockSchema_def
  by (rule local_strict_object) (simp only: children_cong)

lemma local_column: "local_schema (columnBlockSchema env)"
  unfolding columnBlockSchema_def
  by (rule local_strict_object) (simp only: children_cong)

lemma local_table_row: "local_schema (tableRowBlockSchema env)"
  unfolding tableRowBlockSchema_def
  by (rule local_strict_object) (simp only: local_req [OF local_table_cell])

lemma local_button_action: "local_schema (buttonActionSchema env)"
  unfolding buttonActionSchema_def buttonInsertBlocksActionSchema_def
  by (intro local_union_Nil local_union_Cons local_const, rule local_strict_object)
    (simp only: children_cong)

lemma local_block_union: "local_schema (block_union env)"
  unfolding block_union_def headingBlockSchema_def bulletListBlockSchema_def orderedListBlockSchema_def
    tableBlockSchema_def todoBlockSchema_def toggleBlockSchema_def columnListBlockSchema_def
    buttonBlockSchema_def quoteBlockSchema_def calloutBlockSchema_def
  by (intro local_union_Nil local_union_Cons local_const local_strict_object local_list_item
      local_table_cell local_column local_table_row)
    (simp_all only: children_cong local_req [OF local_list_item] local_req [OF local_table_row]
      local_req_between [OF local_column] local_req_between [OF local_button_action])

lemma block_union_cong [fundef_cong]:
  "v = v' \<Longrightarrow> (\<And>w. size w < size v' \<Longrightarrow> f w = g w) \<Longrightarrow> block_union env f v = block_union env g v'"
  using local_schemaD [OF local_block_union, of v' f g env] by (simp add: agree_def)

function blockSchema :: "zenv \<Rightarrow> block schema" where
  "blockSchema env v = block_union env (\<lambda>w. blockSchema env w) v"
  by pat_completeness auto
termination by (relation "measure (\<lambda>(env, v). size v)") auto

declare blockSchema.simps [simp del]

definition documentSchema :: "zenv \<Rightarrow> document schema" where
  "documentSchema env = strict_object [''type'', ''schema_version'', ''children'']
     (\<lambda>fs. do {
       req fs ''type'' (z_literal ''document'');
       req fs ''schema_version'' (z_literal_int 1);
       req fs ''children'' (z_array (blockSchema env)) })"

definition parseDocument :: "zenv \<Rightarrow> jsval \<Rightarrow> document option" where
  "parseDocument env v = documentSchema env v"

section \<open>The invariant of a parsed document\<close>

definition valid_url :: "zenv \<Rightarrow> jstr \<Rightarrow> bool" where
  "valid_url env u \<longleftrightarrow> z_url env u = Some u \<and> http_protocol env u"

fun valid_inline :: "zenv \<Rightarrow> inline \<Rightarrow> bool" where
  "valid_inline env (PageReference p h d) \<longleftrightarrow> z_uuid env p \<and> pred_option (z_uuid env) h"
| "valid_inline env (PageAnchorReference p h d) \<longleftrightarrow> z_uuid env p \<and> z_uuid env h"
| "valid_inline env (ExternalLink u d) \<longleftrightarrow> valid_url env u"
| "valid_inline env (EntityReference e d) \<longleftrightarrow> z_uuid env e"
| "valid_inline env (ClaimReference c d) \<longleftrightarrow> z_uuid env c"
| "valid_inline env (CitationReference c d) \<longleftrightarrow> z_uuid env c"
| "valid_inline env (Mention a d) \<longleftrightarrow> z_uuid env a"
| "valid_inline env (DateMention a e d) \<longleftrightarrow> z_iso_date env a \<and> pred_option (z_iso_date env) e"
| "valid_inline env _ \<longleftrightarrow> True"

definition len_in :: "nat \<Rightarrow> nat \<Rightarrow> 'a list \<Rightarrow> bool" where
  "len_in m n s \<longleftrightarrow> m \<le> length s \<and> length s \<le> n"

definition int_in :: "int \<Rightarrow> int \<Rightarrow> int \<Rightarrow> bool" where
  "int_in m n i \<longleftrightarrow> m \<le> i \<and> i \<le> n"

fun valid_action :: "zenv \<Rightarrow> bool button_action \<Rightarrow> bool" where
  "valid_action env (InsertBlocks p bs) \<longleftrightarrow> z_uuid env p \<and> len_in 1 20 bs \<and> list_all (\<lambda>b. b) bs"
| "valid_action env (UpdateDatasetRecord r e vs) \<longleftrightarrow> z_uuid env r \<and> pred_option (pred_option (z_uuid env)) e"
| "valid_action env (Notification m t) \<longleftrightarrow> len_in 1 500 m"
| "valid_action env (Webhook u p) \<longleftrightarrow> valid_url env u \<and> starts_with u (js ''https://'')"

text \<open>\<open>kind_of\<close> is \<open>block.type\<close>.\<close>

fun kind_of :: "block \<Rightarrow> string" where
  "kind_of (Heading _ _ _ _ _) = ''heading''"
| "kind_of (Paragraph _ _) = ''paragraph''"
| "kind_of (BulletList _ _) = ''bullet_list''"
| "kind_of (OrderedList _ _) = ''ordered_list''"
| "kind_of (ListItem _ _) = ''list_item''"
| "kind_of (Table _ _ _ _ _) = ''table''"
| "kind_of (TableRow _ _) = ''table_row''"
| "kind_of (TableCell _ _) = ''table_cell''"
| "kind_of (CodeBlock _ _ _ _) = ''code''"
| "kind_of (Preformatted _ _ _ _) = ''preformatted''"
| "kind_of (Equation _ _ _) = ''equation''"
| "kind_of (Todo _ _ _ _) = ''todo''"
| "kind_of (Toggle _ _ _) = ''toggle''"
| "kind_of (Breadcrumb _ _) = ''breadcrumb''"
| "kind_of (ColumnList _ _) = ''column_list''"
| "kind_of (Column _ _ _) = ''column''"
| "kind_of (Button _ _ _ _) = ''button''"
| "kind_of (Html _ _ _ _) = ''html''"
| "kind_of (Quote _ _) = ''quote''"
| "kind_of (Callout _ _ _ _ _) = ''callout''"
| "kind_of (Component _ _ _ _ _) = ''component''"
| "kind_of (Image _ _ _ _) = ''image''"
| "kind_of (Video _ _ _ _ _) = ''video''"
| "kind_of (Audio _ _ _ _ _ _ _) = ''audio''"
| "kind_of (File _ _ _ _) = ''file''"
| "kind_of (Pdf _ _ _ _ _ _) = ''pdf''"
| "kind_of (Bookmark _ _ _ _ _ _) = ''bookmark''"
| "kind_of (LinkPreview _ _ _ _ _) = ''link_preview''"
| "kind_of (Embed _ _ _ _ _) = ''embed''"
| "kind_of (Divider _) = ''divider''"

fun valid_block :: "zenv \<Rightarrow> block \<Rightarrow> bool" where
  "valid_block env (Heading i l t c k) \<longleftrightarrow> z_uuid env i \<and> int_in 1 6 l \<and> list_all (valid_inline env) c \<and>
     (k \<noteq> None \<longrightarrow> t = Some True) \<and> pred_option (list_all (valid_block env)) k"
| "valid_block env (Paragraph i c) \<longleftrightarrow> z_uuid env i \<and> list_all (valid_inline env) c"
| "valid_block env (BulletList i k) \<longleftrightarrow> z_uuid env i \<and> list_all (valid_block env) k \<and>
     list_all (\<lambda>c. kind_of c = ''list_item'') k"
| "valid_block env (OrderedList i k) \<longleftrightarrow> z_uuid env i \<and> list_all (valid_block env) k \<and>
     list_all (\<lambda>c. kind_of c = ''list_item'') k"
| "valid_block env (ListItem i k) \<longleftrightarrow> z_uuid env i \<and> list_all (valid_block env) k"
| "valid_block env (Table i c h r k) \<longleftrightarrow> z_uuid env i \<and> list_all (valid_block env) k \<and>
     list_all (\<lambda>c. kind_of c = ''table_row'') k"
| "valid_block env (TableRow i k) \<longleftrightarrow> z_uuid env i \<and> list_all (valid_block env) k \<and>
     list_all (\<lambda>c. kind_of c = ''table_cell'') k"
| "valid_block env (TableCell i k) \<longleftrightarrow> z_uuid env i \<and> list_all (valid_block env) k"
| "valid_block env (CodeBlock i c l cap) \<longleftrightarrow> z_uuid env i"
| "valid_block env (Preformatted i k c cap) \<longleftrightarrow> z_uuid env i"
| "valid_block env (Equation i e cap) \<longleftrightarrow> z_uuid env i \<and> 1 \<le> length e"
| "valid_block env (Todo i d c k) \<longleftrightarrow> z_uuid env i \<and> list_all (valid_inline env) c \<and>
     pred_option (list_all (valid_block env)) k"
| "valid_block env (Toggle i c k) \<longleftrightarrow> z_uuid env i \<and> list_all (valid_inline env) c \<and>
     pred_option (list_all (valid_block env)) k"
| "valid_block env (Breadcrumb i its) \<longleftrightarrow> z_uuid env i \<and> len_in 1 32 its \<and>
     list_all (\<lambda>p. pred_option (z_uuid env) (fst p) \<and> len_in 1 255 (snd p)) its"
| "valid_block env (ColumnList i k) \<longleftrightarrow> z_uuid env i \<and> len_in 2 5 k \<and> list_all (valid_block env) k \<and>
     list_all (\<lambda>c. kind_of c = ''column'') k"
| "valid_block env (Column i w k) \<longleftrightarrow> z_uuid env i \<and> is_finite w \<and> num_le (Dec False 1 (-1)) w \<and>
     num_le w (Dec False 1 1) \<and> list_all (valid_block env) k"
| "valid_block env (Button i l c as) \<longleftrightarrow> z_uuid env i \<and> len_in 1 120 l \<and> pred_option (len_in 1 500) c \<and>
     len_in 1 10 as \<and> list_all (\<lambda>a. valid_action env (map_button_action (valid_block env) a)) as"
| "valid_block env (Html i h n cap) \<longleftrightarrow> z_uuid env i \<and> length h \<le> 200000 \<and> int_in 120 1200 n \<and>
     pred_option (len_in 0 1000) cap"
| "valid_block env (Quote i k) \<longleftrightarrow> z_uuid env i \<and> list_all (valid_block env) k"
| "valid_block env (Callout i kd ic co k) \<longleftrightarrow> z_uuid env i \<and> pred_option (len_in 1 64) ic \<and>
     list_all (valid_block env) k"
| "valid_block env (Component i c v e d) \<longleftrightarrow> z_uuid env i \<and> z_uuid env c \<and> int_in 1 max_safe_integer v \<and>
     z_uuid env e"
| "valid_block env (Image i a t cap) \<longleftrightarrow> z_uuid env i \<and> z_uuid env a \<and> 1 \<le> length t"
| "valid_block env (Video i a p t cap) \<longleftrightarrow> z_uuid env i \<and> z_uuid env a \<and> pred_option (z_uuid env) p"
| "valid_block env (Audio i a t ar al du cap) \<longleftrightarrow> z_uuid env i \<and> z_uuid env a \<and> len_in 1 500 t \<and>
     pred_option (len_in 0 500) ar \<and> pred_option (len_in 0 500) al \<and>
     pred_option (\<lambda>n. is_finite n \<and> num_le (Dec False 0 0) n) du \<and> pred_option (len_in 0 1000) cap"
| "valid_block env (File i a n cap) \<longleftrightarrow> z_uuid env i \<and> z_uuid env a \<and> len_in 1 500 n \<and>
     pred_option (len_in 0 1000) cap"
| "valid_block env (Pdf i a t s h cap) \<longleftrightarrow> z_uuid env i \<and> z_uuid env a \<and> pred_option (len_in 0 500) t \<and>
     pred_option (int_in 1 max_safe_integer) s \<and> int_in 320 1200 h \<and> pred_option (len_in 0 1000) cap"
| "valid_block env (Bookmark i u t d s cap) \<longleftrightarrow> z_uuid env i \<and> valid_url env u \<and> len_in 1 500 t \<and>
     pred_option (len_in 0 1000) d \<and> pred_option (len_in 0 255) s \<and> pred_option (len_in 0 1000) cap"
| "valid_block env (LinkPreview i u t d s) \<longleftrightarrow> z_uuid env i \<and> valid_url env u \<and> len_in 1 500 t \<and>
     pred_option (len_in 0 1000) d \<and> pred_option (len_in 0 255) s"
| "valid_block env (Embed i u t p cap) \<longleftrightarrow> z_uuid env i \<and> valid_url env u \<and> pred_option (len_in 0 1000) cap"
| "valid_block env (Divider i) \<longleftrightarrow> z_uuid env i"

definition valid_document :: "zenv \<Rightarrow> document \<Rightarrow> bool" where
  "valid_document env bs \<longleftrightarrow> list_all (valid_block env) bs"

section \<open>The type decides the schema\<close>

text \<open>\<open>value.type\<close>\<close>

definition tag :: "jsval \<Rightarrow> jsval" where
  "tag v = (case v of JObj fs \<Rightarrow> getp fs (js ''type'') | _ \<Rightarrow> JUndef)"

lemma tag_simps [simp]: "tag (JObj fs) = getp fs (js ''type'')"
  by (simp add: tag_def)

lemma tag_strict_object:
  assumes "tag v \<noteq> JStr (js t)"
    and "\<And>fs. getp fs (js ''type'') \<noteq> JStr (js t) \<Longrightarrow> body fs = None"
  shows "strict_object ks body v = None"
  using assms by (cases v) (simp_all add: strict_object_def)

lemma req_literal_None: "getp fs (js k) \<noteq> JStr (js t) \<Longrightarrow> req fs k (z_literal t) = None"
  by (simp add: req_def z_literal_def)

lemma tag_None:
  "tag v \<noteq> JStr (js ''heading'') \<Longrightarrow> headingBlockSchema env rec v = None"
  "tag v \<noteq> JStr (js ''paragraph'') \<Longrightarrow> paragraphBlockSchema env v = None"
  "tag v \<noteq> JStr (js ''bullet_list'') \<Longrightarrow> bulletListBlockSchema env rec v = None"
  "tag v \<noteq> JStr (js ''ordered_list'') \<Longrightarrow> orderedListBlockSchema env rec v = None"
  "tag v \<noteq> JStr (js ''list_item'') \<Longrightarrow> listItemBlockSchema env rec v = None"
  "tag v \<noteq> JStr (js ''table'') \<Longrightarrow> tableBlockSchema env rec v = None"
  "tag v \<noteq> JStr (js ''table_row'') \<Longrightarrow> tableRowBlockSchema env rec v = None"
  "tag v \<noteq> JStr (js ''table_cell'') \<Longrightarrow> tableCellBlockSchema env rec v = None"
  "tag v \<noteq> JStr (js ''code'') \<Longrightarrow> codeBlockSchema env v = None"
  "tag v \<noteq> JStr (js ''preformatted'') \<Longrightarrow> preformattedBlockSchema env v = None"
  "tag v \<noteq> JStr (js ''equation'') \<Longrightarrow> equationBlockSchema env v = None"
  "tag v \<noteq> JStr (js ''todo'') \<Longrightarrow> todoBlockSchema env rec v = None"
  "tag v \<noteq> JStr (js ''toggle'') \<Longrightarrow> toggleBlockSchema env rec v = None"
  "tag v \<noteq> JStr (js ''breadcrumb'') \<Longrightarrow> breadcrumbBlockSchema env v = None"
  "tag v \<noteq> JStr (js ''column_list'') \<Longrightarrow> columnListBlockSchema env rec v = None"
  "tag v \<noteq> JStr (js ''column'') \<Longrightarrow> columnBlockSchema env rec v = None"
  "tag v \<noteq> JStr (js ''button'') \<Longrightarrow> buttonBlockSchema env rec v = None"
  "tag v \<noteq> JStr (js ''html'') \<Longrightarrow> htmlBlockSchema env v = None"
  "tag v \<noteq> JStr (js ''quote'') \<Longrightarrow> quoteBlockSchema env rec v = None"
  "tag v \<noteq> JStr (js ''callout'') \<Longrightarrow> calloutBlockSchema env rec v = None"
  "tag v \<noteq> JStr (js ''component'') \<Longrightarrow> componentBlockSchema env v = None"
  "tag v \<noteq> JStr (js ''image'') \<Longrightarrow> imageBlockSchema env v = None"
  "tag v \<noteq> JStr (js ''video'') \<Longrightarrow> videoBlockSchema env v = None"
  "tag v \<noteq> JStr (js ''audio'') \<Longrightarrow> audioBlockSchema env v = None"
  "tag v \<noteq> JStr (js ''file'') \<Longrightarrow> fileBlockSchema env v = None"
  "tag v \<noteq> JStr (js ''pdf'') \<Longrightarrow> pdfBlockSchema env v = None"
  "tag v \<noteq> JStr (js ''bookmark'') \<Longrightarrow> bookmarkBlockSchema env v = None"
  "tag v \<noteq> JStr (js ''link_preview'') \<Longrightarrow> linkPreviewBlockSchema env v = None"
  "tag v \<noteq> JStr (js ''embed'') \<Longrightarrow> embedBlockSchema env v = None"
  "tag v \<noteq> JStr (js ''divider'') \<Longrightarrow> dividerBlockSchema env v = None"
  unfolding block_schema_defs
  by (erule tag_strict_object, simp add: req_literal_None)+

text \<open>A value with the type of a schema is decided by that schema alone.\<close>

lemma case_option_id [simp]: "(case m of None \<Rightarrow> None | Some x \<Rightarrow> Some x) = m"
  by (cases m) auto

lemma tag_union:
  "tag v = JStr (js ''heading'') \<Longrightarrow> block_union env rec v = headingBlockSchema env rec v"
  "tag v = JStr (js ''paragraph'') \<Longrightarrow> block_union env rec v = paragraphBlockSchema env v"
  "tag v = JStr (js ''bullet_list'') \<Longrightarrow> block_union env rec v = bulletListBlockSchema env rec v"
  "tag v = JStr (js ''ordered_list'') \<Longrightarrow> block_union env rec v = orderedListBlockSchema env rec v"
  "tag v = JStr (js ''list_item'') \<Longrightarrow> block_union env rec v = listItemBlockSchema env rec v"
  "tag v = JStr (js ''table'') \<Longrightarrow> block_union env rec v = tableBlockSchema env rec v"
  "tag v = JStr (js ''table_row'') \<Longrightarrow> block_union env rec v = tableRowBlockSchema env rec v"
  "tag v = JStr (js ''table_cell'') \<Longrightarrow> block_union env rec v = tableCellBlockSchema env rec v"
  "tag v = JStr (js ''code'') \<Longrightarrow> block_union env rec v = codeBlockSchema env v"
  "tag v = JStr (js ''preformatted'') \<Longrightarrow> block_union env rec v = preformattedBlockSchema env v"
  "tag v = JStr (js ''equation'') \<Longrightarrow> block_union env rec v = equationBlockSchema env v"
  "tag v = JStr (js ''todo'') \<Longrightarrow> block_union env rec v = todoBlockSchema env rec v"
  "tag v = JStr (js ''toggle'') \<Longrightarrow> block_union env rec v = toggleBlockSchema env rec v"
  "tag v = JStr (js ''breadcrumb'') \<Longrightarrow> block_union env rec v = breadcrumbBlockSchema env v"
  "tag v = JStr (js ''column_list'') \<Longrightarrow> block_union env rec v = columnListBlockSchema env rec v"
  "tag v = JStr (js ''column'') \<Longrightarrow> block_union env rec v = columnBlockSchema env rec v"
  "tag v = JStr (js ''button'') \<Longrightarrow> block_union env rec v = buttonBlockSchema env rec v"
  "tag v = JStr (js ''html'') \<Longrightarrow> block_union env rec v = htmlBlockSchema env v"
  "tag v = JStr (js ''quote'') \<Longrightarrow> block_union env rec v = quoteBlockSchema env rec v"
  "tag v = JStr (js ''callout'') \<Longrightarrow> block_union env rec v = calloutBlockSchema env rec v"
  "tag v = JStr (js ''component'') \<Longrightarrow> block_union env rec v = componentBlockSchema env v"
  "tag v = JStr (js ''image'') \<Longrightarrow> block_union env rec v = imageBlockSchema env v"
  "tag v = JStr (js ''video'') \<Longrightarrow> block_union env rec v = videoBlockSchema env v"
  "tag v = JStr (js ''audio'') \<Longrightarrow> block_union env rec v = audioBlockSchema env v"
  "tag v = JStr (js ''file'') \<Longrightarrow> block_union env rec v = fileBlockSchema env v"
  "tag v = JStr (js ''pdf'') \<Longrightarrow> block_union env rec v = pdfBlockSchema env v"
  "tag v = JStr (js ''bookmark'') \<Longrightarrow> block_union env rec v = bookmarkBlockSchema env v"
  "tag v = JStr (js ''link_preview'') \<Longrightarrow> block_union env rec v = linkPreviewBlockSchema env v"
  "tag v = JStr (js ''embed'') \<Longrightarrow> block_union env rec v = embedBlockSchema env v"
  "tag v = JStr (js ''divider'') \<Longrightarrow> block_union env rec v = dividerBlockSchema env v"
  by (simp_all add: block_union_def tag_None cong: option.case_cong)

lemma tag_encode_block: "tag (encode_block b) = JStr (js (kind_of b))"
  by (cases b) (simp_all add: block_obj_def)

section \<open>The object of a valid document is accepted as it is\<close>

named_theorems schema_eval \<open>evaluation of a schema on the object of a node\<close>

lemma pred_option_iff [schema_eval]: "pred_option P x \<longleftrightarrow> (\<forall>y. x = Some y \<longrightarrow> P y)"
  by (cases x) auto

lemma strict_object_obj [schema_eval]:
  "strict_object ks body (JObj fs) = (if list_all (\<lambda>p. fst p \<in> js ` set ks) fs then body fs else None)"
  by (simp add: strict_object_def only_keys_def)

declare req_def [schema_eval] opt_def [schema_eval] z_optional_optv [schema_eval] text_obj_def [schema_eval]
  block_obj_def [schema_eval] z_refine_def [schema_eval]
  str_min_def [schema_eval] str_max_def [schema_eval] int_min_def [schema_eval] int_max_def [schema_eval]
  num_min_def [schema_eval] num_max_def [schema_eval] list_min_def [schema_eval] list_max_def [schema_eval]
  len_in_def [schema_eval] int_in_def [schema_eval] encode_int_def [schema_eval]
  isoDate_def [schema_eval]

lemma enum_complete [schema_eval]:
  "z_enum marks (encode_enum marks m) = Some m"
  "z_enum inline_colors (encode_enum inline_colors c) = Some c"
  "z_enum preformatted_kinds (encode_enum preformatted_kinds pk) = Some pk"
  "z_enum callout_kinds (encode_enum callout_kinds ck) = Some ck"
  "z_enum callout_colors (encode_enum callout_colors cc) = Some cc"
  "z_enum tones (encode_enum tones t) = Some t"
  "z_enum embed_providers (encode_enum embed_providers p) = Some p"
  by (cases m, simp_all add: z_enum_def encode_enum_def enum_name_def marks_def)
    (cases c, simp_all add: z_enum_def encode_enum_def enum_name_def inline_colors_def,
     cases pk, simp_all add: z_enum_def encode_enum_def enum_name_def preformatted_kinds_def,
     cases ck, simp_all add: z_enum_def encode_enum_def enum_name_def callout_kinds_def,
     cases cc, simp_all add: z_enum_def encode_enum_def enum_name_def callout_colors_def,
     cases t, simp_all add: z_enum_def encode_enum_def enum_name_def tones_def,
     cases p, simp_all add: z_enum_def encode_enum_def enum_name_def embed_providers_def)

lemma encode_enum_JUndef [simp]: "encode_enum tbl x \<noteq> JUndef"
  by (simp add: encode_enum_def)

lemmas enum_schema_defs = markSchema_def inlineColorSchema_def preformattedKindSchema_def
  calloutKindSchema_def calloutColorSchema_def

declare enum_schema_defs [schema_eval]

lemma idSchema_JStr [schema_eval]: "idSchema env (JStr s) = (if z_uuid env s then Some s else None)"
  by (simp add: idSchema_def z_refine_def)

lemma httpUrlSchema_JStr [schema_eval]: "valid_url env u \<Longrightarrow> httpUrlSchema env (JStr u) = Some u"
  by (simp add: httpUrlSchema_def valid_url_def)

lemma z_array_encode [schema_eval]:
  "list_all (\<lambda>x. S (g x) = Some x) xs \<Longrightarrow> z_array S (JArr (map g xs)) = Some xs"
  by (rule z_array_map) (simp add: list_all_iff)

lemma list_all_True [schema_eval]: "list_all (\<lambda>x. True) xs"
  by (simp add: list_all_iff)

lemmas inline_schema_defs = textNodeSchema_def inlineCodeNodeSchema_def pageReferenceNodeSchema_def
  resolvedPageReferenceSchema_def unresolvedPageReferenceSchema_def pageAnchorReferenceNodeSchema_def
  externalLinkNodeSchema_def entityReferenceNodeSchema_def claimReferenceNodeSchema_def
  citationReferenceNodeSchema_def mathNodeSchema_def mentionNodeSchema_def dateMentionNodeSchema_def

lemma inline_complete:
  "valid_inline env n \<Longrightarrow> inlineNodeSchema env (encode_inline n) = Some n"
  by (cases n) (simp_all add: inlineNodeSchema_def inline_schema_defs schema_eval)

definition complete_at :: "zenv \<Rightarrow> block \<Rightarrow> bool" where
  "complete_at env b \<longleftrightarrow> valid_block env b \<longrightarrow> blockSchema env (encode_block b) = Some b"

lemma complete_list:
  "\<forall>b \<in> set k. complete_at env b \<Longrightarrow> list_all (valid_block env) k \<Longrightarrow>
   list_all (\<lambda>b. blockSchema env (encode_block b) = Some b) k"
  by (auto simp: complete_at_def list_all_iff)

lemmas outer_schema_defs = headingBlockSchema_def paragraphBlockSchema_def bulletListBlockSchema_def
  orderedListBlockSchema_def tableBlockSchema_def codeBlockSchema_def preformattedBlockSchema_def
  equationBlockSchema_def todoBlockSchema_def toggleBlockSchema_def breadcrumbBlockSchema_def
  columnListBlockSchema_def buttonBlockSchema_def htmlBlockSchema_def quoteBlockSchema_def
  calloutBlockSchema_def componentBlockSchema_def imageBlockSchema_def videoBlockSchema_def
  audioBlockSchema_def fileBlockSchema_def pdfBlockSchema_def bookmarkBlockSchema_def
  linkPreviewBlockSchema_def embedBlockSchema_def dividerBlockSchema_def

lemma if_None_Some: "(if c then None else Some y) = Some x \<longleftrightarrow> \<not> c \<and> y = x"
  by simp

text \<open>A parsed block has the type its value names.\<close>

lemma member_kind:
  "listItemBlockSchema env rec v = Some b \<Longrightarrow> kind_of b = ''list_item'' \<and> tag v = JStr (js ''list_item'')"
  "tableRowBlockSchema env rec v = Some b \<Longrightarrow> kind_of b = ''table_row'' \<and> tag v = JStr (js ''table_row'')"
  "tableCellBlockSchema env rec v = Some b \<Longrightarrow> kind_of b = ''table_cell'' \<and> tag v = JStr (js ''table_cell'')"
  "columnBlockSchema env rec v = Some b \<Longrightarrow> kind_of b = ''column'' \<and> tag v = JStr (js ''column'')"
  by (auto simp: listItemBlockSchema_def tableRowBlockSchema_def tableCellBlockSchema_def
      columnBlockSchema_def strict_object_Some req_def z_literal_Some)

lemma outer_kind:
  "headingBlockSchema env rec v = Some b \<Longrightarrow> kind_of b = ''heading'' \<and> tag v = JStr (js ''heading'')"
  "paragraphBlockSchema env v = Some b \<Longrightarrow> kind_of b = ''paragraph'' \<and> tag v = JStr (js ''paragraph'')"
  "bulletListBlockSchema env rec v = Some b \<Longrightarrow> kind_of b = ''bullet_list'' \<and> tag v = JStr (js ''bullet_list'')"
  "orderedListBlockSchema env rec v = Some b \<Longrightarrow> kind_of b = ''ordered_list'' \<and> tag v = JStr (js ''ordered_list'')"
  "tableBlockSchema env rec v = Some b \<Longrightarrow> kind_of b = ''table'' \<and> tag v = JStr (js ''table'')"
  "codeBlockSchema env v = Some b \<Longrightarrow> kind_of b = ''code'' \<and> tag v = JStr (js ''code'')"
  "preformattedBlockSchema env v = Some b \<Longrightarrow> kind_of b = ''preformatted'' \<and> tag v = JStr (js ''preformatted'')"
  "equationBlockSchema env v = Some b \<Longrightarrow> kind_of b = ''equation'' \<and> tag v = JStr (js ''equation'')"
  "todoBlockSchema env rec v = Some b \<Longrightarrow> kind_of b = ''todo'' \<and> tag v = JStr (js ''todo'')"
  "toggleBlockSchema env rec v = Some b \<Longrightarrow> kind_of b = ''toggle'' \<and> tag v = JStr (js ''toggle'')"
  "breadcrumbBlockSchema env v = Some b \<Longrightarrow> kind_of b = ''breadcrumb'' \<and> tag v = JStr (js ''breadcrumb'')"
  "columnListBlockSchema env rec v = Some b \<Longrightarrow> kind_of b = ''column_list'' \<and> tag v = JStr (js ''column_list'')"
  "buttonBlockSchema env rec v = Some b \<Longrightarrow> kind_of b = ''button'' \<and> tag v = JStr (js ''button'')"
  "htmlBlockSchema env v = Some b \<Longrightarrow> kind_of b = ''html'' \<and> tag v = JStr (js ''html'')"
  "quoteBlockSchema env rec v = Some b \<Longrightarrow> kind_of b = ''quote'' \<and> tag v = JStr (js ''quote'')"
  "calloutBlockSchema env rec v = Some b \<Longrightarrow> kind_of b = ''callout'' \<and> tag v = JStr (js ''callout'')"
  "componentBlockSchema env v = Some b \<Longrightarrow> kind_of b = ''component'' \<and> tag v = JStr (js ''component'')"
  "imageBlockSchema env v = Some b \<Longrightarrow> kind_of b = ''image'' \<and> tag v = JStr (js ''image'')"
  "videoBlockSchema env v = Some b \<Longrightarrow> kind_of b = ''video'' \<and> tag v = JStr (js ''video'')"
  "audioBlockSchema env v = Some b \<Longrightarrow> kind_of b = ''audio'' \<and> tag v = JStr (js ''audio'')"
  "fileBlockSchema env v = Some b \<Longrightarrow> kind_of b = ''file'' \<and> tag v = JStr (js ''file'')"
  "pdfBlockSchema env v = Some b \<Longrightarrow> kind_of b = ''pdf'' \<and> tag v = JStr (js ''pdf'')"
  "bookmarkBlockSchema env v = Some b \<Longrightarrow> kind_of b = ''bookmark'' \<and> tag v = JStr (js ''bookmark'')"
  "linkPreviewBlockSchema env v = Some b \<Longrightarrow> kind_of b = ''link_preview'' \<and> tag v = JStr (js ''link_preview'')"
  "embedBlockSchema env v = Some b \<Longrightarrow> kind_of b = ''embed'' \<and> tag v = JStr (js ''embed'')"
  "dividerBlockSchema env v = Some b \<Longrightarrow> kind_of b = ''divider'' \<and> tag v = JStr (js ''divider'')"
  unfolding outer_schema_defs
  by (clarsimp simp: strict_object_Some req_def z_literal_Some if_None_Some)+

lemma block_union_kind: "block_union env rec v = Some b \<Longrightarrow> tag v = JStr (js (kind_of b))"
  unfolding block_union_def
  by (drule z_union_Some, elim bexE, simp only: list.set insert_iff empty_iff simp_thms, elim disjE)
    (hypsubst, drule member_kind outer_kind, simp)+

lemma blockSchema_nested:
  assumes "blockSchema env v = Some b"
  shows "kind_of b = ''list_item'' \<Longrightarrow> listItemBlockSchema env (blockSchema env) v = Some b"
    "kind_of b = ''table_row'' \<Longrightarrow> tableRowBlockSchema env (blockSchema env) v = Some b"
    "kind_of b = ''table_cell'' \<Longrightarrow> tableCellBlockSchema env (blockSchema env) v = Some b"
    "kind_of b = ''column'' \<Longrightarrow> columnBlockSchema env (blockSchema env) v = Some b"
proof -
  have union: "block_union env (blockSchema env) v = Some b"
    using assms by (simp add: blockSchema.simps [of env v])
  have "tag v = JStr (js (kind_of b))" by (rule block_union_kind [OF union])
  then have *: "tag v = JStr (js (kind_of b))" .
  show "kind_of b = ''list_item'' \<Longrightarrow> listItemBlockSchema env (blockSchema env) v = Some b"
    using union * tag_union(5) [of v env "blockSchema env"] by simp
  show "kind_of b = ''table_row'' \<Longrightarrow> tableRowBlockSchema env (blockSchema env) v = Some b"
    using union * tag_union(7) [of v env "blockSchema env"] by simp
  show "kind_of b = ''table_cell'' \<Longrightarrow> tableCellBlockSchema env (blockSchema env) v = Some b"
    using union * tag_union(8) [of v env "blockSchema env"] by simp
  show "kind_of b = ''column'' \<Longrightarrow> columnBlockSchema env (blockSchema env) v = Some b"
    using union * tag_union(16) [of v env "blockSchema env"] by simp
qed

lemma child_complete [schema_eval]:
  assumes "\<forall>b \<in> set k. complete_at env b" "list_all (valid_block env) k"
  shows "list_all (\<lambda>c. kind_of c = ''list_item'') k \<Longrightarrow>
      list_all (\<lambda>b. listItemBlockSchema env (blockSchema env) (encode_block b) = Some b) k"
    "list_all (\<lambda>c. kind_of c = ''table_row'') k \<Longrightarrow>
      list_all (\<lambda>b. tableRowBlockSchema env (blockSchema env) (encode_block b) = Some b) k"
    "list_all (\<lambda>c. kind_of c = ''table_cell'') k \<Longrightarrow>
      list_all (\<lambda>b. tableCellBlockSchema env (blockSchema env) (encode_block b) = Some b) k"
    "list_all (\<lambda>c. kind_of c = ''column'') k \<Longrightarrow>
      list_all (\<lambda>b. columnBlockSchema env (blockSchema env) (encode_block b) = Some b) k"
  using complete_list [OF assms] by (simp_all add: list_all_iff blockSchema_nested)

lemma entity_id_complete [schema_eval]:
  "z_nullable (idSchema env) (encode_entity_id e) = (if pred_option (z_uuid env) e then Some e else None)"
  by (cases e) (simp_all add: z_nullable_def schema_eval)

lemma encode_entity_id_JUndef [simp]: "encode_entity_id e \<noteq> JUndef"
  by (cases e) simp_all

lemma action_complete:
  assumes "valid_action env (map_button_action (valid_block env) a)" "\<forall>b \<in> set_button_action a. complete_at env b"
  shows "buttonActionSchema env (blockSchema env)
           (encode_button_action (map_button_action encode_block a)) = Some a"
  using assms
  by (cases a) (simp_all add: buttonActionSchema_def buttonInsertBlocksActionSchema_def
      buttonUpdateRecordActionSchema_def buttonNotificationActionSchema_def
      buttonWebhookActionSchema_def schema_eval complete_list list.pred_map comp_def)

lemma abs_pos [schema_eval]: "1 \<le> i \<Longrightarrow> \<bar>i\<bar> = (i :: int)"
  by simp

lemma inlines_complete [schema_eval]:
  "list_all (valid_inline env) c \<Longrightarrow> z_array (inlineNodeSchema env) (encode_inlines c) = Some c"
  by (simp add: encode_inlines_def z_array_map inline_complete list_all_iff)

lemma actions_complete [schema_eval]:
  "list_all (\<lambda>a. valid_action env (map_button_action (valid_block env) a)) as \<Longrightarrow>
   \<forall>a \<in> set as. \<forall>b \<in> set_button_action a. complete_at env b \<Longrightarrow>
   z_array (buttonActionSchema env (blockSchema env))
     (JArr (map (\<lambda>a. encode_button_action (map_button_action encode_block a)) as)) = Some as"
  by (rule z_array_map) (simp add: action_complete list_all_iff)

lemma breadcrumb_complete [schema_eval]:
  "list_all (\<lambda>p. pred_option (z_uuid env) (fst p) \<and> len_in 1 255 (snd p)) its \<Longrightarrow>
   z_array (breadcrumbItemSchema env) (JArr (map encode_breadcrumb_item its)) = Some its"
proof (rule z_array_map)
  fix it assume "list_all (\<lambda>p. pred_option (z_uuid env) (fst p) \<and> len_in 1 255 (snd p)) its" "it \<in> set its"
  then have "pred_option (z_uuid env) (fst it) \<and> len_in 1 255 (snd it)" by (simp add: list_all_iff)
  then show "breadcrumbItemSchema env (encode_breadcrumb_item it) = Some it"
    by (cases it) (simp add: breadcrumbItemSchema_def schema_eval)
qed

lemma opt_children_complete [schema_eval]:
  "(\<And>k. x = Some k \<Longrightarrow> list_all (\<lambda>b. S (g b) = Some b) k) \<Longrightarrow>
   z_optional (z_array S) (optv JArr (map_option (map g) x)) = Some x"
  by (cases x) (simp_all add: z_optional_def z_array_encode)

lemma list_all_complete [schema_eval]:
  "\<forall>b \<in> set k. complete_at env b \<Longrightarrow> list_all (valid_block env) k \<Longrightarrow>
   list_all (\<lambda>b. blockSchema env (encode_block b) = Some b) k"
  by (rule complete_list)

lemma complete_step:
  "complete_at env b \<longleftrightarrow> (valid_block env b \<longrightarrow> block_union env (blockSchema env) (encode_block b) = Some b)"
  by (simp add: complete_at_def blockSchema.simps [of env "encode_block b"])

lemma block_complete: "complete_at env b"
  by (induction b; subst complete_step)
    ((simp add: tag_union outer_schema_defs schema_eval max_safe_integer_def cong: ball_cong; fail) |
     (simp add: tag_union listItemBlockSchema_def tableCellBlockSchema_def columnBlockSchema_def
        schema_eval cong: ball_cong; fail) |
     (simp add: tag_union tableRowBlockSchema_def schema_eval cong: ball_cong; fail))+

lemma document_complete:
  "valid_document env d \<Longrightarrow> parseDocument env (encode_document d) = Some d"
  using block_complete [of env]
  by (simp add: parseDocument_def documentSchema_def encode_document_def valid_document_def schema_eval
      complete_list)

section \<open>Parsing changes nothing but key order\<close>

lemma wf_getp: "wf_val (JObj fs) \<Longrightarrow> wf_val (getp fs k)"
proof (cases "getp fs k = JUndef")
  case False
  assume "wf_val (JObj fs)"
  with False getp_mem [of fs k "getp fs k"] show ?thesis by force
qed simp

lemma live_fields_getp:
  assumes "distinct (map fst fs)" "distinct (map fst gs)"
    and "\<And>k. normal (getp fs k) = normal (getp gs k)"
  shows "normal (JObj fs) = normal (JObj gs)"
proof -
  define N where "N = (\<lambda>p :: jstr \<times> jsval. (fst p, normal (snd p)))"
  have mem: "(k, w) \<in> N ` set (live_fields hs) \<longleftrightarrow> normal (getp hs k) = w \<and> w \<noteq> JUndef"
    if d: "distinct (map fst hs)" for k w and hs :: fields
  proof
    assume "(k, w) \<in> N ` set (live_fields hs)"
    then obtain v where v: "(k, v) \<in> set hs" "v \<noteq> JUndef" "w = normal v"
      by (auto simp: N_def live_fields_def)
    with d have "getp hs k = v" by (simp add: getp_def)
    with v show "normal (getp hs k) = w \<and> w \<noteq> JUndef" by simp
  next
    assume "normal (getp hs k) = w \<and> w \<noteq> JUndef"
    moreover from this have "getp hs k \<noteq> JUndef" by auto
    with getp_mem have "(k, getp hs k) \<in> set (live_fields hs)"
      by (auto simp: live_fields_def)
    ultimately show "(k, w) \<in> N ` set (live_fields hs)" by (force simp: N_def)
  qed
  have srt: "sorted (map fst (map N (live_fields hs)))" "distinct (map fst (map N (live_fields hs)))"
    if "distinct (map fst hs)" for hs :: fields
    using that by (auto simp: N_def comp_def live_fields_def distinct_map intro: inj_on_subset)
  have "set (map N (live_fields fs)) = set (map N (live_fields gs))"
    unfolding set_map using mem [OF assms(1)] mem [OF assms(2)] assms(3)
    by (intro set_eqI) (metis surj_pair)
  with srt [OF assms(1)] srt [OF assms(2)]
  have "map N (live_fields fs) = map N (live_fields gs)"
    by (intro map_sorted_distinct_set_unique [where f = fst])
      (auto simp: distinct_map inj_on_def)
  then show ?thesis by (simp add: N_def)
qed

definition distinct_keys :: "fields \<Rightarrow> bool" where
  "distinct_keys fs \<longleftrightarrow> distinct (map fst fs)"

definition key_in :: "jstr \<Rightarrow> fields \<Rightarrow> bool" where
  "key_in k fs \<longleftrightarrow> k \<in> fst ` set fs"

lemma normal_obj_eq:
  assumes "only_keys ks fs" "wf_val (JObj fs)" "distinct_keys gs" "only_keys ks gs"
    and "list_all (\<lambda>k. normal (getp gs (js k)) = normal (getp fs (js k))) ks"
  shows "normal (JObj gs) = normal (JObj fs)"
proof (rule live_fields_getp)
  show "distinct (map fst gs)" "distinct (map fst fs)" using assms(2,3) by (simp_all add: distinct_keys_def)
  have none: "getp hs k = JUndef" if "k \<notin> js ` set ks" "only_keys ks hs" for k hs
    using that getp_mem [of hs k "getp hs k"] by (force simp: list_all_iff only_keys_def)
  show "normal (getp gs k) = normal (getp fs k)" for k
  proof (cases "k \<in> js ` set ks")
    case True
    then show ?thesis using assms(5) by (auto simp: list_all_iff)
  next
    case False
    then show ?thesis using none assms(1,4) by simp
  qed
qed

lemma distinct_keys_simps [simp]:
  "distinct_keys []"
  "distinct_keys (p # fs) \<longleftrightarrow> \<not> key_in (fst p) fs \<and> distinct_keys fs"
  "distinct_keys (optf k g x @ fs) \<longleftrightarrow> (x = None \<or> \<not> key_in (js k) fs) \<and> distinct_keys fs"
  "distinct_keys (optf k g x)"
  by (cases x; simp add: distinct_keys_def key_in_def)+

lemma key_in_simps [simp]:
  "\<not> key_in k []"
  "key_in k (p # fs) \<longleftrightarrow> fst p = k \<or> key_in k fs"
  "key_in k (optf j g x @ fs) \<longleftrightarrow> x \<noteq> None \<and> js j = k \<or> key_in k fs"
  "key_in k (optf j g x) \<longleftrightarrow> x \<noteq> None \<and> js j = k"
  by (cases x; auto simp: key_in_def)+

text \<open>A schema that accepts exactly the encodings of the values that satisfy \<open>P\<close>.\<close>

definition exact :: "'a schema \<Rightarrow> ('a \<Rightarrow> jsval) \<Rightarrow> ('a \<Rightarrow> bool) \<Rightarrow> bool" where
  "exact S e P \<longleftrightarrow> (\<forall>v x. wf_val v \<longrightarrow> (S v = Some x \<longleftrightarrow> v = e x \<and> P x)) \<and> (\<forall>x. e x \<noteq> JUndef)"

lemma exactD: "exact S e P \<Longrightarrow> wf_val v \<Longrightarrow> S v = Some x \<longleftrightarrow> v = e x \<and> P x"
  by (simp add: exact_def)

lemma exact_optional:
  "exact S e P \<Longrightarrow> wf_val v \<Longrightarrow> z_optional S v = Some r \<longleftrightarrow> v = optv e r \<and> pred_option P r"
  by (cases r) (auto simp: exact_def z_optional_Some)

lemma exact_string: "exact z_string JStr (\<lambda>_. True)"
  by (simp add: exact_def z_string_Some)

lemma exact_boolean: "exact z_boolean JBool (\<lambda>_. True)"
  by (simp add: exact_def z_boolean_Some)

lemma exact_number: "exact z_number JNum is_finite"
  by (simp add: exact_def z_number_Some)

lemma exact_refine: "exact S e P \<Longrightarrow> exact (z_refine Q S) e (\<lambda>x. P x \<and> Q x)"
  by (auto simp: exact_def z_refine_Some)

lemma exact_id: "exact (idSchema env) JStr (z_uuid env)"
  using exact_refine [OF exact_string, of "z_uuid env"] by (simp add: idSchema_def)

lemma exact_date: "exact (isoDate env) JStr (z_iso_date env)"
  using exact_refine [OF exact_string, of "z_iso_date env"] by (simp add: isoDate_def)

lemma exact_str_between: "exact (str_max n (str_min m z_string)) JStr (len_in m n)"
  using exact_refine [OF exact_refine [OF exact_string, of "\<lambda>s. m \<le> length s"], of "\<lambda>s. length s \<le> n"]
  by (simp add: str_max_def str_min_def len_in_def [abs_def])

lemma exact_str_max: "exact (str_max n z_string) JStr (len_in 0 n)"
  using exact_refine [OF exact_string, of "\<lambda>s. length s \<le> n"]
  by (simp add: str_max_def len_in_def [abs_def])

lemma exact_str_min: "exact (str_min n z_string) JStr (\<lambda>s. n \<le> length s)"
  using exact_refine [OF exact_string, of "\<lambda>s. n \<le> length s"] by (simp add: str_min_def)

lemma exact_int_min: "1 \<le> n \<Longrightarrow> exact (int_min n z_int) encode_int (int_in n max_safe_integer)"
proof -
  assume n: "1 \<le> n"
  have "v = encode_int i" if w: "wf_val v" "z_int v = Some i" "n \<le> i" for v i
  proof -
    obtain m where v: "v = JNum m" "safe_int m = Some i" using w(2) by (cases v) auto
    then have "num_int m = Some i" by (auto simp: safe_int_def split: option.splits if_splits)
    with num_int_unique [of m i] w(1,3) n v show ?thesis by (auto simp: encode_int_def)
  qed
  moreover have "i \<le> max_safe_integer" if "z_int v = Some i" for v i
    using that by (cases v) (auto simp: safe_int_def split: option.splits if_splits)
  ultimately show ?thesis
    using n by (auto simp: exact_def int_min_def z_refine_Some int_in_def encode_int_def)
qed

lemma exact_int_between:
  assumes "1 \<le> m" "n \<le> max_safe_integer"
  shows "exact (int_max n (int_min m z_int)) encode_int (int_in m n)"
proof -
  have "(\<lambda>i. int_in m max_safe_integer i \<and> i \<le> n) = int_in m n"
    using assms(2) by (auto simp: int_in_def fun_eq_iff)
  with exact_refine [OF exact_int_min [OF assms(1)], of "\<lambda>i. i \<le> n"] show ?thesis
    by (simp add: int_max_def)
qed

lemma exact_num_min: "exact (num_min m z_number) JNum (\<lambda>x. is_finite x \<and> num_le m x)"
  using exact_refine [OF exact_number, of "num_le m"] by (simp add: num_min_def)

lemma exact_num_between:
  "exact (num_max n (num_min m z_number)) JNum (\<lambda>x. (is_finite x \<and> num_le m x) \<and> num_le x n)"
  using exact_refine [OF exact_num_min, of "\<lambda>x. num_le x n"] by (simp add: num_max_def)

lemma exact_ints:
  "exact (int_min 1 z_int) encode_int (int_in 1 max_safe_integer)"
  "exact (int_max 6 (int_min 1 z_int)) encode_int (int_in 1 6)"
  "exact (int_max 1200 (int_min 120 z_int)) encode_int (int_in 120 1200)"
  "exact (int_max 1200 (int_min 320 z_int)) encode_int (int_in 320 1200)"
  by (rule exact_int_min exact_int_between, simp_all add: max_safe_integer_def)+

lemma exact_enum_lemma:
  assumes "\<And>x. z_enum tbl (encode_enum tbl x) = Some x" "\<And>p. p \<in> set tbl \<Longrightarrow> enum_name tbl (snd p) = js (fst p)"
  shows "exact (z_enum tbl) (encode_enum tbl) (\<lambda>_. True)"
proof -
  have "v = encode_enum tbl x" if z: "z_enum tbl v = Some x" for v x
  proof -
    obtain s where v: "v = JStr s" "map_of (map (\<lambda>p. (js (fst p), snd p)) tbl) s = Some x"
      using z by (auto simp: z_enum_def split: jsval.splits)
    from map_of_SomeD [OF v(2)] obtain p where "p \<in> set tbl" "s = js (fst p)" "x = snd p" by auto
    with assms(2) v(1) show ?thesis by (simp add: encode_enum_def)
  qed
  with assms(1) show ?thesis by (auto simp: exact_def)
qed

lemma exact_enums:
  "exact (z_enum marks) (encode_enum marks) (\<lambda>_. True)"
  "exact (z_enum inline_colors) (encode_enum inline_colors) (\<lambda>_. True)"
  "exact (z_enum preformatted_kinds) (encode_enum preformatted_kinds) (\<lambda>_. True)"
  "exact (z_enum callout_kinds) (encode_enum callout_kinds) (\<lambda>_. True)"
  "exact (z_enum callout_colors) (encode_enum callout_colors) (\<lambda>_. True)"
  "exact (z_enum tones) (encode_enum tones) (\<lambda>_. True)"
  "exact (z_enum embed_providers) (encode_enum embed_providers) (\<lambda>_. True)"
  by (rule exact_enum_lemma, rule enum_complete,
      force simp: enum_name_def marks_def inline_colors_def preformatted_kinds_def callout_kinds_def
        callout_colors_def tones_def embed_providers_def)+

text \<open>
  Zod trims a URL, and nothing else. \<open>unpadded\<close>: no property \<open>url\<close> of the value has white space around
  its text.
\<close>

fun trimmed :: "jsval \<Rightarrow> bool" where
  "trimmed (JStr s) \<longleftrightarrow> js_trim s = s"
| "trimmed v \<longleftrightarrow> True"

fun unpadded :: "jsval \<Rightarrow> bool" where
  "unpadded (JArr vs) \<longleftrightarrow> (\<forall>v \<in> set vs. unpadded v)"
| "unpadded (JObj fs) \<longleftrightarrow> (\<forall>p \<in> set fs. unpadded (snd p) \<and> (fst p = js ''url'' \<longrightarrow> trimmed (snd p)))"
| "unpadded v \<longleftrightarrow> True"

declare unpadded.simps(2) [simp del]

lemma unpadded_getp: "unpadded (JObj fs) \<Longrightarrow> unpadded (getp fs k)"
  using getp_mem [of fs k "getp fs k"] by (cases "getp fs k = JUndef") (fastforce simp: unpadded.simps)+

lemma url_iff:
  assumes "url_pure env" "unpadded (JObj fs)"
  shows "httpUrlSchema env (getp fs (js ''url'')) = Some x \<longleftrightarrow> getp fs (js ''url'') = JStr x \<and> valid_url env x"
proof -
  have "js_trim s = s" if "getp fs (js ''url'') = JStr s" for s
    using getp_mem [OF that] assms(2) by (force simp: unpadded.simps)
  then show ?thesis using assms(1) by (auto simp: httpUrlSchema_Some valid_url_def url_pure_def)
qed

lemma mapO_Cons_Some:
  "mapO f (x # xs) = Some ys \<longleftrightarrow> (\<exists>y zs. ys = y # zs \<and> f x = Some y \<and> mapO f xs = Some zs)"
  by (auto split: option.splits)

lemma exact_array:
  "exact S e P \<Longrightarrow> exact (z_array S) (\<lambda>xs. JArr (map e xs)) (list_all P)"
proof -
  assume S: "exact S e P"
  have "mapO S vs = Some xs \<longleftrightarrow> vs = map e xs \<and> list_all P xs" if "\<forall>v \<in> set vs. wf_val v" for vs xs
    using that
  proof (induction vs arbitrary: xs)
    case (Cons v vs)
    then have "S v = Some x \<longleftrightarrow> v = e x \<and> P x" for x by (simp add: exactD [OF S])
    with Cons show ?case by (cases xs) (auto simp: mapO_Cons_Some simp del: mapO_simps(2))
  qed auto
  then show ?thesis by (auto simp: exact_def z_array_Some)
qed

definition sound :: "'a schema \<Rightarrow> ('a \<Rightarrow> jsval) \<Rightarrow> ('a \<Rightarrow> bool) \<Rightarrow> jsval \<Rightarrow> bool" where
  "sound S e P v \<longleftrightarrow> (\<forall>x. wf_val v \<longrightarrow> unpadded v \<longrightarrow> S v = Some x \<longrightarrow> P x \<and> normal (e x) = normal v)"

lemma soundI:
  "(\<And>x. wf_val v \<Longrightarrow> unpadded v \<Longrightarrow> S v = Some x \<Longrightarrow> P x \<and> normal (e x) = normal v) \<Longrightarrow> sound S e P v"
  by (simp add: sound_def)

lemma soundD: "sound S e P v \<Longrightarrow> wf_val v \<Longrightarrow> unpadded v \<Longrightarrow> S v = Some x \<Longrightarrow> P x \<and> normal (e x) = normal v"
  by (simp add: sound_def)

lemma sound_union: "\<forall>S \<in> set Ss. sound S e P v \<Longrightarrow> sound (z_union Ss) e P v"
  using z_union_Some [of Ss v] by (fastforce simp: sound_def)

lemma sound_array:
  assumes "\<And>w. w \<in> (case v of JArr vs \<Rightarrow> set vs | _ \<Rightarrow> {}) \<Longrightarrow> sound S e P w"
  shows "sound (z_array S) (\<lambda>xs. JArr (map e xs)) (list_all P) v"
proof (rule soundI)
  fix xs assume wf: "wf_val v" "unpadded v" and "z_array S v = Some xs"
  then obtain vs where v: "v = JArr vs" and m: "list_all2 (\<lambda>w x. S w = Some x) vs xs"
    by (auto simp: z_array_Some mapO_Some_iff)
  have "list_all2 (\<lambda>w x. P x \<and> normal (e x) = normal w) vs xs"
    using m by (rule list.rel_mono_strong) (use wf assms v in \<open>auto dest: soundD\<close>)
  then show "list_all P xs \<and> normal (JArr (map e xs)) = normal v"
    unfolding v by (induction rule: list_all2_induct) auto
qed

lemma only_keys_simps [simp]:
  "only_keys ks []"
  "only_keys ks (p # fs) \<longleftrightarrow> fst p \<in> js ` set ks \<and> only_keys ks fs"
  "only_keys ks (fs @ gs) \<longleftrightarrow> only_keys ks fs \<and> only_keys ks gs"
  by (simp_all add: only_keys_def)

lemma only_keys_optf [simp]: "only_keys ks (optf k g x) \<longleftrightarrow> x \<noteq> None \<longrightarrow> k \<in> set ks"
  by (cases x) auto

lemmas leaf_iff = exactD [OF exact_string] exactD [OF exact_boolean] exactD [OF exact_id] exactD [OF exact_date]
  exactD [OF exact_str_between] exactD [OF exact_str_max] exactD [OF exact_str_min] exactD [OF exact_ints(1)]
  exactD [OF exact_ints(2)] exactD [OF exact_ints(3)] exactD [OF exact_ints(4)] url_iff exactD [OF exact_enums(3)] exactD [OF exact_enums(4)]
  exactD [OF exact_num_between] exact_optional [OF exact_num_min] z_record_Some z_literal_Some
  exact_optional [OF exact_string] exact_optional [OF exact_boolean] exact_optional [OF exact_id]
  exact_optional [OF exact_date] exact_optional [OF exact_str_between] exact_optional [OF exact_str_max]
  exact_optional [OF exact_ints(1)] exact_optional [OF exact_enums(1)] exact_optional [OF exact_enums(2)]
  exact_optional [OF exact_enums(5)] exact_optional [OF exact_enums(6)] exact_optional [OF exact_enums(7)]
  exact_optional [OF exact_array [OF exact_enums(1)]]

lemma inline_member_sound:
  assumes "url_pure env"
  shows "sound textNodeSchema encode_inline (valid_inline env) v"
    "sound inlineCodeNodeSchema encode_inline (valid_inline env) v"
    "sound (resolvedPageReferenceSchema env) encode_inline (valid_inline env) v"
    "sound unresolvedPageReferenceSchema encode_inline (valid_inline env) v"
    "sound (pageAnchorReferenceNodeSchema env) encode_inline (valid_inline env) v"
    "sound (externalLinkNodeSchema env) encode_inline (valid_inline env) v"
    "sound (entityReferenceNodeSchema env) encode_inline (valid_inline env) v"
    "sound (claimReferenceNodeSchema env) encode_inline (valid_inline env) v"
    "sound (citationReferenceNodeSchema env) encode_inline (valid_inline env) v"
    "sound mathNodeSchema encode_inline (valid_inline env) v"
    "sound (mentionNodeSchema env) encode_inline (valid_inline env) v"
    "sound (dateMentionNodeSchema env) encode_inline (valid_inline env) v"
  unfolding inline_schema_defs enum_schema_defs
  by (rule soundI, clarsimp simp: assms strict_object_Some req_def opt_def leaf_iff wf_getp unpadded_getp text_obj_def
       simp del: wf_val.simps(3) normal.simps(3), erule (1) normal_obj_eq, simp_all)+

lemma inline_sound: "url_pure env \<Longrightarrow> sound (inlineNodeSchema env) encode_inline (valid_inline env) v"
  unfolding inlineNodeSchema_def pageReferenceNodeSchema_def
  by (intro sound_union ballI) (auto simp: inline_member_sound intro!: sound_union)

definition parse_rel :: "'a schema \<Rightarrow> jsval \<Rightarrow> 'a \<Rightarrow> bool" where
  "parse_rel S v x \<longleftrightarrow> S v = Some x"

lemma sound_iff:
  "sound S e P v \<Longrightarrow> wf_val v \<Longrightarrow> unpadded v \<Longrightarrow> S v = Some x \<longleftrightarrow> parse_rel S v x \<and> P x \<and> normal (e x) = normal v"
  by (auto simp: sound_def parse_rel_def)

lemma sound_iff_optional:
  "sound S e P v \<Longrightarrow> wf_val v \<Longrightarrow> unpadded v \<Longrightarrow>
   z_optional S v = Some r \<longleftrightarrow> parse_rel (z_optional S) v r \<and> pred_option P r \<and> normal (optv e r) = normal v"
  by (cases r) (auto simp: sound_def parse_rel_def z_optional_Some)

text \<open>The schema of the children is sound on everything below the object at hand.\<close>

definition kids_ok :: "zenv \<Rightarrow> fields \<Rightarrow> bool" where
  "kids_ok env fs \<longleftrightarrow> (\<forall>w. size w < size (JObj fs) \<longrightarrow> sound (blockSchema env) encode_block (valid_block env) w)"

lemma sound_array_field:
  assumes "\<And>w. size w < size (JObj fs) \<Longrightarrow> sound S e P w"
  shows "sound (z_array S) (\<lambda>xs. JArr (map e xs)) (list_all P) (getp fs k)"
  using assms size_getp_arr_less [of fs k] by (intro sound_array) (auto split: jsval.splits)

lemma sound_mono: "sound S e P v \<Longrightarrow> (\<And>x. T v = Some x \<Longrightarrow> S v = Some x \<and> Q x) \<Longrightarrow> sound T e (\<lambda>x. P x \<and> Q x) v"
  by (auto simp: sound_def)

lemma blockSchema_member:
  "listItemBlockSchema env (blockSchema env) w = Some b \<Longrightarrow> blockSchema env w = Some b \<and> kind_of b = ''list_item''"
  "tableRowBlockSchema env (blockSchema env) w = Some b \<Longrightarrow> blockSchema env w = Some b \<and> kind_of b = ''table_row''"
  "tableCellBlockSchema env (blockSchema env) w = Some b \<Longrightarrow> blockSchema env w = Some b \<and> kind_of b = ''table_cell''"
  "columnBlockSchema env (blockSchema env) w = Some b \<Longrightarrow> blockSchema env w = Some b \<and> kind_of b = ''column''"
  by (frule member_kind, simp add: blockSchema.simps [of env w] tag_union)+

lemma kids_sound:
  assumes "kids_ok env fs"
  shows "sound (z_array (blockSchema env)) (\<lambda>k. JArr (map encode_block k)) (list_all (valid_block env)) (getp fs k)"
    "sound (z_array (listItemBlockSchema env (blockSchema env))) (\<lambda>k. JArr (map encode_block k))
       (list_all (\<lambda>b. valid_block env b \<and> kind_of b = ''list_item'')) (getp fs k)"
    "sound (z_array (tableRowBlockSchema env (blockSchema env))) (\<lambda>k. JArr (map encode_block k))
       (list_all (\<lambda>b. valid_block env b \<and> kind_of b = ''table_row'')) (getp fs k)"
    "sound (z_array (tableCellBlockSchema env (blockSchema env))) (\<lambda>k. JArr (map encode_block k))
       (list_all (\<lambda>b. valid_block env b \<and> kind_of b = ''table_cell'')) (getp fs k)"
    "sound (z_array (columnBlockSchema env (blockSchema env))) (\<lambda>k. JArr (map encode_block k))
       (list_all (\<lambda>b. valid_block env b \<and> kind_of b = ''column'')) (getp fs k)"
  by (rule sound_array_field, use assms in \<open>auto simp: kids_ok_def intro!: sound_mono dest: blockSchema_member\<close>)+

lemma inlines_sound:
  "url_pure env \<Longrightarrow> sound (z_array (inlineNodeSchema env)) encode_inlines (list_all (valid_inline env)) v"
  using sound_array [of v "inlineNodeSchema env" encode_inline] inline_sound [of env]
  by (simp add: encode_inlines_def [abs_def])

lemma breadcrumb_sound:
  "sound (z_array (breadcrumbItemSchema env)) (\<lambda>its. JArr (map encode_breadcrumb_item its))
     (list_all (\<lambda>p. pred_option (z_uuid env) (fst p) \<and> len_in 1 255 (snd p))) v"
proof (rule sound_array)
  show "sound (breadcrumbItemSchema env) encode_breadcrumb_item
     (\<lambda>p. pred_option (z_uuid env) (fst p) \<and> len_in 1 255 (snd p)) w" for w
    unfolding breadcrumbItemSchema_def
    by (rule soundI, clarsimp simp: strict_object_Some req_def opt_def leaf_iff wf_getp unpadded_getp
        simp del: wf_val.simps(3) normal.simps(3), erule (1) normal_obj_eq, simp_all)
qed

lemma exact_entity_id:
  "exact (z_nullable (idSchema env)) encode_entity_id (pred_option (z_uuid env))"
proof -
  have "z_nullable (idSchema env) v = Some e \<longleftrightarrow> v = encode_entity_id e \<and> pred_option (z_uuid env) e"
    if "wf_val v" for v e
    using that by (cases e) (auto simp: z_nullable_Some exactD [OF exact_id])
  then show ?thesis by (simp add: exact_def)
qed

lemma webhook_url_iff:
  assumes "url_pure env" "unpadded (JObj fs)"
  shows "z_refine (\<lambda>s. starts_with s (js ''https://'')) (httpUrlSchema env) (getp fs (js ''url'')) = Some x \<longleftrightarrow>
     getp fs (js ''url'') = JStr x \<and> valid_url env x \<and> starts_with x (js ''https://'')"
  by (auto simp: z_refine_Some url_iff [OF assms])

lemma kids_sound_smaller: "kids_ok env fs \<Longrightarrow> size w < size (JObj fs) \<Longrightarrow>
   case w of JObj gs \<Rightarrow> kids_ok env gs | _ \<Rightarrow> True"
  by (cases w) (auto simp: kids_ok_def)

lemma list_all_conj [simp]: "list_all (\<lambda>x. P x \<and> Q x) xs \<longleftrightarrow> list_all P xs \<and> list_all Q xs"
  by (auto simp: list_all_iff)

lemma optv_map_option: "optv g (map_option f x) = optv (\<lambda>y. g (f y)) x"
  by (cases x) simp_all

lemmas sound_simps = if_None_Some optv_map_option strict_object_Some req_def opt_def leaf_iff wf_getp unpadded_getp text_obj_def block_obj_def
  webhook_url_iff exact_optional [OF exact_entity_id]
  sound_iff [OF kids_sound(1)] sound_iff [OF kids_sound(2)] sound_iff [OF kids_sound(3)]
  sound_iff [OF kids_sound(4)] sound_iff [OF kids_sound(5)] sound_iff_optional [OF kids_sound(1)]
  sound_iff [OF inlines_sound] sound_iff [OF breadcrumb_sound]
  list_max_def list_min_def z_refine_Some len_in_def

lemma action_member_sound:
  assumes "url_pure env" "case v of JObj fs \<Rightarrow> kids_ok env fs | _ \<Rightarrow> True"
  defines "E \<equiv> \<lambda>a. encode_button_action (map_button_action encode_block a)"
    and "V \<equiv> \<lambda>a. valid_action env (map_button_action (valid_block env) a)"
  shows "sound (buttonInsertBlocksActionSchema env (blockSchema env)) E V v"
    "sound (buttonUpdateRecordActionSchema env) E V v"
    "sound buttonNotificationActionSchema E V v"
    "sound (buttonWebhookActionSchema env) E V v"
  unfolding buttonInsertBlocksActionSchema_def buttonUpdateRecordActionSchema_def
    buttonNotificationActionSchema_def buttonWebhookActionSchema_def E_def V_def
  by (rule soundI, use assms(2) in \<open>clarsimp simp: assms(1) sound_simps list.pred_map comp_def
       simp del: wf_val.simps(3) normal.simps(3)\<close>, erule (1) normal_obj_eq; simp add: comp_def)+

lemma actions_sound:
  assumes "url_pure env" "kids_ok env fs"
  shows "sound (z_array (buttonActionSchema env (blockSchema env)))
     (\<lambda>as. JArr (map (\<lambda>a. encode_button_action (map_button_action encode_block a)) as))
     (list_all (\<lambda>a. valid_action env (map_button_action (valid_block env) a))) (getp fs k)"
proof (rule sound_array_field)
  fix w :: jsval assume "size w < size (JObj fs)"
  with assms(2) have "case w of JObj gs \<Rightarrow> kids_ok env gs | _ \<Rightarrow> True" by (rule kids_sound_smaller)
  then show "sound (buttonActionSchema env (blockSchema env))
      (\<lambda>a. encode_button_action (map_button_action encode_block a))
      (\<lambda>a. valid_action env (map_button_action (valid_block env) a)) w"
    unfolding buttonActionSchema_def
    by (intro sound_union) (simp add: action_member_sound assms(1))
qed

lemma nested_member_sound:
  assumes "url_pure env" "case v of JObj fs \<Rightarrow> kids_ok env fs | _ \<Rightarrow> True"
  shows "sound (listItemBlockSchema env (blockSchema env)) encode_block (valid_block env) v"
    "sound (tableCellBlockSchema env (blockSchema env)) encode_block (valid_block env) v"
    "sound (columnBlockSchema env (blockSchema env)) encode_block (valid_block env) v"
  unfolding listItemBlockSchema_def tableCellBlockSchema_def columnBlockSchema_def
  by (rule soundI, use assms(2) in \<open>clarsimp simp: assms(1) sound_simps sound_iff [OF actions_sound]
       comp_def simp del: wf_val.simps(3) normal.simps(3)\<close>;
      (rule conjI, fastforce)?; erule (1) normal_obj_eq; simp add: comp_def optv_map_option)+

lemma table_row_sound:
  assumes "url_pure env" "case v of JObj fs \<Rightarrow> kids_ok env fs | _ \<Rightarrow> True"
  shows "sound (tableRowBlockSchema env (blockSchema env)) encode_block (valid_block env) v"
  unfolding tableRowBlockSchema_def
  by (rule soundI, use assms(2) in \<open>clarsimp simp: assms(1) sound_simps sound_iff [OF actions_sound]
       comp_def simp del: wf_val.simps(3) normal.simps(3)\<close>;
      (rule conjI, fastforce)?; erule (1) normal_obj_eq; simp add: comp_def optv_map_option)+

lemma outer_member_sound:
  assumes "url_pure env" "case v of JObj fs \<Rightarrow> kids_ok env fs | _ \<Rightarrow> True"
  shows "sound (headingBlockSchema env (blockSchema env)) encode_block (valid_block env) v"
    "sound (paragraphBlockSchema env) encode_block (valid_block env) v"
    "sound (bulletListBlockSchema env (blockSchema env)) encode_block (valid_block env) v"
    "sound (orderedListBlockSchema env (blockSchema env)) encode_block (valid_block env) v"
    "sound (tableBlockSchema env (blockSchema env)) encode_block (valid_block env) v"
    "sound (codeBlockSchema env) encode_block (valid_block env) v"
    "sound (preformattedBlockSchema env) encode_block (valid_block env) v"
    "sound (equationBlockSchema env) encode_block (valid_block env) v"
    "sound (todoBlockSchema env (blockSchema env)) encode_block (valid_block env) v"
    "sound (toggleBlockSchema env (blockSchema env)) encode_block (valid_block env) v"
    "sound (breadcrumbBlockSchema env) encode_block (valid_block env) v"
    "sound (columnListBlockSchema env (blockSchema env)) encode_block (valid_block env) v"
    "sound (buttonBlockSchema env (blockSchema env)) encode_block (valid_block env) v"
    "sound (htmlBlockSchema env) encode_block (valid_block env) v"
    "sound (quoteBlockSchema env (blockSchema env)) encode_block (valid_block env) v"
    "sound (calloutBlockSchema env (blockSchema env)) encode_block (valid_block env) v"
    "sound (componentBlockSchema env) encode_block (valid_block env) v"
    "sound (imageBlockSchema env) encode_block (valid_block env) v"
    "sound (videoBlockSchema env) encode_block (valid_block env) v"
    "sound (audioBlockSchema env) encode_block (valid_block env) v"
    "sound (fileBlockSchema env) encode_block (valid_block env) v"
    "sound (pdfBlockSchema env) encode_block (valid_block env) v"
    "sound (bookmarkBlockSchema env) encode_block (valid_block env) v"
    "sound (linkPreviewBlockSchema env) encode_block (valid_block env) v"
    "sound (embedBlockSchema env) encode_block (valid_block env) v"
    "sound (dividerBlockSchema env) encode_block (valid_block env) v"
  unfolding outer_schema_defs enum_schema_defs
  by (rule soundI, use assms(2) in \<open>clarsimp simp: assms(1) sound_simps sound_iff [OF actions_sound]
       comp_def simp del: wf_val.simps(3) normal.simps(3)\<close>;
      (rule conjI, fastforce)?; erule (1) normal_obj_eq; simp add: comp_def optv_map_option)+

lemma block_sound:
  assumes "url_pure env"
  shows "sound (blockSchema env) encode_block (valid_block env) v"
proof (induction v rule: measure_induct_rule [of size])
  case (less v)
  have "case v of JObj fs \<Rightarrow> kids_ok env fs | _ \<Rightarrow> True"
    using less by (cases v) (simp_all add: kids_ok_def)
  note members = nested_member_sound [OF assms this] table_row_sound [OF assms this] outer_member_sound [OF assms this]
  have "sound (block_union env (blockSchema env)) encode_block (valid_block env) v"
    unfolding block_union_def by (rule sound_union) (simp only: list.set ball_simps members simp_thms)
  then show ?case by (simp only: sound_def blockSchema.simps [of env v])
qed

lemma document_sound:
  assumes "url_pure env"
  shows "sound (documentSchema env) encode_document (valid_document env) v"
proof (rule soundI)
  fix d assume "wf_val v" "unpadded v" "documentSchema env v = Some d"
  then obtain fs where v: "v = JObj fs" and wf: "wf_val (JObj fs)" and un: "unpadded (JObj fs)" and keys: "only_keys [''type'', ''schema_version'', ''children''] fs"
    and f: "getp fs (js ''type'') = JStr (js ''document'')"
      "z_literal_int 1 (getp fs (js ''schema_version'')) = Some ()"
      "z_array (blockSchema env) (getp fs (js ''children'')) = Some d"
    by (auto simp: documentSchema_def strict_object_Some req_def z_literal_Some)
  from f(2) obtain n where n: "getp fs (js ''schema_version'') = JNum n" "num_same n (num_of_int 1)"
    by (auto simp: z_literal_int_def split: jsval.splits if_splits)
  have "wf_num n" using wf_getp [OF wf, of "js ''schema_version''"] n(1) by simp
  moreover have one: "num_of_int 1 = Dec False 1 0" by (simp add: num_of_int_def strip_zeros.simps)
  ultimately have "n = num_of_int 1"
    using n(2) wf_dec_unique [of _ _ _ False 1 0] by (cases n) auto
  with n have ver: "getp fs (js ''schema_version'') = encode_int 1" by (simp add: encode_int_def)
  have "sound (z_array (blockSchema env)) (\<lambda>xs. JArr (map encode_block xs)) (list_all (valid_block env))
      (getp fs (js ''children''))"
    by (rule sound_array) (rule block_sound [OF assms])
  from soundD [OF this wf_getp [OF wf] unpadded_getp [OF un] f(3)]
  have kids: "valid_document env d" "normal (JArr (map encode_block d)) = normal (getp fs (js ''children''))"
    by (simp_all add: valid_document_def)
  have "normal (encode_document d) = normal (JObj fs)"
    unfolding encode_document_def by (rule normal_obj_eq [OF keys wf]) (use f(1) ver kids(2) in simp_all)
  with kids(1) v show "valid_document env d \<and> normal (encode_document d) = normal v" by simp
qed

section \<open>Properties\<close>

definition sample_id :: jstr where
  "sample_id = js ''01890a5d-ac96-774b-bcce-b302099a8057''"

definition sample_doc :: document where
  "sample_doc = [Heading sample_id 2 (Some True) [Text (js ''a'') (Some [Bold]) None (Some Red)]
     (Some [BulletList sample_id [ListItem sample_id [Divider sample_id]]])]"

lemma sample_doc_valid: "valid_document sample_env sample_doc"
  by (simp add: valid_document_def sample_doc_def sample_env_def sample_id_def int_in_def)

lemma sample_env_pure: "url_pure sample_env"
  by (simp add: url_pure_def sample_env_def)

text \<open>C1: every valid document is accepted by \<open>parseDocument\<close> as it is, and read back unchanged.\<close>

theorem parseDocument_roundtrip:
  assumes "valid_document env d"
  shows "parseDocument env (encode_document d) = Some d"
  using assms by (rule document_complete)

lemma parseDocument_roundtrip_witness:
  "parseDocument sample_env (encode_document sample_doc) = Some sample_doc"
  by (rule parseDocument_roundtrip [OF sample_doc_valid])

definition sample_input :: jsval where
  "sample_input = JObj [(js ''children'', JArr [JObj [(js ''type'', JStr (js ''divider'')), (js ''id'', JStr sample_id)]]),
     (js ''schema_version'', JNum (Dec False 1 0)), (js ''type'', JStr (js ''document''))]"

lemma num_of_int_1: "num_of_int 1 = Dec False 1 0"
  by (simp add: num_of_int_def strip_zeros.simps)

lemma sample_input_parses: "parseDocument sample_env sample_input = Some [Divider sample_id]"
proof -
  define v where "v = JObj [(js ''type'', JStr (js ''divider'')), (js ''id'', JStr sample_id)]"
  have "blockSchema sample_env v = Some (Divider sample_id)"
    by (subst blockSchema.simps)
      (simp add: tag_union v_def dividerBlockSchema_def schema_eval sample_env_def sample_id_def)
  then show ?thesis
    by (simp add: parseDocument_def documentSchema_def sample_input_def schema_eval z_array_def
        v_def [symmetric] z_literal_int_def num_of_int_1)
qed

lemma sample_input_wf: "wf_val sample_input"
  by (simp add: sample_input_def)

lemma sample_input_unpadded: "unpadded sample_input"
  by (simp add: sample_input_def unpadded.simps)



end
