(* ===== verification/SchemaType.thy ===== *)
theory SchemaType
  imports AstSchema
begin

text \<open>
  The type a schema gives, whatever value it is applied to: what a schema accepts satisfies the
  constraint of its type. \<open>AstSchema\<close> shows more on well-formed values, that nothing is changed;
  here the value may be any.
\<close>

definition gives :: "'a schema \<Rightarrow> ('a \<Rightarrow> bool) \<Rightarrow> jsval \<Rightarrow> bool" where
  "gives S P v \<longleftrightarrow> (\<forall>x. S v = Some x \<longrightarrow> P x)"

lemma givesI: "(\<And>x. S v = Some x \<Longrightarrow> P x) \<Longrightarrow> gives S P v"
  by (simp add: gives_def)

lemma gives_iff: "gives S P v \<Longrightarrow> S v = Some x \<longleftrightarrow> parse_rel S v x \<and> P x"
  by (auto simp: gives_def parse_rel_def)

lemma gives_optional: "gives S P v \<Longrightarrow> z_optional S v = Some r \<longleftrightarrow> parse_rel (z_optional S) v r \<and> pred_option P r"
  by (cases r) (auto simp: gives_def parse_rel_def z_optional_Some)

lemma gives_union: "\<forall>S \<in> set Ss. gives S P v \<Longrightarrow> gives (z_union Ss) P v"
  using z_union_Some [of Ss v] by (fastforce simp: gives_def)

lemma gives_array:
  assumes "\<And>w. w \<in> (case v of JArr vs \<Rightarrow> set vs | _ \<Rightarrow> {}) \<Longrightarrow> gives S P w"
  shows "gives (z_array S) (list_all P) v"
proof (rule givesI)
  fix xs assume "z_array S v = Some xs"
  then obtain vs where v: "v = JArr vs" and m: "list_all2 (\<lambda>w x. S w = Some x) vs xs"
    by (auto simp: z_array_Some mapO_Some_iff)
  from m assms [unfolded v] show "list_all P xs"
    by (induction rule: list_all2_induct) (auto simp: gives_def)
qed

lemma gives_mono: "gives S P v \<Longrightarrow> (\<And>x. T v = Some x \<Longrightarrow> S v = Some x \<and> Q x) \<Longrightarrow> gives T (\<lambda>x. P x \<and> Q x) v"
  by (auto simp: gives_def)

section \<open>Leaves\<close>

lemma z_int_bound: "z_int v = Some i \<Longrightarrow> i \<le> max_safe_integer"
  by (cases v) (auto simp: safe_int_def split: option.splits if_splits)

lemma gives_leaf:
  "gives (idSchema env) (z_uuid env) v"
  "gives (isoDate env) (z_iso_date env) v"
  "gives (str_max n (str_min m z_string)) (len_in m n) v"
  "gives (str_max n z_string) (len_in 0 n) v"
  "gives (str_min m z_string) (\<lambda>s. m \<le> length s) v"
  "gives (int_min i z_int) (int_in i max_safe_integer) v"
  "gives (int_max j (int_min i z_int)) (int_in i j) v"
  "gives (num_min x z_number) (\<lambda>w. is_finite w \<and> num_le x w) v"
  "gives (num_max y (num_min x z_number)) (\<lambda>w. is_finite w \<and> num_le x w \<and> num_le w y) v"
  "gives (z_nullable (idSchema env)) (pred_option (z_uuid env)) v"
  by (auto simp: gives_def idSchema_def isoDate_def str_max_def str_min_def int_max_def int_min_def num_max_def
      num_min_def z_refine_Some len_in_def int_in_def z_number_Some z_nullable_Some pred_option_def
      dest: z_int_bound split: option.splits)

lemma gives_url:
  assumes "url_pure env"
  shows "gives (httpUrlSchema env) (valid_url env) v"
    "gives (z_refine (\<lambda>s. starts_with s (js ''https://'')) (httpUrlSchema env))
       (\<lambda>u. valid_url env u \<and> starts_with u (js ''https://'')) v"
  using assms by (auto simp: gives_def httpUrlSchema_Some valid_url_def url_pure_def z_refine_Some)

lemmas leaf_types = gives_iff [OF gives_leaf(1)] gives_iff [OF gives_leaf(2)] gives_iff [OF gives_leaf(3)]
  gives_iff [OF gives_leaf(4)] gives_iff [OF gives_leaf(5)] gives_iff [OF gives_leaf(6)] gives_iff [OF gives_leaf(7)]
  gives_iff [OF gives_leaf(9)] gives_optional [OF gives_leaf(1)] gives_optional [OF gives_leaf(2)]
  gives_optional [OF gives_leaf(3)] gives_optional [OF gives_leaf(4)] gives_optional [OF gives_leaf(6)]
  gives_optional [OF gives_leaf(8)] gives_optional [OF gives_leaf(10)] gives_iff [OF gives_url(1)] gives_iff [OF gives_url(2)]

section \<open>Inline nodes\<close>

lemma inline_member_gives:
  assumes "url_pure env"
  shows "gives textNodeSchema (valid_inline env) v"
    "gives inlineCodeNodeSchema (valid_inline env) v"
    "gives (resolvedPageReferenceSchema env) (valid_inline env) v"
    "gives unresolvedPageReferenceSchema (valid_inline env) v"
    "gives (pageAnchorReferenceNodeSchema env) (valid_inline env) v"
    "gives (externalLinkNodeSchema env) (valid_inline env) v"
    "gives (entityReferenceNodeSchema env) (valid_inline env) v"
    "gives (claimReferenceNodeSchema env) (valid_inline env) v"
    "gives (citationReferenceNodeSchema env) (valid_inline env) v"
    "gives mathNodeSchema (valid_inline env) v"
    "gives (mentionNodeSchema env) (valid_inline env) v"
    "gives (dateMentionNodeSchema env) (valid_inline env) v"
  unfolding inline_schema_defs
  by (rule givesI, clarsimp simp: assms strict_object_Some req_def opt_def leaf_types)+

lemma inline_gives: "url_pure env \<Longrightarrow> gives (inlineNodeSchema env) (valid_inline env) v"
  unfolding inlineNodeSchema_def pageReferenceNodeSchema_def
  by (intro gives_union ballI) (auto simp: inline_member_gives intro!: gives_union)

lemma inlines_give: "url_pure env \<Longrightarrow> gives (z_array (inlineNodeSchema env)) (list_all (valid_inline env)) v"
  by (rule gives_array) (rule inline_gives)

section \<open>Blocks\<close>

definition kids_typed :: "zenv \<Rightarrow> fields \<Rightarrow> bool" where
  "kids_typed env fs \<longleftrightarrow> (\<forall>w. size w < size (JObj fs) \<longrightarrow> gives (blockSchema env) (valid_block env) w)"

lemma gives_array_field:
  assumes "\<And>w. size w < size (JObj fs) \<Longrightarrow> gives S P w"
  shows "gives (z_array S) (list_all P) (getp fs k)"
  using assms size_getp_arr_less [of fs k] by (intro gives_array) (auto split: jsval.splits)

lemma kids_give:
  assumes "kids_typed env fs"
  shows "gives (z_array (blockSchema env)) (list_all (valid_block env)) (getp fs k)"
    "gives (z_array (listItemBlockSchema env (blockSchema env)))
       (list_all (\<lambda>b. valid_block env b \<and> kind_of b = ''list_item'')) (getp fs k)"
    "gives (z_array (tableRowBlockSchema env (blockSchema env)))
       (list_all (\<lambda>b. valid_block env b \<and> kind_of b = ''table_row'')) (getp fs k)"
    "gives (z_array (tableCellBlockSchema env (blockSchema env)))
       (list_all (\<lambda>b. valid_block env b \<and> kind_of b = ''table_cell'')) (getp fs k)"
    "gives (z_array (columnBlockSchema env (blockSchema env)))
       (list_all (\<lambda>b. valid_block env b \<and> kind_of b = ''column'')) (getp fs k)"
  by (rule gives_array_field, use assms in \<open>auto simp: kids_typed_def intro!: gives_mono dest: blockSchema_member\<close>)+

lemma breadcrumb_gives:
  "gives (z_array (breadcrumbItemSchema env))
     (list_all (\<lambda>p. pred_option (z_uuid env) (fst p) \<and> len_in 1 255 (snd p))) v"
  unfolding breadcrumbItemSchema_def
  by (rule gives_array, rule givesI) (clarsimp simp: strict_object_Some req_def opt_def leaf_types)

lemma kids_typed_smaller: "kids_typed env fs \<Longrightarrow> size w < size (JObj fs) \<Longrightarrow>
   case w of JObj gs \<Rightarrow> kids_typed env gs | _ \<Rightarrow> True"
  by (cases w) (auto simp: kids_typed_def)

lemmas type_simps = if_None_Some strict_object_Some req_def opt_def leaf_types
  gives_iff [OF kids_give(1)] gives_iff [OF kids_give(2)] gives_iff [OF kids_give(3)]
  gives_iff [OF kids_give(4)] gives_iff [OF kids_give(5)] gives_optional [OF kids_give(1)]
  gives_iff [OF inlines_give] gives_iff [OF breadcrumb_gives]
  list_max_def list_min_def z_refine_Some len_in_def

lemma action_member_gives:
  assumes "url_pure env" "case v of JObj fs \<Rightarrow> kids_typed env fs | _ \<Rightarrow> True"
  defines "V \<equiv> \<lambda>a. valid_action env (map_button_action (valid_block env) a)"
  shows "gives (buttonInsertBlocksActionSchema env (blockSchema env)) V v"
    "gives (buttonUpdateRecordActionSchema env) V v"
    "gives buttonNotificationActionSchema V v"
    "gives (buttonWebhookActionSchema env) V v"
  unfolding buttonInsertBlocksActionSchema_def buttonUpdateRecordActionSchema_def
    buttonNotificationActionSchema_def buttonWebhookActionSchema_def V_def
  by (rule givesI, use assms(2) in \<open>clarsimp simp: assms(1) type_simps list.pred_map comp_def\<close>)+

lemma actions_give:
  assumes "url_pure env" "kids_typed env fs"
  shows "gives (z_array (buttonActionSchema env (blockSchema env)))
     (list_all (\<lambda>a. valid_action env (map_button_action (valid_block env) a))) (getp fs k)"
proof (rule gives_array_field)
  fix w :: jsval assume "size w < size (JObj fs)"
  with assms(2) have "case w of JObj gs \<Rightarrow> kids_typed env gs | _ \<Rightarrow> True" by (rule kids_typed_smaller)
  then show "gives (buttonActionSchema env (blockSchema env))
      (\<lambda>a. valid_action env (map_button_action (valid_block env) a)) w"
    unfolding buttonActionSchema_def
    by (intro gives_union) (simp add: action_member_gives assms(1))
qed

lemma nested_member_gives:
  assumes "url_pure env" "case v of JObj fs \<Rightarrow> kids_typed env fs | _ \<Rightarrow> True"
  shows
    "gives (listItemBlockSchema env (blockSchema env)) (valid_block env) v"
    "gives (tableCellBlockSchema env (blockSchema env)) (valid_block env) v"
    "gives (columnBlockSchema env (blockSchema env)) (valid_block env) v"
  unfolding listItemBlockSchema_def tableCellBlockSchema_def columnBlockSchema_def
  by (rule givesI, use assms(2) in \<open>clarsimp simp: assms(1) type_simps gives_iff [OF actions_give] comp_def\<close>)+

lemma table_row_gives:
  assumes "url_pure env" "case v of JObj fs \<Rightarrow> kids_typed env fs | _ \<Rightarrow> True"
  shows
    "gives (tableRowBlockSchema env (blockSchema env)) (valid_block env) v"
  unfolding tableRowBlockSchema_def
  by (rule givesI, use assms(2) in \<open>clarsimp simp: assms(1) type_simps gives_iff [OF actions_give] comp_def\<close>)+

lemma outer_member_gives:
  assumes "url_pure env" "case v of JObj fs \<Rightarrow> kids_typed env fs | _ \<Rightarrow> True"
  shows
    "gives (headingBlockSchema env (blockSchema env)) (valid_block env) v"
    "gives (paragraphBlockSchema env) (valid_block env) v"
    "gives (bulletListBlockSchema env (blockSchema env)) (valid_block env) v"
    "gives (orderedListBlockSchema env (blockSchema env)) (valid_block env) v"
    "gives (tableBlockSchema env (blockSchema env)) (valid_block env) v"
    "gives (codeBlockSchema env) (valid_block env) v"
    "gives (preformattedBlockSchema env) (valid_block env) v"
    "gives (equationBlockSchema env) (valid_block env) v"
    "gives (todoBlockSchema env (blockSchema env)) (valid_block env) v"
    "gives (toggleBlockSchema env (blockSchema env)) (valid_block env) v"
    "gives (breadcrumbBlockSchema env) (valid_block env) v"
    "gives (columnListBlockSchema env (blockSchema env)) (valid_block env) v"
    "gives (buttonBlockSchema env (blockSchema env)) (valid_block env) v"
    "gives (htmlBlockSchema env) (valid_block env) v"
    "gives (quoteBlockSchema env (blockSchema env)) (valid_block env) v"
    "gives (calloutBlockSchema env (blockSchema env)) (valid_block env) v"
    "gives (componentBlockSchema env) (valid_block env) v"
    "gives (imageBlockSchema env) (valid_block env) v"
    "gives (videoBlockSchema env) (valid_block env) v"
    "gives (audioBlockSchema env) (valid_block env) v"
    "gives (fileBlockSchema env) (valid_block env) v"
    "gives (pdfBlockSchema env) (valid_block env) v"
    "gives (bookmarkBlockSchema env) (valid_block env) v"
    "gives (linkPreviewBlockSchema env) (valid_block env) v"
    "gives (embedBlockSchema env) (valid_block env) v"
    "gives (dividerBlockSchema env) (valid_block env) v"
  unfolding outer_schema_defs
  by (rule givesI, use assms(2) in \<open>clarsimp simp: assms(1) type_simps gives_iff [OF actions_give] comp_def\<close>)+

lemma block_gives:
  assumes "url_pure env"
  shows "gives (blockSchema env) (valid_block env) v"
proof (induction v rule: measure_induct_rule [of size])
  case (less v)
  have "case v of JObj fs \<Rightarrow> kids_typed env fs | _ \<Rightarrow> True"
    using less by (cases v) (simp_all add: kids_typed_def)
  note members = nested_member_gives [OF assms this] table_row_gives [OF assms this] outer_member_gives [OF assms this]
  have "gives (block_union env (blockSchema env)) (valid_block env) v"
    unfolding block_union_def by (rule gives_union) (simp only: list.set ball_simps members simp_thms)
  then show ?case by (simp only: gives_def blockSchema.simps [of env v])
qed

lemma document_gives:
  assumes "url_pure env" "parseDocument env v = Some d"
  shows "valid_document env d"
proof -
  from assms(2) obtain fs where "z_array (blockSchema env) (getp fs (js ''children'')) = Some d"
    by (auto simp: parseDocument_def documentSchema_def strict_object_Some req_def)
  with gives_array [of "getp fs (js ''children'')" "blockSchema env" "valid_block env"] block_gives [OF assms(1)]
  show ?thesis by (simp add: gives_def valid_document_def)
qed

text \<open>C2: whatever value it is given, \<open>parseDocument\<close> returns a document that satisfies every constraint
  of the schema at every depth: ids are UUIDs, links http(s), lengths and numbers within their bounds, lists hold
  list items, tables rows of cells, column lists two to five columns, and only toggleable headings have children.\<close>

theorem parseDocument_typed:
  assumes "url_pure env" "parseDocument env v = Some d"
  shows "valid_document env d"
  using assms by (rule document_gives)

lemma parseDocument_typed_witness: "valid_document sample_env [Divider sample_id]"
  by (rule parseDocument_typed [OF sample_env_pure sample_input_parses])

end
