(* ===== verification/Toc.thy ===== *)
theory Toc
  imports Ast
begin

text \<open>
  \<open>lib/ast/toc.ts\<close>: the table of contents of a document, and the numbering of its entries.
  The array \<open>counters\<close> of seven numbers is a list of naturals; heading levels are 1 to 6, so
  its index is never out of range.
\<close>

section \<open>Entries\<close>

record toc_entry =
  toc_id :: jstr
  toc_level :: int
  toc_text :: jstr
  position_key :: "jstr option"

text \<open>A citation without display text joins as the empty string, as undefined does in \<open>join\<close>.\<close>

fun inline_text :: "inline \<Rightarrow> jstr" where
  "inline_text (Text t _ _ _) = t"
| "inline_text (InlineCode t) = t"
| "inline_text (PageReference _ _ d) = d"
| "inline_text (UnresolvedReference _ t _) = t"
| "inline_text (PageAnchorReference _ _ d) = d"
| "inline_text (ExternalLink _ d) = d"
| "inline_text (EntityReference _ d) = d"
| "inline_text (ClaimReference _ d) = d"
| "inline_text (CitationReference _ d) = (case d of None \<Rightarrow> [] | Some t \<Rightarrow> t)"
| "inline_text (Mention _ d) = d"
| "inline_text (DateMention _ _ d) = d"
| "inline_text (Math e) = e"

definition inlineToPlainText :: "inline list \<Rightarrow> jstr" where
  "inlineToPlainText nodes = concat (map inline_text nodes)"

fun collect_block :: "block \<Rightarrow> toc_entry list" where
  "collect_block b =
     (case b of
        Heading i l t c k \<Rightarrow> [\<lparr>toc_id = i, toc_level = l, toc_text = inlineToPlainText c, position_key = None\<rparr>]
      | _ \<Rightarrow> []) @
     concat (map collect_block (block_children b))"

declare collect_block.simps [simp del]

definition collectHeadings :: "block list \<Rightarrow> toc_entry list" where
  "collectHeadings bs = concat (map collect_block bs)"

section \<open>Numbering\<close>

definition bump :: "nat list \<Rightarrow> nat \<Rightarrow> nat list" where
  "bump cs l = fold (\<lambda>i cs. cs[i := 0]) [l + 1 ..< 7] (cs[l := cs ! l + 1])"

definition key_of :: "nat list \<Rightarrow> nat \<Rightarrow> jstr" where
  "key_of cs l = join (js ''.'') (map nat_str (filter (\<lambda>v. 0 < v) (slice 1 (l + 1) cs)))"

fun number_entries :: "nat list \<Rightarrow> toc_entry list \<Rightarrow> toc_entry list" where
  "number_entries cs [] = []"
| "number_entries cs (e # es) =
     (let l = nat (toc_level e); cs' = bump cs l
      in e\<lparr>position_key := Some (key_of cs' l)\<rparr> # number_entries cs' es)"

definition extractToc :: "document \<Rightarrow> toc_entry list" where
  "extractToc d = number_entries (replicate 7 0) (collectHeadings d)"

section \<open>The entries are the headings in document order\<close>

definition heading_entry :: "block \<Rightarrow> (jstr \<times> int \<times> jstr) list" where
  "heading_entry b = (case b of Heading i l t c k \<Rightarrow> [(i, l, inlineToPlainText c)] | _ \<Rightarrow> [])"

definition entry_data :: "toc_entry \<Rightarrow> jstr \<times> int \<times> jstr" where
  "entry_data e = (toc_id e, toc_level e, toc_text e)"

lemma concat_concat: "concat (concat (map f xs)) = concat (map (\<lambda>x. concat (f x)) xs)"
  by (induction xs) auto

lemma collect_block_preorder: "map entry_data (collect_block b) = concat (map heading_entry (preorder b))"
proof (induction b rule: collect_block.induct)
  case (1 b)
  have "map entry_data (concat (map collect_block (block_children b))) =
        concat (map heading_entry (concat (map preorder (block_children b))))"
    using 1 by (simp add: map_concat comp_def concat_concat cong: map_cong)
  then show ?case
    by (subst collect_block.simps, subst preorder.simps)
      (simp add: heading_entry_def entry_data_def split: block.split)
qed

lemma number_entries_data: "map entry_data (number_entries cs es) = map entry_data es"
  by (induction es arbitrary: cs) (auto simp: Let_def entry_data_def)

lemma toc_headings: "map entry_data (extractToc d) = concat (map heading_entry (all_blocks d))"
  by (simp add: extractToc_def number_entries_data collectHeadings_def all_blocks_def map_concat comp_def
      collect_block_preorder concat_concat)

text \<open>C18: the table of contents lists exactly the headings of the document, at any depth, in document
  order, each with its id, level and plain text.\<close>

theorem extractToc_headings:
  "map entry_data (extractToc d) = concat (map heading_entry (all_blocks d))"
  by (rule toc_headings)

section \<open>Position keys\<close>

text \<open>
  The numbering that position keys are meant to be: a heading opens the next number of its level
  and drops the deeper ones. Where no level is skipped the counters hold exactly this path.
\<close>

definition next_path :: "nat list \<Rightarrow> nat \<Rightarrow> nat list" where
  "next_path p l = (if length p < l then p @ [1] else take (l - 1) p @ [p ! (l - 1) + 1])"

fun no_skip :: "int \<Rightarrow> int list \<Rightarrow> bool" where
  "no_skip prev [] \<longleftrightarrow> True"
| "no_skip prev (l # ls) \<longleftrightarrow> 1 \<le> l \<and> l \<le> 6 \<and> l \<le> prev + 1 \<and> no_skip l ls"

fun paths :: "nat list \<Rightarrow> nat list \<Rightarrow> nat list list" where
  "paths p [] = []"
| "paths p (l # ls) = next_path p l # paths (next_path p l) ls"

definition counters_of :: "nat list \<Rightarrow> nat list" where
  "counters_of p = 0 # p @ replicate (6 - length p) 0"

lemma fold_zero:
  "l + 1 \<le> m \<Longrightarrow> m \<le> length cs \<Longrightarrow> fold (\<lambda>i cs. cs[i := 0]) [l + 1 ..< m] cs =
     take (l + 1) cs @ replicate (m - (l + 1)) (0::nat) @ drop m cs"
proof (induction m)
  case 0
  then show ?case by simp
next
  case (Suc m)
  show ?case
  proof (cases "l + 1 \<le> m")
    case True
    with Suc have IH: "fold (\<lambda>i cs. cs[i := 0]) [l + 1 ..< m] cs = take (l + 1) cs @ replicate (m - (l + 1)) 0 @ drop m cs"
      by simp
    have d: "drop m cs = cs ! m # drop (Suc m) cs"
      using Suc.prems by (simp add: Cons_nth_drop_Suc)
    have r: "replicate (Suc m - (l + 1)) (0::nat) = replicate (m - (l + 1)) 0 @ [0]"
      using Suc_diff_le [OF True] by (simp only: replicate_Suc replicate_append_same)
    have len: "length (take (l + 1) cs @ replicate (m - (l + 1)) 0) = m"
      using True Suc.prems by simp
    have *: "(take (l + 1) cs @ replicate (m - (l + 1)) 0 @ cs ! m # drop (Suc m) cs)[m := 0] =
          take (l + 1) cs @ replicate (m - (l + 1)) 0 @ 0 # drop (Suc m) cs"
      using len by (metis append_assoc list_update_length)
    show ?thesis
      using True * by (simp only: upt_Suc_append fold_append comp_def IH fold.simps id_apply d r append_assoc append.simps)
  next
    case False
    with Suc.prems have "m = l" by simp
    then show ?thesis by simp
  qed
qed

lemma bump_counters:
  assumes "length p \<le> 6" "1 \<le> l" "l \<le> 6" "l \<le> length p + 1"
  shows "bump (counters_of p) l = counters_of (next_path p l)" "length (next_path p l) = l"
proof -
  show len: "length (next_path p l) = l"
    using assms by (auto simp: next_path_def)
  let ?cs = "counters_of p"
  have lcs: "length ?cs = 7" using assms(1) by (simp add: counters_of_def)
  have "bump ?cs l = take (l + 1) (?cs[l := ?cs ! l + 1]) @ replicate (7 - (l + 1)) 0"
    using fold_zero [of l 7 "?cs[l := ?cs ! l + 1]"] assms(3) lcs by (simp add: bump_def)
  also have "take (l + 1) (?cs[l := ?cs ! l + 1]) = take l ?cs @ [?cs ! l + 1]"
    using assms(3) lcs by (simp add: take_Suc_conv_app_nth)
  also have "\<dots> = 0 # next_path p l"
  proof (cases "length p < l")
    case True
    with assms(4) have l: "l = length p + 1" by simp
    with assms have "?cs ! l = 0" by (simp add: counters_of_def nth_append)
    with l show ?thesis by (simp add: counters_of_def next_path_def)
  next
    case False
    obtain k where k: "l = Suc k" using assms(2) by (cases l) auto
    with False have "?cs ! l = p ! k" "take l ?cs = 0 # take k p"
      by (simp_all add: counters_of_def nth_append)
    with False k show ?thesis by (simp add: next_path_def)
  qed
  finally show "bump ?cs l = counters_of (next_path p l)"
    using len assms(3) by (simp add: counters_of_def)
qed

lemma next_path_pos:
  "\<forall>x \<in> set p. 0 < x \<Longrightarrow> \<forall>x \<in> set (next_path p l). 0 < x"
  by (auto simp: next_path_def dest: in_set_takeD)

definition path_key :: "nat list \<Rightarrow> jstr" where
  "path_key p = join (js ''.'') (map nat_str p)"

lemma key_of_counters: "\<forall>x \<in> set p. 0 < x \<Longrightarrow> key_of (counters_of p) (length p) = path_key p"
  by (simp add: key_of_def path_key_def counters_of_def slice_def)

lemma keys_are_paths:
  assumes "no_skip (int (length p)) (map toc_level es)" "length p \<le> 6" "\<forall>x \<in> set p. 0 < x"
  shows "map position_key (number_entries (counters_of p) es) =
         map (\<lambda>q. Some (path_key q)) (paths p (map (\<lambda>e. nat (toc_level e)) es))"
  using assms
proof (induction es arbitrary: p)
  case Nil
  then show ?case by simp
next
  case (Cons e es)
  define l where "l = nat (toc_level e)"
  from Cons.prems have l: "1 \<le> l" "l \<le> 6" "l \<le> length p + 1" and le: "toc_level e = int l"
    by (auto simp: l_def)
  note b = bump_counters [OF Cons.prems(2) l]
  have pos: "\<forall>x \<in> set (next_path p l). 0 < x" by (rule next_path_pos [OF Cons.prems(3)])
  have "map position_key (number_entries (counters_of (next_path p l)) es) =
        map (\<lambda>q. Some (path_key q)) (paths (next_path p l) (map (\<lambda>e. nat (toc_level e)) es))"
    using Cons.prems(1) le b(2) l(2) pos by (intro Cons.IH) auto
  then show ?case
    using key_of_counters [OF pos] b by (simp add: l_def Let_def)
qed

lemma next_path_less: "l \<le> length p + 1 \<Longrightarrow> 1 \<le> l \<Longrightarrow> p < next_path p l"
proof (cases "length p < l")
  case True
  have "p < p @ [x]" for x :: nat by (induction p) auto
  with True show ?thesis by (simp add: next_path_def)
next
  case False
  assume l: "1 \<le> l"
  define k where "k = l - 1"
  have k: "k < length p" using False l by (simp add: k_def)
  have aux: "u @ (x :: nat) # v < u @ [x + 1]" for u x v by (induction u) auto
  have "p = take k p @ p ! k # drop (Suc k) p" using k by (simp add: id_take_nth_drop)
  then show ?thesis using aux [of "take k p" "p ! k" "drop (Suc k) p"] False by (simp add: next_path_def k_def)
qed

lemma paths_sorted:
  assumes "no_skip (int (length p)) ls" "length p \<le> 6"
  shows "sorted_wrt (<) (p # paths p (map nat ls))"
  using assms
proof (induction ls arbitrary: p)
  case Nil
  then show ?case by simp
next
  case (Cons l ls)
  then have l: "1 \<le> nat l" "nat l \<le> 6" "nat l \<le> length p + 1" by auto
  note b = bump_counters(2) [OF Cons.prems(2) l]
  have "sorted_wrt (<) (next_path p (nat l) # paths (next_path p (nat l)) (map nat ls))"
    using Cons.prems b l by (intro Cons.IH) auto
  moreover have "p < next_path p (nat l)" by (rule next_path_less [OF l(3,1)])
  ultimately show ?case by fastforce
qed

lemma join_dots_inject:
  assumes "\<forall>s \<in> set ss. s \<noteq> [] \<and> ch CHR ''.'' \<notin> set s" "\<forall>t \<in> set ts. t \<noteq> [] \<and> ch CHR ''.'' \<notin> set t"
    "join (js ''.'') ss = join (js ''.'') ts"
  shows "ss = ts"
proof -
  have split: "split_cu (ch CHR ''.'') (join (js ''.'') us) = us"
    if "us \<noteq> []" "\<forall>s \<in> set us. ch CHR ''.'' \<notin> set s" for us
    using that
  proof (induction us rule: induct_list012)
    case (3 x y zs)
    then show ?case by (simp add: js_def split_cu_at)
  qed (simp_all add: split_cu_no)
  have empty: "us = [] \<longleftrightarrow> join (js ''.'') us = []" if "\<forall>s \<in> set us. s \<noteq> []" for us
    using that by (cases us rule: remdups_adj.cases) auto
  show ?thesis
    using assms split [of ss] split [of ts] empty [of ss] empty [of ts] by (cases "ss = []") auto
qed

lemma path_key_inject: "path_key p = path_key q \<longleftrightarrow> p = q"
proof
  assume eq: "path_key p = path_key q"
  have nodot: "s \<noteq> [] \<and> ch CHR ''.'' \<notin> set s" if "s \<in> set (map nat_str p)" for s and p :: "nat list"
    using that is_digit_nat_str [of "ch CHR ''.''"] by (auto simp: is_digit_def js_eval)
  have "map nat_str p = map nat_str q"
    using eq nodot by (intro join_dots_inject) (auto simp: path_key_def)
  then show "p = q" by (simp add: inj_map_eq_map inj_def)
qed simp

text \<open>In a document whose headings start at level 1 and go at most one level deeper at a time, the
  position keys of the entries are distinct; each is the numbering path of its heading.\<close>

theorem position_keys_distinct:
  assumes "no_skip 0 (map toc_level (collectHeadings d))"
  shows "distinct (map position_key (extractToc d)) \<and>
    map position_key (extractToc d) =
      map (\<lambda>q. Some (path_key q)) (paths [] (map (\<lambda>e. nat (toc_level e)) (collectHeadings d)))"
proof -
  have init: "counters_of [] = replicate 7 0" by (simp add: counters_of_def numeral_eq_Suc)
  have keys: "map position_key (extractToc d) =
      map (\<lambda>q. Some (path_key q)) (paths [] (map (\<lambda>e. nat (toc_level e)) (collectHeadings d)))"
    using keys_are_paths [of "[]" "collectHeadings d"] assms by (simp add: extractToc_def init)
  have "sorted_wrt (<) ([] # paths [] (map nat (map toc_level (collectHeadings d))))"
    using assms by (intro paths_sorted) simp_all
  then have "distinct (paths [] (map (\<lambda>e. nat (toc_level e)) (collectHeadings d)))"
    by (simp add: comp_def strict_sorted_iff)
  then show ?thesis
    unfolding keys by (simp add: distinct_map inj_on_def path_key_inject)
qed

lemma position_keys_distinct_witness:
  "distinct (map position_key (extractToc [Heading [] 1 None [] None, Heading [] 2 None [] None]))"
  by (rule conjunct1, rule position_keys_distinct) (simp add: collectHeadings_def collect_block.simps)

text \<open>Where a level is skipped, two headings at different levels can have the same position key:
  levels 1, 3, 2 are numbered 1, 1.1, 1.1.\<close>

theorem skipped_level_shares_key:
  "map position_key (extractToc [Heading i 1 None [] None, Heading j 3 None [] None, Heading k 2 None [] None]) =
   [Some (js ''1''), Some (js ''1.1''), Some (js ''1.1'')]"
  by (simp add: extractToc_def collectHeadings_def collect_block.simps bump_def key_of_def slice_def
      numeral_eq_Suc upt_rec nat_str_def digits.simps digit_cu_def js_eval)

end
