(* ===== verification/EditorIds.thy ===== *)
theory EditorIds
  imports Prelude
begin

text \<open>
  \<open>lib/editor/ids.ts\<close>: block ids for editor nodes. The package \<open>uuid\<close> is not code of the
  repository: its \<open>validate\<close>, \<open>version\<close> (None where it throws) and successive \<open>v7()\<close>
  results are the fields of \<open>id_env\<close>. The state of an adapter session is the map of the ids it
  has generated and the number of ids drawn so far.
\<close>

record id_env =
  uuid_validate :: "jstr \<Rightarrow> bool"
  uuid_version :: "jstr \<Rightarrow> nat option"
  uuid_v7 :: "nat \<Rightarrow> jstr"

record adapter =
  generatedIds :: "(jstr \<times> jstr) list"
  drawn :: nat

definition isUuidV7 :: "'a id_env_scheme \<Rightarrow> jstr \<Rightarrow> bool" where
  "isUuidV7 env i \<longleftrightarrow> uuid_validate env i \<and> uuid_version env i = Some 7"

definition newBlockId :: "'a id_env_scheme \<Rightarrow> adapter \<Rightarrow> jstr \<times> adapter" where
  "newBlockId env st = (uuid_v7 env (drawn st), st\<lparr>drawn := drawn st + 1\<rparr>)"

definition createAdapterState :: adapter where
  "createAdapterState = \<lparr>generatedIds = [], drawn = 0\<rparr>"

definition resolveBlockId :: "'a id_env_scheme \<Rightarrow> jstr \<Rightarrow> adapter \<Rightarrow> jstr \<times> adapter" where
  "resolveBlockId env k st =
     (if isUuidV7 env k then (k, st)
      else case map_of (generatedIds st) k of
        Some i \<Rightarrow> if i = [] then
            (let (j, st') = newBlockId env st in (j, st'\<lparr>generatedIds := assoc_put k j (generatedIds st')\<rparr>))
          else (i, st)
      | None \<Rightarrow> (let (j, st') = newBlockId env st in (j, st'\<lparr>generatedIds := assoc_put k j (generatedIds st')\<rparr>)))"

text \<open>What \<open>uuid\<close> documents of \<open>v7()\<close>: its results are version 7 UUIDs, and no two are equal.\<close>

definition v7_supply :: "'a id_env_scheme \<Rightarrow> bool" where
  "v7_supply env \<longleftrightarrow> (\<forall>n. isUuidV7 env (uuid_v7 env n)) \<and> inj (uuid_v7 env) \<and> \<not> isUuidV7 env []"

text \<open>
  The invariant of a session: every generated id is one of the ids drawn so far, no two keys
  share one, and keys are not UUIDs themselves.
\<close>

definition adapter_ok :: "'a id_env_scheme \<Rightarrow> adapter \<Rightarrow> bool" where
  "adapter_ok env st \<longleftrightarrow>
     distinct (map fst (generatedIds st)) \<and> distinct (map snd (generatedIds st)) \<and>
     (\<forall>(k, i) \<in> set (generatedIds st). \<not> isUuidV7 env k \<and> (\<exists>n < drawn st. i = uuid_v7 env n))"

lemma adapter_ok_create [simp]: "adapter_ok env createAdapterState"
  by (simp add: adapter_ok_def createAdapterState_def)

lemma v7_nonempty: "v7_supply env \<Longrightarrow> uuid_v7 env n \<noteq> []"
  by (metis v7_supply_def)

lemma adapter_ok_known:
  assumes "adapter_ok env st" "map_of (generatedIds st) k = Some i"
  obtains n where "i = uuid_v7 env n"
  using assms map_of_SomeD [OF assms(2)] by (auto simp: adapter_ok_def)

lemma adapter_ok_nonempty:
  "v7_supply env \<Longrightarrow> adapter_ok env st \<Longrightarrow> map_of (generatedIds st) k = Some i \<Longrightarrow> i \<noteq> []"
  by (metis adapter_ok_known v7_nonempty)

text \<open>The three ways a call can go.\<close>

lemma resolveBlockId_cases:
  assumes "v7_supply env" "adapter_ok env st"
  obtains (own) "isUuidV7 env k" "resolveBlockId env k st = (k, st)"
    | (known) i where "\<not> isUuidV7 env k" "map_of (generatedIds st) k = Some i" "resolveBlockId env k st = (i, st)"
    | (fresh) "\<not> isUuidV7 env k" "k \<notin> fst ` set (generatedIds st)"
        "resolveBlockId env k st = (uuid_v7 env (drawn st),
           st\<lparr>drawn := drawn st + 1, generatedIds := generatedIds st @ [(k, uuid_v7 env (drawn st))]\<rparr>)"
proof (cases "isUuidV7 env k")
  case True
  then show ?thesis using own by (simp add: resolveBlockId_def)
next
  case False
  show ?thesis
  proof (cases "map_of (generatedIds st) k")
    case None
    then have "k \<notin> fst ` set (generatedIds st)" by (simp add: map_of_eq_None_iff)
    with None False show ?thesis
      using fresh by (simp add: resolveBlockId_def newBlockId_def assoc_put_new)
  next
    case (Some i)
    with False adapter_ok_nonempty [OF assms Some] show ?thesis
      using known by (simp add: resolveBlockId_def)
  qed
qed

lemma adapter_ok_resolve:
  assumes "v7_supply env" "adapter_ok env st"
  shows "adapter_ok env (snd (resolveBlockId env k st))"
  using assms
proof (cases rule: resolveBlockId_cases [where k = k])
  case fresh
  have new: "uuid_v7 env (drawn st) \<noteq> i" if "(j, i) \<in> set (generatedIds st)" for j i
    using assms that by (fastforce simp: adapter_ok_def v7_supply_def inj_eq)
  show ?thesis
    using assms(2) fresh(1,2) new
    by (fastforce simp: fresh(3) adapter_ok_def less_Suc_eq)
qed (use assms in simp_all)

text \<open>C23: an id handed to the AST is always a version 7 UUID, the editor node's own one wherever it has
  one, and asking again for the same node gives the same id; the session invariant is kept.\<close>

theorem resolveBlockId_stable:
  assumes "v7_supply env" "adapter_ok env st" "resolveBlockId env k st = (i, st')"
  shows "isUuidV7 env i \<and> (isUuidV7 env k \<longrightarrow> i = k \<and> st' = st) \<and>
    resolveBlockId env k st' = (i, st') \<and> adapter_ok env st'"
proof -
  have ok: "adapter_ok env st'"
    using adapter_ok_resolve [OF assms(1,2), of k] assms(3) by simp
  from assms(1,2) show ?thesis
  proof (cases rule: resolveBlockId_cases [where k = k])
    case own
    with assms ok show ?thesis by simp
  next
    case (known j)
    with adapter_ok_known [OF assms(2)] assms(1) have "isUuidV7 env j" by (metis v7_supply_def)
    with assms known ok show ?thesis by simp
  next
    case fresh
    then have st': "st' = st\<lparr>drawn := drawn st + 1, generatedIds := generatedIds st @ [(k, uuid_v7 env (drawn st))]\<rparr>"
      and i: "i = uuid_v7 env (drawn st)"
      using assms(3) by simp_all
    have "map_of (generatedIds st') k = Some i"
      using fresh(2) by (simp add: st' i map_of_eq_None_iff [symmetric] map_add_def)
    moreover have "i \<noteq> []" "isUuidV7 env i"
      using assms(1) v7_nonempty [OF assms(1)] by (simp_all add: i v7_supply_def)
    ultimately show ?thesis using fresh(1) ok by (simp add: resolveBlockId_def)
  qed
qed

text \<open>Two different editor nodes without a UUID of their own never share a generated id.\<close>

theorem resolveBlockId_distinct:
  assumes "v7_supply env" "adapter_ok env st" "\<not> isUuidV7 env j" "\<not> isUuidV7 env k" "j \<noteq> k"
    and "resolveBlockId env j st = (a, st')" "resolveBlockId env k st' = (b, st'')"
  shows "a \<noteq> b"
proof -
  have ok': "adapter_ok env st'" and ok'': "adapter_ok env st''"
    using adapter_ok_resolve [OF assms(1,2), of j] adapter_ok_resolve [OF assms(1), of st' k] assms(6,7)
    by simp_all
  have found: "map_of (generatedIds s') l = Some i"
    if "adapter_ok env s" "\<not> isUuidV7 env l" "resolveBlockId env l s = (i, s')" for s l i s'
    using assms(1) that(1)
    by (cases rule: resolveBlockId_cases [where k = l])
      (use that in \<open>auto simp: map_of_eq_None_iff [symmetric] map_add_def\<close>)
  have a: "map_of (generatedIds st') j = Some a" using found assms by blast
  have b: "map_of (generatedIds st'') k = Some b" using found ok' assms by blast
  have "map_of (generatedIds st'') j = Some a"
    using assms(1) ok'
    by (cases rule: resolveBlockId_cases [where k = k])
      (use a assms(4,7) in \<open>auto simp: map_add_def\<close>)
  then have ja: "(j, a) \<in> set (generatedIds st'')" and kb: "(k, b) \<in> set (generatedIds st'')"
    using b by (simp_all add: map_of_SomeD)
  have "inj_on snd (set (generatedIds st''))"
    using ok'' by (simp add: adapter_ok_def distinct_map)
  from inj_onD [OF this _ ja kb] assms(5) show ?thesis by auto
qed

definition sample_ids :: id_env where
  "sample_ids = \<lparr>uuid_validate = (\<lambda>s. s \<noteq> [] \<and> hd s = 55), uuid_version = (\<lambda>_. Some 7),
     uuid_v7 = (\<lambda>n. 55 # replicate n 48)\<rparr>"

lemma sample_ids_supply: "v7_supply sample_ids"
proof -
  have "m = n" if "replicate m (48 :: cu) = replicate n 48" for m n
    using arg_cong [OF that, of length] by simp
  then show ?thesis by (auto simp: v7_supply_def sample_ids_def isUuidV7_def inj_def)
qed

lemma resolveBlockId_stable_witness:
  "resolveBlockId sample_ids (js ''x'')
     \<lparr>generatedIds = [(js ''x'', [55])], drawn = 1\<rparr> = ([55], \<lparr>generatedIds = [(js ''x'', [55])], drawn = 1\<rparr>)"
  by (rule conjunct1 [OF conjunct2 [OF conjunct2 [OF resolveBlockId_stable
        [OF sample_ids_supply adapter_ok_create [of sample_ids]]]]])
    (simp add: resolveBlockId_def newBlockId_def createAdapterState_def sample_ids_def isUuidV7_def js_eval)

lemma resolveBlockId_distinct_witness:
  "fst (resolveBlockId sample_ids (js ''x'') createAdapterState) \<noteq>
   fst (resolveBlockId sample_ids (js ''y'') (snd (resolveBlockId sample_ids (js ''x'') createAdapterState)))"
  by (rule resolveBlockId_distinct [OF sample_ids_supply adapter_ok_create [of sample_ids],
        where j = "js ''x''" and k = "js ''y''"])
    (simp_all add: sample_ids_def isUuidV7_def js_eval prod_eq_iff)

end
