(* ===== verification/FromAst.thy ===== *)
theory FromAst
  imports AstSchema EditorIds
begin

text \<open>
  The editor document (\<open>PMBlock\<close> of \<open>lib/editor/schema.ts\<close>) and the way into it,
  \<open>lib/editor/fromAst.ts\<close>. A node is its \<open>type\<close>, \<open>attrs\<close> (absent is the same as empty
  for every reader), \<open>content\<close>, \<open>text\<close> and \<open>marks\<close>. \<open>JSON.stringify\<close> and \<open>JSON.parse\<close>
  of the host are the fields of \<open>editor_env\<close>, next to the block id functions.
\<close>

record editor_env = id_env +
  json_stringify :: "jsval \<Rightarrow> jstr"
  json_parse :: "jstr \<Rightarrow> jsval option"

datatype pm_node = PM (pm_type: "jstr option") (pm_attrs: fields) (pm_content: "pm_node list option")
  (pm_text: "jstr option") (pm_marks: "(jstr \<times> fields) list option")

section \<open>The table of block types\<close>

definition ast_to_editor_block :: "(string \<times> string) list" where
  "ast_to_editor_block =
    [(''heading'', ''heading''), (''paragraph'', ''paragraph''), (''bullet_list'', ''bulletList''),
     (''ordered_list'', ''orderedList''), (''list_item'', ''listItem''), (''table'', ''astTable''),
     (''table_row'', ''astTableRow''), (''table_cell'', ''astTableCell''), (''code'', ''codeBlock''),
     (''preformatted'', ''preformatted''), (''equation'', ''equation''), (''todo'', ''todoBlock''),
     (''toggle'', ''toggleBlock''), (''breadcrumb'', ''breadcrumb''), (''column_list'', ''columnList''),
     (''column'', ''column''), (''button'', ''pageButton''), (''html'', ''htmlBlock''),
     (''quote'', ''blockquote''), (''callout'', ''callout''), (''component'', ''componentBlock''),
     (''image'', ''imageAsset''), (''video'', ''videoAsset''), (''audio'', ''audioAsset''),
     (''file'', ''fileAsset''), (''pdf'', ''pdfAsset''), (''bookmark'', ''bookmark''),
     (''link_preview'', ''linkPreview''), (''embed'', ''embedBlock''), (''divider'', ''horizontalRule'')]"

section \<open>Inline nodes\<close>

definition mark_to_tiptap :: "(mark \<times> string) list" where
  "mark_to_tiptap = [(Bold, ''bold''), (Italic, ''italic''), (Underline, ''underline''),
     (Strikethrough, ''strike''), (Code, ''code'')]"

definition tiptap_mark :: "mark \<Rightarrow> jstr \<times> fields" where
  "tiptap_mark m = (case map_of mark_to_tiptap m of None \<Rightarrow> ([], []) | Some s \<Rightarrow> (js s, []))"

definition textNode :: "jstr \<Rightarrow> (jstr \<times> fields) list \<Rightarrow> pm_node list" where
  "textNode t ms =
     (if t = [] then []
      else [PM (Some (js ''text'')) [] None (Some t) (if ms \<noteq> [] then Some ms else None)])"

definition atom_node :: "string \<Rightarrow> (string \<times> jsval) list \<Rightarrow> pm_node" where
  "atom_node t attrs = PM (Some (js t)) (map (\<lambda>p. (js (fst p), snd p)) attrs) None None None"

definition or_empty :: "jstr option \<Rightarrow> jsval" where
  "or_empty s = JStr (case s of None \<Rightarrow> [] | Some t \<Rightarrow> t)"

fun inlineToTiptap :: "inline \<Rightarrow> pm_node list" where
  "inlineToTiptap (Text t ms c g) = textNode t
     (map tiptap_mark (case ms of None \<Rightarrow> [] | Some ms \<Rightarrow> ms) @
      (case c of None \<Rightarrow> [] | Some c \<Rightarrow> [(js ''textColor'', [(js ''color'', encode_enum inline_colors c)])]) @
      (case g of None \<Rightarrow> [] | Some g \<Rightarrow> [(js ''backgroundColor'', [(js ''color'', encode_enum inline_colors g)])]))"
| "inlineToTiptap (InlineCode t) = textNode t [(js ''inlineCode'', [])]"
| "inlineToTiptap (ExternalLink u d) = textNode d [(js ''link'', [(js ''href'', JStr u)])]"
| "inlineToTiptap (UnresolvedReference n t e) = [atom_node ''pageReference''
     [(''targetPageId'', JStr []), (''targetHeadingBlockId'', JStr []), (''displayText'', JStr []),
      (''resolutionStatus'', JStr (js ''unresolved'')), (''targetNamespace'', JStr n),
      (''normalizedTitle'', JStr t), (''expectedEntityType'', or_empty e)]]"
| "inlineToTiptap (PageReference p h d) = [atom_node ''pageReference''
     [(''targetPageId'', JStr p), (''targetHeadingBlockId'', or_empty h), (''displayText'', JStr d),
      (''resolutionStatus'', JStr []), (''targetNamespace'', JStr []),
      (''normalizedTitle'', JStr []), (''expectedEntityType'', JStr [])]]"
| "inlineToTiptap (PageAnchorReference p h d) = [atom_node ''pageAnchorReference''
     [(''targetPageId'', JStr p), (''targetHeadingBlockId'', JStr h), (''displayText'', JStr d)]]"
| "inlineToTiptap (EntityReference e d) = [atom_node ''entityReference''
     [(''entityId'', JStr e), (''displayText'', JStr d)]]"
| "inlineToTiptap (ClaimReference c d) = [atom_node ''claimReference''
     [(''claimId'', JStr c), (''displayText'', JStr d)]]"
| "inlineToTiptap (CitationReference c d) = [atom_node ''citationReference''
     [(''citationId'', JStr c), (''displayText'', or_empty d)]]"
| "inlineToTiptap (Math e) = [atom_node ''mathInline'' [(''expression'', JStr e)]]"
| "inlineToTiptap (Mention a d) = [atom_node ''mention'' [(''actorId'', JStr a), (''displayText'', JStr d)]]"
| "inlineToTiptap (DateMention a e d) = [atom_node ''dateMention''
     [(''date'', JStr a), (''endDate'', or_empty e), (''displayText'', JStr d)]]"

definition inlinesToTiptap :: "inline list \<Rightarrow> pm_node list" where
  "inlinesToTiptap nodes = concat (map inlineToTiptap nodes)"

section \<open>Blocks\<close>

text \<open>A node with attributes and, for containers, content.\<close>

definition block_node :: "string \<Rightarrow> (string \<times> jsval) list \<Rightarrow> pm_node list \<Rightarrow> pm_node" where
  "block_node t attrs content =
     PM (Some (js t)) (map (\<lambda>p. (js (fst p), snd p)) attrs) (Some content) None None"

definition paragraphFromInline :: "jstr option \<Rightarrow> inline list \<Rightarrow> pm_node" where
  "paragraphFromInline i c =
     block_node ''paragraph'' [(''id'', optv JStr i)] (inlinesToTiptap c)"

definition textBlock :: "string \<Rightarrow> jstr \<Rightarrow> inline list \<Rightarrow> (string \<times> jsval) list \<Rightarrow> pm_node" where
  "textBlock t i c attrs = block_node t ((''id'', JStr i) # attrs) (inlinesToTiptap c)"

definition textContent :: "jstr \<Rightarrow> pm_node list" where
  "textContent t = textNode t []"

definition enc_actions :: "block button_action list \<Rightarrow> jsval" where
  "enc_actions as = JArr (map (\<lambda>a. encode_button_action (map_button_action encode_block a)) as)"

definition flag :: "bool option \<Rightarrow> jsval" where
  "flag b = JBool (b = Some True)"

definition kids :: "block list option \<Rightarrow> block list" where
  "kids k = (case k of None \<Rightarrow> [] | Some bs \<Rightarrow> bs)"

lemma kids_simps [simp]: "kids None = []" "kids (Some bs) = bs"
  by (simp_all add: kids_def)

lemma size_kids [termination_simp]: "b \<in> set (kids k) \<Longrightarrow> size b < Suc (size_option (size_list size) k)"
  by (cases k) (auto dest: size_mem_le)

text \<open>
  \<open>blocksToTiptap\<close> on a list is \<open>concat (map ...)\<close>. A list's items are list items, which
  \<open>listItemToTiptap\<close> and the \<open>list_item\<close> case turn into the same single node.
\<close>

fun blockToTiptap :: "editor_env \<Rightarrow> block \<Rightarrow> pm_node list" where
  "blockToTiptap env (Heading i l t c k) =
     textBlock ''heading'' i c [(''level'', encode_int l)] #
     (if kids k \<noteq> [] then concat (map (blockToTiptap env) (kids k)) else [])"
| "blockToTiptap env (Paragraph i c) = [paragraphFromInline (Some i) c]"
| "blockToTiptap env (BulletList i k) =
     [block_node ''bulletList'' [(''id'', JStr i)] (concat (map (blockToTiptap env) k))]"
| "blockToTiptap env (OrderedList i k) =
     [block_node ''orderedList'' [(''id'', JStr i)] (concat (map (blockToTiptap env) k))]"
| "blockToTiptap env (ListItem i k) =
     [block_node ''listItem'' [(''id'', JStr i)] (concat (map (blockToTiptap env) k))]"
| "blockToTiptap env (Todo i d c k) =
     [block_node ''todoBlock'' [(''id'', JStr i), (''checked'', JBool d)]
        (paragraphFromInline None c # concat (map (blockToTiptap env) (kids k)))]"
| "blockToTiptap env (Toggle i c k) =
     [block_node ''toggleBlock'' [(''id'', JStr i), (''summaryJson'', JStr (json_stringify env (encode_inlines c)))]
        (concat (map (blockToTiptap env) (kids k)))]"
| "blockToTiptap env (Quote i k) =
     [block_node ''blockquote'' [(''id'', JStr i)] (concat (map (blockToTiptap env) k))]"
| "blockToTiptap env (Callout i kd ic co k) =
     [block_node ''callout'' [(''id'', JStr i), (''kind'', encode_enum callout_kinds kd), (''icon'', or_empty ic),
        (''color'', case co of None \<Rightarrow> JStr (js ''default'') | Some c \<Rightarrow> encode_enum callout_colors c)]
        (concat (map (blockToTiptap env) k))]"
| "blockToTiptap env (CodeBlock i c l cap) =
     [block_node ''codeBlock'' [(''id'', JStr i), (''language'', or_empty l), (''caption'', or_empty cap)] (textContent c)]"
| "blockToTiptap env (Preformatted i k c cap) =
     [atom_node ''preformatted'' [(''id'', JStr i), (''kind'', encode_enum preformatted_kinds k),
        (''caption'', or_empty cap), (''text'', JStr c)]]"
| "blockToTiptap env (Equation i e cap) =
     [atom_node ''equation'' [(''id'', JStr i), (''expression'', JStr e), (''caption'', or_empty cap)]]"
| "blockToTiptap env (Breadcrumb i its) =
     [atom_node ''breadcrumb'' [(''id'', JStr i),
        (''itemsJson'', JStr (json_stringify env (JArr (map encode_breadcrumb_item its))))]]"
| "blockToTiptap env (ColumnList i k) =
     [block_node ''columnList'' [(''id'', JStr i)] (concat (map (blockToTiptap env) k))]"
| "blockToTiptap env (Column i w k) =
     [block_node ''column'' [(''id'', JStr i), (''widthRatio'', JNum w)] (concat (map (blockToTiptap env) k))]"
| "blockToTiptap env (Button i l c as) =
     [atom_node ''pageButton'' [(''id'', JStr i), (''label'', JStr l), (''confirmation'', or_empty c),
        (''actionsJson'', JStr (json_stringify env (enc_actions as)))]]"
| "blockToTiptap env (Html i h n cap) =
     [atom_node ''htmlBlock'' [(''id'', JStr i), (''html'', JStr h), (''height'', encode_int n), (''caption'', or_empty cap)]]"
| "blockToTiptap env (Component i c v e d) =
     [atom_node ''componentBlock'' [(''id'', JStr i), (''componentId'', JStr c), (''componentVersion'', encode_int v),
        (''entityId'', JStr e), (''displayConfig'', JStr (json_stringify env (JObj d)))]]"
| "blockToTiptap env (Image i a t cap) =
     [atom_node ''imageAsset'' [(''id'', JStr i), (''assetRevisionId'', JStr a), (''altText'', JStr t), (''caption'', or_empty cap)]]"
| "blockToTiptap env (Video i a p t cap) =
     [atom_node ''videoAsset'' [(''id'', JStr i), (''assetRevisionId'', JStr a), (''posterAssetRevisionId'', or_empty p),
        (''title'', or_empty t), (''caption'', or_empty cap)]]"
| "blockToTiptap env (Audio i a t ar al du cap) =
     [atom_node ''audioAsset'' [(''id'', JStr i), (''assetRevisionId'', JStr a), (''title'', JStr t), (''artist'', or_empty ar),
        (''album'', or_empty al), (''durationSeconds'', JNum (case du of None \<Rightarrow> Dec False 0 0 | Some n \<Rightarrow> n)),
        (''caption'', or_empty cap)]]"
| "blockToTiptap env (File i a n cap) =
     [atom_node ''fileAsset'' [(''id'', JStr i), (''assetRevisionId'', JStr a), (''name'', JStr n), (''caption'', or_empty cap)]]"
| "blockToTiptap env (Pdf i a t s h cap) =
     [atom_node ''pdfAsset'' [(''id'', JStr i), (''assetRevisionId'', JStr a), (''title'', or_empty t),
        (''startPage'', encode_int (case s of None \<Rightarrow> 1 | Some p \<Rightarrow> p)), (''height'', encode_int h), (''caption'', or_empty cap)]]"
| "blockToTiptap env (Bookmark i u t d s cap) =
     [atom_node ''bookmark'' [(''id'', JStr i), (''url'', JStr u), (''title'', JStr t), (''description'', or_empty d),
        (''siteName'', or_empty s), (''caption'', or_empty cap)]]"
| "blockToTiptap env (LinkPreview i u t d s) =
     [atom_node ''linkPreview'' [(''id'', JStr i), (''url'', JStr u), (''title'', JStr t), (''description'', or_empty d),
        (''siteName'', or_empty s)]]"
| "blockToTiptap env (Embed i u t p cap) =
     [atom_node ''embedBlock'' [(''id'', JStr i), (''url'', JStr u), (''title'', or_empty t),
        (''provider'', case p of None \<Rightarrow> JStr (js ''none'') | Some q \<Rightarrow> encode_enum embed_providers q),
        (''caption'', or_empty cap)]]"
| "blockToTiptap env (Table i c h r k) =
     [block_node ''astTable'' [(''id'', JStr i), (''caption'', or_empty c), (''hasColumnHeader'', flag h),
        (''hasRowHeader'', flag r)] (concat (map (blockToTiptap env) k))]"
| "blockToTiptap env (TableRow i k) =
     [block_node ''astTableRow'' [(''id'', JStr i)] (concat (map (blockToTiptap env) k))]"
| "blockToTiptap env (TableCell i k) =
     [block_node ''astTableCell'' [(''id'', JStr i)] (concat (map (blockToTiptap env) k))]"
| "blockToTiptap env (Divider i) = [atom_node ''horizontalRule'' [(''id'', JStr i)]]"

definition blocksToTiptap :: "editor_env \<Rightarrow> block list \<Rightarrow> pm_node list" where
  "blocksToTiptap env bs = concat (map (blockToTiptap env) bs)"

definition fromAst :: "zenv \<Rightarrow> editor_env \<Rightarrow> jsval \<Rightarrow> pm_node option" where
  "fromAst z env v = map_option (\<lambda>d. PM (Some (js ''doc'')) []
     (Some (if d \<noteq> [] then blocksToTiptap env d else [PM (Some (js ''paragraph'')) [] None None None])) None None)
     (parseDocument z v)"

text \<open>
  The node type of a block is the one the table names, and the node carries the block's id.
\<close>

lemma blockToTiptap_head:
  "\<exists>n ns. blockToTiptap env b = n # ns \<and>
     Some (js (the (map_of ast_to_editor_block (kind_of b)))) = pm_type n \<and>
     getp (pm_attrs n) (js ''id'') = JStr (block_id b)"
  by (cases b) (simp_all add: ast_to_editor_block_def textBlock_def paragraphFromInline_def
      block_node_def atom_node_def)

end
