(* ===== verification/ToAst.thy ===== *)
theory ToAst
  imports FromAst
begin

text \<open>
  \<open>lib/editor/toAst.ts\<close>: from the editor document back to the AST. What the functions return
  before validation is a plain object, so they give a \<open>jsval\<close>; \<open>toAst\<close> then parses it. The
  session state is threaded through, and kept when an exception is thrown, as the \<open>Map\<close> is.

  The errors are the three classes that can leave \<open>toAst\<close>: an unsupported editor feature with
  its place, the failed validation of the result, and the raw \<open>ZodError\<close> of the two nested
  \<open>parse\<close> calls, which happen outside the \<open>try\<close>. Colour and mark names are the ones an
  editor can hold; members of \<open>Object.prototype\<close> are not among them.
\<close>

datatype adapter_error = UnsupportedColor jstr | UnknownInline "jstr option" | AstValidation | NestedZod

section \<open>Sequencing\<close>

type_synonym 'a am = "adapter \<Rightarrow> (adapter_error + 'a) \<times> adapter"

definition retM :: "'a \<Rightarrow> 'a am" where
  "retM x = (\<lambda>st. (Inr x, st))"

definition liftE :: "adapter_error + 'a \<Rightarrow> 'a am" where
  "liftE r = (\<lambda>st. (r, st))"

definition bindM :: "'a am \<Rightarrow> ('a \<Rightarrow> 'b am) \<Rightarrow> 'b am" where
  "bindM m f = (\<lambda>st. case m st of (Inl e, st') \<Rightarrow> (Inl e, st') | (Inr x, st') \<Rightarrow> f x st')"

fun mapM_idx :: "(nat \<Rightarrow> 'a \<Rightarrow> 'b am) \<Rightarrow> nat \<Rightarrow> 'a list \<Rightarrow> 'b list am" where
  "mapM_idx f i [] = retM []"
| "mapM_idx f i (x # xs) = bindM (f i x) (\<lambda>y. bindM (mapM_idx f (i + 1) xs) (\<lambda>ys. retM (y # ys)))"

section \<open>Reading attributes\<close>

definition str_attr :: "pm_node \<Rightarrow> string \<Rightarrow> jstr" where
  "str_attr n k = (case getp (pm_attrs n) (js k) of JStr s \<Rightarrow> s | _ \<Rightarrow> [])"

definition num_attr :: "pm_node \<Rightarrow> string \<Rightarrow> jsnum \<Rightarrow> jsnum" where
  "num_attr n k fallback =
     (case getp (pm_attrs n) (js k) of JNum x \<Rightarrow> if is_finite x then x else fallback | _ \<Rightarrow> fallback)"

definition bool_attr :: "pm_node \<Rightarrow> string \<Rightarrow> bool" where
  "bool_attr n k \<longleftrightarrow> getp (pm_attrs n) (js k) = JBool True"

definition content_of :: "pm_node \<Rightarrow> pm_node list" where
  "content_of n = (case pm_content n of None \<Rightarrow> [] | Some ns \<Rightarrow> ns)"

lemma size_content [termination_simp]: "m \<in> set (content_of n) \<Longrightarrow> size m < size n"
proof (cases n)
  case (PM t a c x ms)
  assume "m \<in> set (content_of n)"
  moreover have "size m \<le> size_list size ns" if "m \<in> set ns" for ns :: "pm_node list"
    using that by (induction ns) auto
  ultimately show ?thesis
    using PM by (cases c) (force simp: content_of_def)+
qed

fun textOf :: "pm_node \<Rightarrow> jstr" where
  "textOf n =
     (if pm_type n = Some (js ''text'') then (case pm_text n of None \<Rightarrow> [] | Some t \<Rightarrow> t)
      else concat (map textOf (content_of n)))"

declare textOf.simps [simp del]

definition is_type :: "pm_node \<Rightarrow> string \<Rightarrow> bool" where
  "is_type n t \<longleftrightarrow> pm_type n = Some (js t)"

text \<open>\<open>...(str(node, key) ? { name: str(node, key) } : {})\<close>\<close>

definition nonempty :: "jstr \<Rightarrow> jstr option" where
  "nonempty s = (if s = [] then None else Some s)"

definition blockId :: "editor_env \<Rightarrow> pm_node \<Rightarrow> jstr \<Rightarrow> jstr am" where
  "blockId env n fallbackKey st =
     (let i = str_attr n ''id'';
          (j, st') = resolveBlockId env
            (if i \<noteq> [] then i
             else js ''missing:'' @ fallbackKey @ js '':'' @ (case pm_type n of None \<Rightarrow> js ''block'' | Some t \<Rightarrow> t)) st
      in (Inr j, st'))"

section \<open>Inline content\<close>

definition mark_by_tiptap :: "(string \<times> mark) list" where
  "mark_by_tiptap = [(''bold'', Bold), (''italic'', Italic), (''underline'', Underline),
     (''strike'', Strikethrough), (''code'', Code)]"

definition colorValue :: "jsval \<Rightarrow> jstr \<Rightarrow> adapter_error + jsval" where
  "colorValue v whr =
     (if \<not> truthy v then Inr JUndef
      else case v of
        JStr s \<Rightarrow> if z_enum inline_colors v \<noteq> None then Inr v else Inl (UnsupportedColor whr)
      | _ \<Rightarrow> Inl (UnsupportedColor whr))"

text \<open>The loop over the marks: the mark names so far and the properties set on the node.\<close>

fun apply_marks :: "jstr \<Rightarrow> (jstr \<times> fields) list \<Rightarrow> jsval list \<times> fields \<Rightarrow> adapter_error + jsval list \<times> fields" where
  "apply_marks whr [] acc = Inr acc"
| "apply_marks whr ((t, attrs) # ms) (names, out) =
     (let names' = (case z_enum mark_by_tiptap (JStr t) of None \<Rightarrow> names | Some m \<Rightarrow> names @ [encode_enum marks m])
      in if t = js ''textColor'' then
           bindE (colorValue (getp attrs (js ''color'')) whr)
             (\<lambda>c. apply_marks whr ms (names', assoc_put (js ''text_color'') c out))
         else if t = js ''backgroundColor'' then
           bindE (colorValue (getp attrs (js ''color'')) whr)
             (\<lambda>c. apply_marks whr ms (names', assoc_put (js ''background_color'') c out))
         else apply_marks whr ms (names', out))"

text \<open>\<open>String(link.attrs?.href ?? "")\<close> for the strings and missing values an editor can hold.\<close>

definition href_of :: "fields \<Rightarrow> jstr" where
  "href_of attrs = (case getp attrs (js ''href'') of JStr s \<Rightarrow> s | _ \<Rightarrow> [])"

definition marksToInlineText :: "pm_node \<Rightarrow> jstr \<Rightarrow> adapter_error + jsval list" where
  "marksToInlineText n whr =
     (let text = (case pm_text n of None \<Rightarrow> [] | Some t \<Rightarrow> t);
          ms = (case pm_marks n of None \<Rightarrow> [] | Some ms \<Rightarrow> ms)
      in if text = [] then Inr []
         else (case find (\<lambda>m. fst m = js ''link'') ms of
           Some m \<Rightarrow> Inr [text_obj ''external_link'' [(js ''url'', JStr (href_of (snd m))), (js ''display_text'', JStr text)]]
         | None \<Rightarrow>
             if list_ex (\<lambda>m. fst m = js ''inlineCode'') ms then Inr [text_obj ''inline_code'' [(js ''text'', JStr text)]]
             else bindE (apply_marks whr ms ([], [(js ''type'', JStr (js ''text'')), (js ''text'', JStr text)]))
               (\<lambda>(names, out). Inr [JObj (if names \<noteq> [] then assoc_put (js ''marks'') (JArr names) out else out)])))"

definition inlineAtom :: "pm_node \<Rightarrow> adapter_error + jsval" where
  "inlineAtom n =
     (if is_type n ''pageReference'' then
        (if str_attr n ''resolutionStatus'' = js ''unresolved'' then
           Inr (text_obj ''page_reference'' ([(js ''resolution_status'', JStr (js ''unresolved'')),
             (js ''target_namespace'', JStr (str_attr n ''targetNamespace'')),
             (js ''normalized_title'', JStr (str_attr n ''normalizedTitle''))] @
             optf ''expected_entity_type'' JStr (nonempty (str_attr n ''expectedEntityType''))))
         else Inr (text_obj ''page_reference'' ((js ''target_page_id'', JStr (str_attr n ''targetPageId'')) #
             optf ''target_heading_block_id'' JStr (nonempty (str_attr n ''targetHeadingBlockId'')) @
             [(js ''display_text'', JStr (str_attr n ''displayText''))])))
      else if is_type n ''pageAnchorReference'' then
        Inr (text_obj ''page_anchor_reference'' [(js ''target_page_id'', JStr (str_attr n ''targetPageId'')),
          (js ''target_heading_block_id'', JStr (str_attr n ''targetHeadingBlockId'')),
          (js ''display_text'', JStr (str_attr n ''displayText''))])
      else if is_type n ''entityReference'' then
        Inr (text_obj ''entity_reference'' [(js ''entity_id'', JStr (str_attr n ''entityId'')),
          (js ''display_text'', JStr (str_attr n ''displayText''))])
      else if is_type n ''claimReference'' then
        Inr (text_obj ''claim_reference'' [(js ''claim_id'', JStr (str_attr n ''claimId'')),
          (js ''display_text'', JStr (str_attr n ''displayText''))])
      else if is_type n ''citationReference'' then
        Inr (text_obj ''citation_reference'' ((js ''citation_id'', JStr (str_attr n ''citationId'')) #
          optf ''display_text'' JStr (nonempty (str_attr n ''displayText''))))
      else if is_type n ''mathInline'' then
        Inr (text_obj ''math'' [(js ''expression'', JStr (str_attr n ''expression''))])
      else if is_type n ''mention'' then
        Inr (text_obj ''mention'' [(js ''actor_id'', JStr (str_attr n ''actorId'')),
          (js ''display_text'', JStr (str_attr n ''displayText''))])
      else if is_type n ''dateMention'' then
        Inr (text_obj ''date_mention'' ([(js ''date'', JStr (str_attr n ''date'')),
          (js ''display_text'', JStr (str_attr n ''displayText''))] @
          optf ''end_date'' JStr (nonempty (str_attr n ''endDate''))))
      else Inl (UnknownInline (pm_type n)))"

definition inline_node :: "jstr \<Rightarrow> pm_node \<Rightarrow> adapter_error + jsval list" where
  "inline_node whr n =
     (if is_type n ''text'' then marksToInlineText n whr
      else bindE (inlineAtom n) (\<lambda>v. Inr [v]))"

definition inlineContent :: "pm_node list \<Rightarrow> jstr \<Rightarrow> adapter_error + jsval list" where
  "inlineContent ns whr = bindE (mapE (inline_node whr) ns) (\<lambda>vss. Inr (concat vss))"

section \<open>Blocks\<close>

type_synonym block_reader = "pm_node \<Rightarrow> jstr \<Rightarrow> jsval option am"

definition at_index :: "jstr \<Rightarrow> nat \<Rightarrow> jstr" where
  "at_index whr i = whr @ js ''['' @ nat_str i @ js '']''"

text \<open>The results a reader gives that are not null.\<close>

definition present :: "'a option list \<Rightarrow> 'a list" where
  "present vs = map the (filter (\<lambda>v. v \<noteq> None) vs)"

definition blocksToAst_with :: "block_reader \<Rightarrow> pm_node list \<Rightarrow> jstr \<Rightarrow> jsval list am" where
  "blocksToAst_with rec ns whr =
     bindM (mapM_idx (\<lambda>i n. rec n (at_index whr i)) 0 ns) (\<lambda>vs. retM (present vs))"

definition childBlocks_with :: "block_reader \<Rightarrow> pm_node \<Rightarrow> jstr \<Rightarrow> jsval list am" where
  "childBlocks_with rec n whr = blocksToAst_with rec (content_of n) (whr @ js ''.content'')"

definition firstParagraphContent_with :: "block_reader \<Rightarrow> pm_node \<Rightarrow> jstr \<Rightarrow> (jsval list \<times> jsval list) am" where
  "firstParagraphContent_with rec n whr =
     (case content_of n of
        first # rest \<Rightarrow>
          if is_type first ''paragraph'' then
            bindM (liftE (inlineContent (content_of first) (whr @ js ''.content[0]'')))
              (\<lambda>c. bindM (blocksToAst_with rec rest (whr @ js ''.content'')) (\<lambda>r. retM (c, r)))
          else bindM (childBlocks_with rec n whr) (\<lambda>r. retM ([], r))
      | [] \<Rightarrow> bindM (childBlocks_with rec n whr) (\<lambda>r. retM ([], r)))"

text \<open>\<open>(node.content ?? []).filter(listItem).map(singleBlock)\<close>\<close>

definition listItems_with :: "block_reader \<Rightarrow> pm_node \<Rightarrow> jstr \<Rightarrow> jsval list am" where
  "listItems_with rec n whr =
     blocksToAst_with rec (filter (\<lambda>m. is_type m ''listItem'') (content_of n)) (whr @ js ''.content'')"

definition parseJSON :: "editor_env \<Rightarrow> jstr \<Rightarrow> jsval \<Rightarrow> jsval" where
  "parseJSON env s fallback = (case json_parse env s of None \<Rightarrow> fallback | Some v \<Rightarrow> v)"

definition opt_str :: "pm_node \<Rightarrow> string \<Rightarrow> string \<Rightarrow> fields" where
  "opt_str n name k = optf name JStr (nonempty (str_attr n k))"

definition req_str :: "pm_node \<Rightarrow> string \<Rightarrow> string \<Rightarrow> jstr \<times> jsval" where
  "req_str n name k = (js name, JStr (str_attr n k))"

definition req_num :: "pm_node \<Rightarrow> string \<Rightarrow> string \<Rightarrow> jsnum \<Rightarrow> jstr \<times> jsval" where
  "req_num n name k d = (js name, JNum (num_attr n k d))"

definition with_children :: "jsval list am \<Rightarrow> (jsval \<Rightarrow> jsval) \<Rightarrow> jsval option am" where
  "with_children m f = bindM m (\<lambda>vs. retM (Some (f (JArr vs))))"

definition nested_parse :: "'a schema \<Rightarrow> ('a \<Rightarrow> jsval) \<Rightarrow> jsval \<Rightarrow> adapter_error + jsval" where
  "nested_parse S e v = map_sum id e (of_option NestedZod (S v))"

definition num_positive :: "jsnum \<Rightarrow> bool" where
  "num_positive x \<longleftrightarrow> num_le (Dec False 0 0) x \<and> \<not> num_same x (Dec False 0 0)"

text \<open>The switch on the node type, once the id is known.\<close>

definition node_case :: "zenv \<Rightarrow> editor_env \<Rightarrow> block_reader \<Rightarrow> pm_node \<Rightarrow> jstr \<Rightarrow> jstr \<Rightarrow> jsval option am" where
  "node_case z env rec n whr i =
   (let kids = childBlocks_with rec n whr; leaf = (\<lambda>t fs. retM (Some (block_obj i t fs))) in
    if is_type n ''paragraph'' then
      bindM (liftE (inlineContent (content_of n) whr)) (\<lambda>c. leaf ''paragraph'' [(js ''content'', JArr c)])
    else if is_type n ''heading'' then
      bindM (liftE (inlineContent (content_of n) whr))
        (\<lambda>c. leaf ''heading'' [req_num n ''level'' ''level'' (Dec False 1 0), (js ''content'', JArr c)])
    else if is_type n ''blockquote'' then with_children kids (\<lambda>k. block_obj i ''quote'' [(js ''children'', k)])
    else if is_type n ''bulletList'' then
      with_children (listItems_with rec n whr) (\<lambda>k. block_obj i ''bullet_list'' [(js ''children'', k)])
    else if is_type n ''orderedList'' then
      with_children (listItems_with rec n whr) (\<lambda>k. block_obj i ''ordered_list'' [(js ''children'', k)])
    else if is_type n ''listItem'' then with_children kids (\<lambda>k. block_obj i ''list_item'' [(js ''children'', k)])
    else if is_type n ''todoBlock'' then
      bindM (firstParagraphContent_with rec n whr)
        (\<lambda>(c, rest). leaf ''todo'' ([(js ''checked'', JBool (bool_attr n ''checked'')), (js ''content'', JArr c)] @
           (if rest \<noteq> [] then [(js ''children'', JArr rest)] else [])))
    else if is_type n ''toggleBlock'' then
      with_children kids (\<lambda>k. block_obj i ''toggle''
        [(js ''content'', parseJSON env (str_attr n ''summaryJson'')
            (JArr [text_obj ''text'' [(js ''text'', JStr (str_attr n ''summaryText''))]])), (js ''children'', k)])
    else if is_type n ''callout'' then
      with_children kids (\<lambda>k. block_obj i ''callout'' (req_str n ''kind'' ''kind'' # opt_str n ''icon'' ''icon'' @
        (if str_attr n ''color'' \<noteq> js ''default'' then opt_str n ''color'' ''color'' else []) @ [(js ''children'', k)]))
    else if is_type n ''codeBlock'' then
      leaf ''code'' ((js ''content'', JStr (textOf n)) # opt_str n ''language'' ''language'' @ opt_str n ''caption'' ''caption'')
    else if is_type n ''preformatted'' then
      leaf ''preformatted'' ([req_str n ''kind'' ''kind'', req_str n ''content'' ''text''] @ opt_str n ''caption'' ''caption'')
    else if is_type n ''equation'' then
      leaf ''equation'' (req_str n ''expression'' ''expression'' # opt_str n ''caption'' ''caption'')
    else if is_type n ''breadcrumb'' then
      bindM (liftE (nested_parse (z_array (breadcrumbItemSchema z)) (\<lambda>its. JArr (map encode_breadcrumb_item its))
        (parseJSON env (str_attr n ''itemsJson'') (JArr [])))) (\<lambda>its. leaf ''breadcrumb'' [(js ''items'', its)])
    else if is_type n ''columnList'' then with_children kids (\<lambda>k. block_obj i ''column_list'' [(js ''children'', k)])
    else if is_type n ''column'' then
      with_children kids (\<lambda>k. block_obj i ''column'' [req_num n ''width_ratio'' ''widthRatio'' (Dec False 1 0), (js ''children'', k)])
    else if is_type n ''pageButton'' then
      bindM (liftE (nested_parse (z_array (buttonActionSchema z (blockSchema z))) enc_actions
        (parseJSON env (str_attr n ''actionsJson'') (JArr []))))
        (\<lambda>as. leaf ''button'' (req_str n ''label'' ''label'' # opt_str n ''confirmation'' ''confirmation'' @ [(js ''actions'', as)]))
    else if is_type n ''htmlBlock'' then
      leaf ''html'' ([req_str n ''html'' ''html'', req_num n ''height'' ''height'' (Dec False 24 1)] @ opt_str n ''caption'' ''caption'')
    else if is_type n ''componentBlock'' then
      leaf ''component'' [req_str n ''component_id'' ''componentId'',
        req_num n ''component_version'' ''componentVersion'' (Dec False 1 0), req_str n ''entity_id'' ''entityId'',
        (js ''display_config'', parseJSON env (str_attr n ''displayConfig'') (JObj []))]
    else if is_type n ''imageAsset'' then
      leaf ''image'' ([req_str n ''asset_revision_id'' ''assetRevisionId'', req_str n ''alt_text'' ''altText''] @ opt_str n ''caption'' ''caption'')
    else if is_type n ''videoAsset'' then
      leaf ''video'' (req_str n ''asset_revision_id'' ''assetRevisionId'' #
        opt_str n ''poster_asset_revision_id'' ''posterAssetRevisionId'' @ opt_str n ''title'' ''title'' @ opt_str n ''caption'' ''caption'')
    else if is_type n ''audioAsset'' then
      leaf ''audio'' ([req_str n ''asset_revision_id'' ''assetRevisionId'', req_str n ''title'' ''title''] @
        opt_str n ''artist'' ''artist'' @ opt_str n ''album'' ''album'' @
        (if num_positive (num_attr n ''durationSeconds'' (Dec False 0 0))
         then [req_num n ''duration_seconds'' ''durationSeconds'' (Dec False 0 0)] else []) @ opt_str n ''caption'' ''caption'')
    else if is_type n ''fileAsset'' then
      leaf ''file'' ([req_str n ''asset_revision_id'' ''assetRevisionId'', req_str n ''name'' ''name''] @ opt_str n ''caption'' ''caption'')
    else if is_type n ''pdfAsset'' then
      leaf ''pdf'' (req_str n ''asset_revision_id'' ''assetRevisionId'' # opt_str n ''title'' ''title'' @
        (if \<not> num_same (num_attr n ''startPage'' (Dec False 1 0)) (Dec False 1 0)
         then [req_num n ''start_page'' ''startPage'' (Dec False 1 0)] else []) @
        req_num n ''height'' ''height'' (Dec False 64 1) # opt_str n ''caption'' ''caption'')
    else if is_type n ''bookmark'' then
      leaf ''bookmark'' ([req_str n ''url'' ''url'', req_str n ''title'' ''title''] @ opt_str n ''description'' ''description'' @
        opt_str n ''site_name'' ''siteName'' @ opt_str n ''caption'' ''caption'')
    else if is_type n ''linkPreview'' then
      leaf ''link_preview'' ([req_str n ''url'' ''url'', req_str n ''title'' ''title''] @ opt_str n ''description'' ''description'' @
        opt_str n ''site_name'' ''siteName'')
    else if is_type n ''embedBlock'' then
      leaf ''embed'' (req_str n ''url'' ''url'' # opt_str n ''title'' ''title'' @
        (if str_attr n ''provider'' \<noteq> js ''none'' then opt_str n ''provider'' ''provider'' else []) @ opt_str n ''caption'' ''caption'')
    else if is_type n ''astTable'' then
      with_children kids (\<lambda>k. block_obj i ''table'' (opt_str n ''caption'' ''caption'' @
        (if bool_attr n ''hasColumnHeader'' then [(js ''has_column_header'', JBool True)] else []) @
        (if bool_attr n ''hasRowHeader'' then [(js ''has_row_header'', JBool True)] else []) @ [(js ''children'', k)]))
    else if is_type n ''astTableRow'' then with_children kids (\<lambda>k. block_obj i ''table_row'' [(js ''children'', k)])
    else if is_type n ''astTableCell'' then with_children kids (\<lambda>k. block_obj i ''table_cell'' [(js ''children'', k)])
    else if is_type n ''horizontalRule'' then leaf ''divider'' []
    else retM None)"

definition singleBlock_step :: "zenv \<Rightarrow> editor_env \<Rightarrow> block_reader \<Rightarrow> pm_node \<Rightarrow> jstr \<Rightarrow> jsval option am" where
  "singleBlock_step z env rec n whr = bindM (blockId env n whr) (node_case z env rec n whr)"

text \<open>A node is read through its content only.\<close>

lemma mapM_idx_cong:
  "(\<And>i x. x \<in> set xs \<Longrightarrow> f i x = g i x) \<Longrightarrow> mapM_idx f i xs = mapM_idx g i xs"
  by (induction xs arbitrary: i) auto

lemma blocks_cong:
  "(\<And>m w. m \<in> set ns \<Longrightarrow> f m w = g m w) \<Longrightarrow> blocksToAst_with f ns whr = blocksToAst_with g ns whr"
  unfolding blocksToAst_with_def by (subst mapM_idx_cong) auto

lemma singleBlock_step_cong [fundef_cong]:
  assumes "n = n'" "\<And>m w. size m < size n' \<Longrightarrow> f m w = g m w"
  shows "singleBlock_step z env f n whr = singleBlock_step z env g n' whr"
proof -
  have sub: "f m w = g m w" if "m \<in> set (content_of n')" for m w
    using assms(2) size_content that by blast
  have "childBlocks_with f n' w = childBlocks_with g n' w" "listItems_with f n' w = listItems_with g n' w" for w
    unfolding childBlocks_with_def listItems_with_def using sub by (auto intro!: blocks_cong)
  moreover from this have "firstParagraphContent_with f n' w = firstParagraphContent_with g n' w" for w
    unfolding firstParagraphContent_with_def
    using sub by (auto split: list.split simp: blocks_cong [of _ f g])
  ultimately have "node_case z env f n' whr = node_case z env g n' whr"
    unfolding node_case_def by (simp only: )
  then show ?thesis by (simp add: singleBlock_step_def assms(1))
qed

function singleBlock :: "zenv \<Rightarrow> editor_env \<Rightarrow> block_reader" where
  "singleBlock z env n whr = singleBlock_step z env (\<lambda>m w. singleBlock z env m w) n whr"
  by pat_completeness auto
termination by (relation "measure (\<lambda>(z, env, n, whr). size n)") auto

declare singleBlock.simps [simp del]

definition blocksToAst :: "zenv \<Rightarrow> editor_env \<Rightarrow> pm_node list \<Rightarrow> jstr \<Rightarrow> jsval list am" where
  "blocksToAst z env = blocksToAst_with (singleBlock z env)"

definition toAst :: "zenv \<Rightarrow> editor_env \<Rightarrow> pm_node \<Rightarrow> document am" where
  "toAst z env n =
     bindM (blocksToAst z env (content_of n) (js ''children''))
       (\<lambda>bs. liftE (of_option AstValidation (parseDocument z
          (JObj [(js ''type'', JStr (js ''document'')), (js ''schema_version'', encode_int 1), (js ''children'', JArr bs)]))))"

end
