(* ===== verification/RoundTrip.thy ===== *)
theory RoundTrip
  imports ToAst Toc
begin

text \<open>
  What a round trip through the editor keeps: \<open>toAst (fromAst d)\<close> for a valid document whose
  block ids are version 7 UUIDs. The result is the document itself up to what the editor has no
  place for, collected in \<open>canon_blocks\<close>: empty texts and empty optional strings, defaults
  written out, the toggle state of a heading, whose children become its siblings.
\<close>

section \<open>What the editor keeps of a document\<close>

definition canon_opt :: "jstr option \<Rightarrow> jstr option" where
  "canon_opt s = (if s = Some [] then None else s)"

fun canon_inline :: "inline \<Rightarrow> inline list" where
  "canon_inline (Text t ms c g) = (if t = [] then [] else [Text t (if ms = Some [] then None else ms) c g])"
| "canon_inline (InlineCode t) = (if t = [] then [] else [InlineCode t])"
| "canon_inline (ExternalLink u d) = (if d = [] then [] else [ExternalLink u d])"
| "canon_inline (UnresolvedReference n t e) = [UnresolvedReference n t (canon_opt e)]"
| "canon_inline (PageReference p h d) = [PageReference p (canon_opt h) d]"
| "canon_inline (CitationReference c d) = [CitationReference c (canon_opt d)]"
| "canon_inline (DateMention a e d) = [DateMention a (canon_opt e) d]"
| "canon_inline n = [n]"

definition canon_inlines :: "inline list \<Rightarrow> inline list" where
  "canon_inlines c = concat (map canon_inline c)"

definition canon_flag :: "bool option \<Rightarrow> bool option" where
  "canon_flag b = (if b = Some True then b else None)"

fun canon_block :: "block \<Rightarrow> block list" where
  "canon_block (Heading i l t c k) = Heading i l None (canon_inlines c) None # concat (map canon_block (kids k))"
| "canon_block (Paragraph i c) = [Paragraph i (canon_inlines c)]"
| "canon_block (BulletList i k) = [BulletList i (concat (map canon_block k))]"
| "canon_block (OrderedList i k) = [OrderedList i (concat (map canon_block k))]"
| "canon_block (ListItem i k) = [ListItem i (concat (map canon_block k))]"
| "canon_block (Todo i d c k) = [Todo i d (canon_inlines c)
     (let bs = concat (map canon_block (kids k)) in if bs = [] then None else Some bs)]"
| "canon_block (Toggle i c k) = [Toggle i c (Some (concat (map canon_block (kids k))))]"
| "canon_block (Quote i k) = [Quote i (concat (map canon_block k))]"
| "canon_block (Callout i kd ic co k) = [Callout i kd (canon_opt ic) (if co = Some CDefault then None else co)
     (concat (map canon_block k))]"
| "canon_block (CodeBlock i c l cap) = [CodeBlock i c (canon_opt l) (canon_opt cap)]"
| "canon_block (Preformatted i k c cap) = [Preformatted i k c (canon_opt cap)]"
| "canon_block (Equation i e cap) = [Equation i e (canon_opt cap)]"
| "canon_block (ColumnList i k) = [ColumnList i (concat (map canon_block k))]"
| "canon_block (Column i w k) = [Column i w (concat (map canon_block k))]"
| "canon_block (Button i l c as) = [Button i l (canon_opt c) as]"
| "canon_block (Html i h n cap) = [Html i h n (canon_opt cap)]"
| "canon_block (Image i a t cap) = [Image i a t (canon_opt cap)]"
| "canon_block (Video i a p t cap) = [Video i a (canon_opt p) (canon_opt t) (canon_opt cap)]"
| "canon_block (Audio i a t ar al du cap) = [Audio i a t (canon_opt ar) (canon_opt al)
     (case du of None \<Rightarrow> None | Some n \<Rightarrow> if num_positive n then Some n else None) (canon_opt cap)]"
| "canon_block (File i a n cap) = [File i a n (canon_opt cap)]"
| "canon_block (Pdf i a t s h cap) = [Pdf i a (canon_opt t) (if s = Some 1 then None else s) h (canon_opt cap)]"
| "canon_block (Bookmark i u t d s cap) = [Bookmark i u t (canon_opt d) (canon_opt s) (canon_opt cap)]"
| "canon_block (LinkPreview i u t d s) = [LinkPreview i u t (canon_opt d) (canon_opt s)]"
| "canon_block (Embed i u t p cap) = [Embed i u (canon_opt t) p (canon_opt cap)]"
| "canon_block (Table i c h r k) = [Table i (canon_opt c) (canon_flag h) (canon_flag r) (concat (map canon_block k))]"
| "canon_block (TableRow i k) = [TableRow i (concat (map canon_block k))]"
| "canon_block (TableCell i k) = [TableCell i (concat (map canon_block k))]"
| "canon_block b = [b]"

definition canon_blocks :: "block list \<Rightarrow> block list" where
  "canon_blocks bs = concat (map canon_block bs)"

section \<open>Inline content\<close>

named_theorems pm_eval \<open>reading the nodes that fromAst builds\<close>

lemma is_type_PM [pm_eval]: "is_type (PM (Some (js t)) a c x m) s \<longleftrightarrow> t = s"
  by (simp add: is_type_def)

lemma str_attr_PM [pm_eval]: "str_attr (PM t a c x m) k = (case getp a (js k) of JStr s \<Rightarrow> s | _ \<Rightarrow> [])"
  by (simp add: str_attr_def)

lemma num_attr_PM [pm_eval]:
  "num_attr (PM t a c x m) k d = (case getp a (js k) of JNum x \<Rightarrow> if is_finite x then x else d | _ \<Rightarrow> d)"
  by (simp add: num_attr_def)

lemma bool_attr_PM [pm_eval]: "bool_attr (PM t a c x m) k \<longleftrightarrow> getp a (js k) = JBool True"
  by (simp add: bool_attr_def)

lemma content_of_PM [pm_eval]: "content_of (PM t a c x m) = (case c of None \<Rightarrow> [] | Some ns \<Rightarrow> ns)"
  by (simp add: content_of_def)

declare atom_node_def [pm_eval] block_node_def [pm_eval] encode_enum_def [pm_eval]

lemma nonempty_or_empty [pm_eval]:
  "nonempty (case or_empty s of JStr s \<Rightarrow> s | _ \<Rightarrow> []) = canon_opt s"
  by (cases s) (auto simp: nonempty_def or_empty_def canon_opt_def)

lemma canon_opt_Some [simp]: "canon_opt s = Some t \<longleftrightarrow> s = Some t \<and> t \<noteq> []"
  by (auto simp: canon_opt_def)

lemma pred_canon_opt [simp]: "pred_option P s \<Longrightarrow> pred_option P (canon_opt s)"
  by (auto simp: canon_opt_def pred_option_iff)

lemma apply_marks_names:
  "apply_marks whr (map tiptap_mark ms @ rest) (names, out) =
   apply_marks whr rest (names @ map (encode_enum marks) ms, out)"
proof (induction ms arbitrary: names)
  case (Cons m ms)
  then show ?case
    by (cases m) (simp_all add: tiptap_mark_def mark_to_tiptap_def z_enum_def mark_by_tiptap_def)
qed simp

lemma colorValue_color: "colorValue (encode_enum inline_colors c) whr = Inr (encode_enum inline_colors c)"
proof -
  have "truthy (encode_enum inline_colors c)"
    by (cases c) (simp_all add: encode_enum_def enum_name_def inline_colors_def)
  moreover have "z_enum inline_colors (encode_enum inline_colors c) \<noteq> None"
    by (simp add: enum_complete)
  ultimately show ?thesis by (simp add: colorValue_def encode_enum_def)
qed

lemma no_link_marks:
  "find (\<lambda>m. fst m = js ''link'') (map tiptap_mark ms @ rest) = find (\<lambda>m. fst m = js ''link'') rest"
  "list_ex (\<lambda>m. fst m = js ''inlineCode'') (map tiptap_mark ms @ rest) \<longleftrightarrow>
   list_ex (\<lambda>m. fst m = js ''inlineCode'') rest"
proof (induction ms)
  case (Cons m ms)
  { case 1 show ?case using Cons(1) by (cases m) (simp_all add: tiptap_mark_def mark_to_tiptap_def) }
  { case 2 show ?case using Cons(2) by (cases m) (simp_all add: tiptap_mark_def mark_to_tiptap_def) }
qed simp_all

text \<open>The inline nodes read back from what an inline node became.\<close>

definition reads_inline :: "zenv \<Rightarrow> pm_node list \<Rightarrow> inline list \<Rightarrow> bool" where
  "reads_inline z ns c \<longleftrightarrow> (\<forall>whr. \<exists>vs. inlineContent ns whr = Inr vs \<and>
     list_all2 (\<lambda>v n. inlineNodeSchema z v = Some n) vs c)"

lemma mapE_append: "mapE f (xs @ ys) = bindE (mapE f xs) (\<lambda>us. bindE (mapE f ys) (\<lambda>vs. Inr (us @ vs)))"
proof (induction xs)
  case Nil
  then show ?case by (cases "mapE f ys") auto
next
  case (Cons x xs)
  then show ?case by (cases "f x"; cases "mapE f xs"; cases "mapE f ys") auto
qed

lemma inlineContent_append:
  "inlineContent (ms @ ns) whr = bindE (inlineContent ms whr) (\<lambda>us. bindE (inlineContent ns whr) (\<lambda>vs. Inr (us @ vs)))"
  by (cases "mapE (inline_node whr) ms"; cases "mapE (inline_node whr) ns")
    (simp_all add: inlineContent_def mapE_append)

lemma reads_inline_append:
  assumes "reads_inline z ms c" "reads_inline z ns d"
  shows "reads_inline z (ms @ ns) (c @ d)"
  unfolding reads_inline_def
proof
  fix whr
  from assms obtain us vs where "inlineContent ms whr = Inr us" "inlineContent ns whr = Inr vs"
    "list_all2 (\<lambda>v n. inlineNodeSchema z v = Some n) us c"
    "list_all2 (\<lambda>v n. inlineNodeSchema z v = Some n) vs d"
    unfolding reads_inline_def by metis
  then show "\<exists>ws. inlineContent (ms @ ns) whr = Inr ws \<and>
      list_all2 (\<lambda>v n. inlineNodeSchema z v = Some n) ws (c @ d)"
    by (auto simp: inlineContent_append intro: list_all2_appendI)
qed

lemma reads_inline_Nil [simp]: "reads_inline z [] []"
  by (simp add: reads_inline_def inlineContent_def)

lemma reads_inline_one:
  "(\<And>whr. inline_node whr n = Inr [v]) \<Longrightarrow> inlineNodeSchema z v = Some c \<Longrightarrow> reads_inline z [n] [c]"
  by (simp add: reads_inline_def inlineContent_def)

lemma text_reads:
  assumes "t \<noteq> []"
  shows "reads_inline z (inlineToTiptap (Text t ms c g)) [Text t (if ms = Some [] then None else ms) c g]"
proof -
  let ?ms = "case ms of None \<Rightarrow> [] | Some ms \<Rightarrow> ms"
  define v where "v = JObj ([(js ''type'', JStr (js ''text'')), (js ''text'', JStr t)] @
    optf ''text_color'' (encode_enum inline_colors) c @ optf ''background_color'' (encode_enum inline_colors) g @
    optf ''marks'' (\<lambda>ms. JArr (map (encode_enum marks) ms)) (if ms = Some [] then None else ms))"
  have one: "inlineToTiptap (Text t ms c g) = [hd (inlineToTiptap (Text t ms c g))]"
    using assms by (simp add: textNode_def)
  have read: "inline_node whr (hd (inlineToTiptap (Text t ms c g))) = Inr [v]" for whr
  proof -
    have "apply_marks whr (map tiptap_mark ?ms @
        (case c of None \<Rightarrow> [] | Some c \<Rightarrow> [(js ''textColor'', [(js ''color'', encode_enum inline_colors c)])]) @
        (case g of None \<Rightarrow> [] | Some g \<Rightarrow> [(js ''backgroundColor'', [(js ''color'', encode_enum inline_colors g)])]))
        ([], [(js ''type'', JStr (js ''text'')), (js ''text'', JStr t)]) =
      Inr (map (encode_enum marks) ?ms, [(js ''type'', JStr (js ''text'')), (js ''text'', JStr t)] @
        optf ''text_color'' (encode_enum inline_colors) c @ optf ''background_color'' (encode_enum inline_colors) g)"
      by (cases c; cases g)
        (simp_all add: apply_marks_names apply_marks_names [where rest = "[]", simplified] colorValue_color z_enum_def mark_by_tiptap_def)
    then show ?thesis
      using assms
      by (cases ms; cases c; cases g)
        (auto simp: inline_node_def marksToInlineText_def textNode_def is_type_PM no_link_marks
            no_link_marks [where rest = "[]", simplified] apply_marks_names [where rest = "[]", simplified] Let_def v_def
          split: list.splits)
  qed
  have "inlineNodeSchema z v = Some (Text t (if ms = Some [] then None else ms) c g)"
    unfolding v_def inlineNodeSchema_def textNodeSchema_def by (simp add: schema_eval)
  from reads_inline_one [OF read this] show ?thesis by (subst one)
qed

lemma opt_eval [pm_eval]:
  "optv JStr s = JUndef \<longleftrightarrow> s = None"
  by (cases s) simp_all

lemma reads_inline_encoded:
  "(\<And>whr. inline_node whr n = Inr [encode_inline c]) \<Longrightarrow> valid_inline z c \<Longrightarrow> reads_inline z [n] [c]"
  by (rule reads_inline_one [OF _ inline_complete])

lemma date_reads:
  assumes "z_iso_date z a" "pred_option (z_iso_date z) e"
  shows "inlineNodeSchema z (text_obj ''date_mention'' ([(js ''date'', JStr a), (js ''display_text'', JStr d)] @
     optf ''end_date'' JStr e)) = Some (DateMention a e d)"
  using assms by (simp add: inlineNodeSchema_def inline_schema_defs schema_eval)

lemma inline_reads:
  assumes "valid_inline z n"
  shows "reads_inline z (inlineToTiptap n) (canon_inline n)"
proof (cases n)
  case (Text t ms c g)
  then show ?thesis
    using text_reads [of t z ms c g] by (cases "t = []") (simp_all add: textNode_def)
next
  case (DateMention a e d)
  with assms have "z_iso_date z a" "pred_option (z_iso_date z) (canon_opt e)" by simp_all
  from reads_inline_one [OF _ date_reads [OF this]] show ?thesis
    using DateMention by (simp add: inline_node_def inlineAtom_def pm_eval)
qed (use assms in \<open>auto simp: inline_node_def inlineAtom_def pm_eval textNode_def marksToInlineText_def href_of_def
     intro!: reads_inline_encoded\<close>)

lemma inlines_read:
  "list_all (valid_inline z) c \<Longrightarrow> reads_inline z (inlinesToTiptap c) (canon_inlines c)"
  by (induction c) (auto simp: inlinesToTiptap_def canon_inlines_def intro: reads_inline_append inline_reads)

section \<open>Blocks\<close>

text \<open>Node \<open>n\<close> is read, at any place and without drawing an id, as a value that parses to \<open>b\<close>.\<close>

definition reads :: "zenv \<Rightarrow> editor_env \<Rightarrow> pm_node \<Rightarrow> block \<Rightarrow> bool" where
  "reads z env n b \<longleftrightarrow> (\<forall>whr st. \<exists>v. singleBlock z env n whr st = (Inr (Some v), st) \<and> blockSchema z v = Some b)"

definition reads_all :: "zenv \<Rightarrow> editor_env \<Rightarrow> pm_node list \<Rightarrow> block list \<Rightarrow> bool" where
  "reads_all z env ns bs \<longleftrightarrow> list_all2 (reads z env) ns bs"

lemma reads_all_mapM:
  "reads_all z env ns bs \<Longrightarrow> \<exists>vs. mapM_idx (\<lambda>i n. singleBlock z env n (at_index whr i)) j ns st = (Inr (map Some vs), st) \<and>
     list_all2 (\<lambda>v b. blockSchema z v = Some b) vs bs"
  unfolding reads_all_def
proof (induction ns bs arbitrary: j rule: list_all2_induct)
  case Nil
  then show ?case by (simp add: retM_def)
next
  case (Cons n ns b bs)
  obtain v where "singleBlock z env n (at_index whr j) st = (Inr (Some v), st)" "blockSchema z v = Some b"
    using Cons(1) unfolding reads_def by blast
  moreover obtain vs where "mapM_idx (\<lambda>i n. singleBlock z env n (at_index whr i)) (j + 1) ns st = (Inr (map Some vs), st)"
    "list_all2 (\<lambda>v b. blockSchema z v = Some b) vs bs"
    using Cons.IH by blast
  ultimately show ?case
    by (intro exI [of _ "v # vs"]) (simp add: bindM_def retM_def)
qed

lemma present_map_Some [simp]: "present (map Some vs) = vs"
  by (induction vs) (simp_all add: present_def)

lemma reads_all_blocks:
  "reads_all z env ns bs \<Longrightarrow> \<exists>vs. blocksToAst_with (singleBlock z env) ns whr st = (Inr vs, st) \<and>
     list_all2 (\<lambda>v b. blockSchema z v = Some b) vs bs"
  using reads_all_mapM [of z env ns bs whr 0 st] by (auto simp: blocksToAst_with_def bindM_def retM_def)

lemma reads_all_simps [simp]:
  "reads_all z env [] bs \<longleftrightarrow> bs = []" "reads_all z env ns [] \<longleftrightarrow> ns = []"
  "reads_all z env (n # ns) (b # bs) \<longleftrightarrow> reads z env n b \<and> reads_all z env ns bs"
  by (simp_all add: reads_all_def)

lemma reads_all_concat:
  "(\<And>x. x \<in> set xs \<Longrightarrow> reads_all z env (f x) (g x)) \<Longrightarrow> reads_all z env (concat (map f xs)) (concat (map g xs))"
  by (induction xs) (auto simp: reads_all_def intro: list_all2_appendI)

text \<open>What the round trip needs of the ids and JSON payloads of a block.\<close>

fun payloads :: "block \<Rightarrow> jsval list" where
  "payloads (Toggle i c k) = [encode_inlines c]"
| "payloads (Breadcrumb i its) = [JArr (map encode_breadcrumb_item its)]"
| "payloads (Button i l c as) = [enc_actions as]"
| "payloads (Component i c v e d) = [JObj d]"
| "payloads b = []"

definition editable :: "editor_env \<Rightarrow> block \<Rightarrow> bool" where
  "editable env b \<longleftrightarrow> isUuidV7 env (block_id b) \<and> block_id b \<noteq> [] \<and>
     (\<forall>v \<in> set (payloads b). json_parse env (json_stringify env v) = Some v)"

lemma blockId_own:
  "isUuidV7 env i \<Longrightarrow> i \<noteq> [] \<Longrightarrow> getp (pm_attrs n) (js ''id'') = JStr i \<Longrightarrow> blockId env n whr st = (Inr i, st)"
  by (simp add: blockId_def str_attr_def resolveBlockId_def)

lemma readsI:
  assumes "isUuidV7 env i" "i \<noteq> []" "getp (pm_attrs n) (js ''id'') = JStr i"
    and "\<And>whr st. \<exists>v. node_case z env (singleBlock z env) n whr i st = (Inr (Some v), st) \<and> blockSchema z v = Some b"
  shows "reads z env n b"
  unfolding reads_def singleBlock.simps [of z env n] singleBlock_step_def bindM_def
  using assms(4) by (simp add: blockId_own [OF assms(1-3)])

lemma reads_encoded:
  assumes "isUuidV7 env i" "i \<noteq> []" "getp (pm_attrs n) (js ''id'') = JStr i"
    and "\<And>whr st. node_case z env (singleBlock z env) n whr i st = (Inr (Some (encode_block b)), st)"
    and "valid_block z b"
  shows "reads z env n b"
  using assms block_complete [of z b] by (intro readsI) (auto simp: complete_at_def)

declare retM_def [pm_eval] liftE_def [pm_eval] bindM_def [pm_eval] opt_str_def [pm_eval] req_str_def [pm_eval]
  req_num_def [pm_eval] parseJSON_def [pm_eval] with_children_def [pm_eval]

lemma nested_parse_Some: "S v = Some x \<Longrightarrow> nested_parse S e v = Inr (e x)"
  by (simp add: nested_parse_def of_option_def)

lemma actions_parse [pm_eval]:
  "list_all (\<lambda>a. valid_action z (map_button_action (valid_block z) a)) as \<Longrightarrow>
   z_array (buttonActionSchema z (blockSchema z)) (enc_actions as) = Some as"
  unfolding enc_actions_def by (rule actions_complete) (simp_all add: block_complete)

lemma nested_reads [pm_eval]:
  "list_all (\<lambda>p. pred_option (z_uuid z) (fst p)) its \<Longrightarrow> list_all (\<lambda>p. len_in (Suc 0) 255 (snd p)) its \<Longrightarrow>
   nested_parse (z_array (breadcrumbItemSchema z)) f (JArr (map encode_breadcrumb_item its)) = Inr (f its)"
  "list_all (\<lambda>a. valid_action z (map_button_action (valid_block z) a)) as \<Longrightarrow>
   nested_parse (z_array (buttonActionSchema z (blockSchema z))) g (enc_actions as) = Inr (g as)"
  by (rule nested_parse_Some, rule breadcrumb_complete, simp add: list_all_iff)
    (rule nested_parse_Some, rule actions_parse)

lemma finite_num_of_int [pm_eval]: "is_finite (num_of_int i)"
  by simp

lemma num_same_one: "num_same (num_of_int i) (Dec False 1 0) \<longleftrightarrow> i = 1"
proof
  assume "num_same (num_of_int i) (Dec False 1 0)"
  then have "num_of_int i = Dec False 1 0"
    using wf_dec_unique [of _ _ _ False 1 0] wf_num_of_int [of i] by (cases "num_of_int i") auto
  then show "i = 1" by (metis num_of_int_1 num_of_int_inject)
next
  assume "i = 1"
  then show "num_same (num_of_int i) (Dec False 1 0)" by (simp only: num_of_int_1 num_same_refl is_finite.simps)
qed

lemmas num_same_Suc_0 [pm_eval] = num_same_one [unfolded One_nat_def]

lemma textOf_textContent [pm_eval]:
  "textOf (PM (Some (js ''codeBlock'')) a (Some (textContent t)) x m) = t"
  by (simp add: textOf.simps textContent_def textNode_def content_of_def)

lemma str_enum:
  "enum_name embed_providers p \<noteq> []" "enum_name embed_providers p \<noteq> js ''none''"
  by (cases p; simp add: enum_name_def embed_providers_def)+

lemma str_callout:
  "enum_name callout_colors c \<noteq> []" "enum_name callout_colors c = js ''default'' \<longleftrightarrow> c = CDefault"
  by (cases c; simp add: enum_name_def callout_colors_def)+

definition editable_all :: "editor_env \<Rightarrow> block \<Rightarrow> bool" where
  "editable_all env b \<longleftrightarrow> (\<forall>c \<in> set (preorder b). editable env c)"

lemma editable_all_iff:
  "editable_all env b \<longleftrightarrow> editable env b \<and> (\<forall>c \<in> set (block_children b). editable_all env c)"
  by (subst editable_all_def, subst preorder.simps) (auto simp: editable_all_def)

lemma container_reads:
  assumes "isUuidV7 env i" "i \<noteq> []" "getp (pm_attrs n) (js ''id'') = JStr i"
    and "reads_all z env ns ks"
    and "\<And>whr st vs. blocksToAst_with (singleBlock z env) ns (whr @ js ''.content'') st = (Inr vs, st) \<Longrightarrow>
           list_all2 (\<lambda>v b. blockSchema z v = Some b) vs ks \<Longrightarrow>
           \<exists>v. node_case z env (singleBlock z env) n whr i st = (Inr (Some v), st) \<and> blockSchema z v = Some b"
  shows "reads z env n b"
  using assms(5) reads_all_blocks [OF assms(4)] by (intro readsI [OF assms(1-3)]) blast

text \<open>The schema of a block on an object, one level unfolded.\<close>

lemmas blockSchema_obj = blockSchema.simps [of z "JObj fs" for z fs] tag_union outer_schema_defs
  listItemBlockSchema_def [THEN fun_cong, of _ _ "JObj fs" for fs]
  tableRowBlockSchema_def [THEN fun_cong, of _ _ "JObj fs" for fs]
  tableCellBlockSchema_def [THEN fun_cong, of _ _ "JObj fs" for fs]
  columnBlockSchema_def [THEN fun_cong, of _ _ "JObj fs" for fs]

lemma kids_array:
  "list_all2 (\<lambda>v b. blockSchema z v = Some b) vs ks \<Longrightarrow> z_array (blockSchema z) (JArr vs) = Some ks"
  by (simp add: z_array_Some mapO_Some_iff)

lemma nested_arrays:
  assumes "list_all2 (\<lambda>v b. blockSchema z v = Some b) vs ks"
  shows "list_all (\<lambda>b. kind_of b = ''list_item'') ks \<Longrightarrow> z_array (listItemBlockSchema z (blockSchema z)) (JArr vs) = Some ks"
    "list_all (\<lambda>b. kind_of b = ''table_row'') ks \<Longrightarrow> z_array (tableRowBlockSchema z (blockSchema z)) (JArr vs) = Some ks"
    "list_all (\<lambda>b. kind_of b = ''table_cell'') ks \<Longrightarrow> z_array (tableCellBlockSchema z (blockSchema z)) (JArr vs) = Some ks"
    "list_all (\<lambda>b. kind_of b = ''column'') ks \<Longrightarrow> z_array (columnBlockSchema z (blockSchema z)) (JArr vs) = Some ks"
  unfolding z_array_Some mapO_Some_iff
  by (rule exI [of _ vs], rule conjI [OF refl], rule list.rel_mono_strong [OF assms],
      rule blockSchema_nested, assumption, simp add: list_all_iff)+

text \<open>A list item, row, cell or column stays the single block it is.\<close>

lemma canon_kind:
  assumes "kind_of b \<noteq> ''heading''"
  shows "\<exists>c. canon_block b = [c] \<and> kind_of c = kind_of b"
  using assms by (cases b) simp_all

lemma canon_kinds:
  "list_all (\<lambda>b. kind_of b = t) bs \<Longrightarrow> t \<noteq> ''heading'' \<Longrightarrow>
   list_all (\<lambda>b. kind_of b = t) (concat (map canon_block bs)) \<and> length (concat (map canon_block bs)) = length bs"
proof (induction bs)
  case (Cons b bs)
  then obtain c where "canon_block b = [c]" "kind_of c = t" using canon_kind [of b] by auto
  with Cons show ?case by simp
qed simp

lemma list_item_nodes:
  "list_all (\<lambda>b. kind_of b = ''list_item'') bs \<Longrightarrow>
   filter (\<lambda>m. is_type m ''listItem'') (concat (map (blockToTiptap env) bs)) = concat (map (blockToTiptap env) bs)"
proof (induction bs)
  case (Cons b bs)
  then show ?case by (cases b) (simp_all add: block_node_def is_type_PM)
qed simp

definition round :: "zenv \<Rightarrow> editor_env \<Rightarrow> block \<Rightarrow> bool" where
  "round z env b \<longleftrightarrow> (editable_all env b \<longrightarrow> valid_block z b \<longrightarrow> reads_all z env (blockToTiptap env b) (canon_block b))"

lemma round_kids:
  "(\<And>b. b \<in> set k \<Longrightarrow> round z env b) \<Longrightarrow> \<forall>b \<in> set k. editable_all env b \<Longrightarrow> list_all (valid_block z) k \<Longrightarrow>
   reads_all z env (concat (map (blockToTiptap env) k)) (concat (map canon_block k))"
  by (rule reads_all_concat) (auto simp: round_def list_all_iff)

lemma container_round:
  assumes kids: "\<And>c. c \<in> set k \<Longrightarrow> round z env c"
    and b: "b \<in> {ListItem i k, Quote i k, TableRow i k, TableCell i k, Column i w k, ColumnList i k,
      BulletList i k, OrderedList i k}"
  shows "round z env b"
  unfolding round_def
proof (intro impI)
  assume e: "editable_all env b" and v: "valid_block z b"
  have k: "block_children b = k" and id: "isUuidV7 env i" "i \<noteq> []"
    using b e editable_all_iff [of env b] by (auto simp: editable_def)
  have "\<forall>c \<in> set k. editable_all env c" using e k editable_all_iff [of env b] by simp
  moreover have vk: "list_all (valid_block z) k" using b v by auto
  ultimately have "reads_all z env (concat (map (blockToTiptap env) k)) (concat (map canon_block k))"
    using kids by (intro round_kids)
  note step = container_reads [OF id _ this]
  show "reads_all z env (blockToTiptap env b) (canon_block b)"
    using b v canon_kinds [of _ k]
    by (auto intro!: step simp: pm_eval node_case_def Let_def childBlocks_with_def list_item_nodes
        listItems_with_def blockSchema_obj schema_eval kids_array nested_arrays)
qed

text \<open>Blocks with inline content: the content is read first.\<close>

lemma content_array:
  "list_all2 (\<lambda>v n. inlineNodeSchema z v = Some n) vs c \<Longrightarrow> z_array (inlineNodeSchema z) (JArr vs) = Some c"
  by (simp add: z_array_Some mapO_Some_iff)

lemma heading_reads:
  assumes "isUuidV7 env i" "i \<noteq> []" "z_uuid z i" "int_in 1 6 l" "list_all (valid_inline z) c"
  shows "reads z env (textBlock ''heading'' i c [(''level'', encode_int l)]) (Heading i l None (canon_inlines c) None)"
proof (rule readsI [OF assms(1,2)])
  show "getp (pm_attrs (textBlock ''heading'' i c [(''level'', encode_int l)])) (js ''id'') = JStr i"
    by (simp add: textBlock_def pm_eval)
  fix whr st
  obtain vs where "inlineContent (inlinesToTiptap c) whr = Inr vs"
    and vs: "list_all2 (\<lambda>v n. inlineNodeSchema z v = Some n) vs (canon_inlines c)"
    using inlines_read [OF assms(5)] unfolding reads_inline_def by blast
  then show "\<exists>v. node_case z env (singleBlock z env) (textBlock ''heading'' i c [(''level'', encode_int l)]) whr i st =
      (Inr (Some v), st) \<and> blockSchema z v = Some (Heading i l None (canon_inlines c) None)"
    using assms(3,4)
    by (simp add: textBlock_def node_case_def Let_def pm_eval blockSchema_obj schema_eval content_array
        max_safe_integer_def z_optional_def)
qed

lemma paragraph_reads:
  assumes "isUuidV7 env i" "i \<noteq> []" "z_uuid z i" "list_all (valid_inline z) c"
  shows "reads z env (paragraphFromInline (Some i) c) (Paragraph i (canon_inlines c))"
proof (rule readsI [OF assms(1,2)])
  show "getp (pm_attrs (paragraphFromInline (Some i) c)) (js ''id'') = JStr i"
    by (simp add: paragraphFromInline_def pm_eval)
  fix whr st
  obtain vs where "inlineContent (inlinesToTiptap c) whr = Inr vs"
    and vs: "list_all2 (\<lambda>v n. inlineNodeSchema z v = Some n) vs (canon_inlines c)"
    using inlines_read [OF assms(4)] unfolding reads_inline_def by blast
  then show "\<exists>v. node_case z env (singleBlock z env) (paragraphFromInline (Some i) c) whr i st =
      (Inr (Some v), st) \<and> blockSchema z v = Some (Paragraph i (canon_inlines c))"
    using assms(3)
    by (simp add: paragraphFromInline_def node_case_def Let_def pm_eval blockSchema_obj schema_eval content_array)
qed

definition todo_node :: "jstr \<Rightarrow> bool \<Rightarrow> inline list \<Rightarrow> pm_node list \<Rightarrow> pm_node" where
  "todo_node i d c ns = block_node ''todoBlock'' [(''id'', JStr i), (''checked'', JBool d)] (paragraphFromInline None c # ns)"

lemma todo_reads:
  assumes "isUuidV7 env i" "i \<noteq> []" "z_uuid z i" "list_all (valid_inline z) c" "reads_all z env ns bs"
  shows "reads z env (todo_node i d c ns) (Todo i d (canon_inlines c) (if bs = [] then None else Some bs))"
proof (rule readsI [OF assms(1,2)])
  show "getp (pm_attrs (todo_node i d c ns)) (js ''id'') = JStr i"
    by (simp add: todo_node_def pm_eval)
  fix whr st
  obtain cs where cs: "inlineContent (inlinesToTiptap c) (whr @ js ''.content[0]'') = Inr cs"
    "list_all2 (\<lambda>v n. inlineNodeSchema z v = Some n) cs (canon_inlines c)"
    using inlines_read [OF assms(4)] unfolding reads_inline_def by blast
  obtain vs where vs: "blocksToAst_with (singleBlock z env) ns (whr @ js ''.content'') st = (Inr vs, st)"
    "list_all2 (\<lambda>v b. blockSchema z v = Some b) vs bs"
    using reads_all_blocks [OF assms(5)] by blast
  have "vs = [] \<longleftrightarrow> bs = []" using vs(2) by auto
  with cs vs show "\<exists>v. node_case z env (singleBlock z env) (todo_node i d c ns) whr i st =
      (Inr (Some v), st) \<and> blockSchema z v = Some (Todo i d (canon_inlines c) (if bs = [] then None else Some bs))"
    using assms(3)
    by (simp add: todo_node_def paragraphFromInline_def node_case_def Let_def pm_eval firstParagraphContent_with_def
        blockSchema_obj schema_eval content_array kids_array z_optional_def)
qed

lemma toggle_reads:
  assumes "isUuidV7 env i" "i \<noteq> []" "z_uuid z i" "list_all (valid_inline z) c" "reads_all z env ns bs"
    and "json_parse env (json_stringify env (encode_inlines c)) = Some (encode_inlines c)"
  shows "reads z env (block_node ''toggleBlock'' [(''id'', JStr i),
       (''summaryJson'', JStr (json_stringify env (encode_inlines c)))] ns) (Toggle i c (Some bs))"
  using assms(3,4,6)
  by (intro container_reads [OF assms(1,2) _ assms(5)])
    (simp_all add: node_case_def Let_def pm_eval childBlocks_with_def blockSchema_obj schema_eval kids_array z_optional_def)

lemma callout_schema:
  assumes "z_uuid z i" "pred_option (len_in 1 64) ic" "list_all2 (\<lambda>v b. blockSchema z v = Some b) vs bs"
  shows "blockSchema z (block_obj i ''callout'' ((js ''kind'', encode_enum callout_kinds kd) # optf ''icon'' JStr ic @
    optf ''color'' (encode_enum callout_colors) co @ [(js ''children'', JArr vs)])) = Some (Callout i kd ic co bs)"
  unfolding block_obj_def using assms by (simp add: blockSchema_obj schema_eval kids_array)

lemma table_schema:
  assumes "z_uuid z i" "list_all2 (\<lambda>v b. blockSchema z v = Some b) vs bs" "list_all (\<lambda>b. kind_of b = ''table_row'') bs"
  shows "blockSchema z (block_obj i ''table'' (optf ''caption'' JStr c @ optf ''has_column_header'' JBool h @
    optf ''has_row_header'' JBool r @ [(js ''children'', JArr vs)])) = Some (Table i c h r bs)"
  unfolding block_obj_def using assms by (simp add: blockSchema_obj schema_eval nested_arrays)

lemma nonempty_str: "s \<noteq> [] \<Longrightarrow> nonempty s = Some s"
  by (simp add: nonempty_def)

lemma callout_reads:
  assumes "isUuidV7 env i" "i \<noteq> []" "z_uuid z i" "pred_option (len_in 1 64) ic" "reads_all z env ns bs"
  shows "reads z env (block_node ''callout'' [(''id'', JStr i), (''kind'', encode_enum callout_kinds kd), (''icon'', or_empty ic),
        (''color'', case co of None \<Rightarrow> JStr (js ''default'') | Some c \<Rightarrow> encode_enum callout_colors c)] ns)
     (Callout i kd (canon_opt ic) (if co = Some CDefault then None else co) bs)"
proof (rule container_reads [OF assms(1,2) _ assms(5)])
  fix whr st vs
  assume vs: "blocksToAst_with (singleBlock z env) ns (whr @ js ''.content'') st = (Inr vs, st)"
    "list_all2 (\<lambda>v b. blockSchema z v = Some b) vs bs"
  note schema = callout_schema [OF assms(3) pred_canon_opt [OF assms(4)] vs(2),
      of kd "if co = Some CDefault then None else co"]
  show "\<exists>v. node_case z env (singleBlock z env) (block_node ''callout'' [(''id'', JStr i),
        (''kind'', encode_enum callout_kinds kd), (''icon'', or_empty ic),
        (''color'', case co of None \<Rightarrow> JStr (js ''default'') | Some c \<Rightarrow> encode_enum callout_colors c)] ns) whr i st =
      (Inr (Some v), st) \<and> blockSchema z v =
      Some (Callout i kd (canon_opt ic) (if co = Some CDefault then None else co) bs)"
    by (rule exI, rule conjI [OF _ schema], cases co)
      (simp_all add: node_case_def Let_def pm_eval childBlocks_with_def vs(1) str_callout nonempty_str)
qed (simp add: pm_eval)

lemma flag_reads [pm_eval]: "flag h = JBool True \<longleftrightarrow> h = Some True"
  by (auto simp: flag_def)

lemma table_reads:
  assumes "isUuidV7 env i" "i \<noteq> []" "z_uuid z i" "list_all (\<lambda>b. kind_of b = ''table_row'') bs" "reads_all z env ns bs"
  shows "reads z env (block_node ''astTable'' [(''id'', JStr i), (''caption'', or_empty c), (''hasColumnHeader'', flag h),
        (''hasRowHeader'', flag r)] ns) (Table i (canon_opt c) (canon_flag h) (canon_flag r) bs)"
proof (rule container_reads [OF assms(1,2) _ assms(5)])
  fix whr st vs
  assume vs: "blocksToAst_with (singleBlock z env) ns (whr @ js ''.content'') st = (Inr vs, st)"
    "list_all2 (\<lambda>v b. blockSchema z v = Some b) vs bs"
  note schema = table_schema [OF assms(3) vs(2) assms(4), of "canon_opt c" "canon_flag h" "canon_flag r"]
  show "\<exists>v. node_case z env (singleBlock z env) (block_node ''astTable'' [(''id'', JStr i), (''caption'', or_empty c),
        (''hasColumnHeader'', flag h), (''hasRowHeader'', flag r)] ns) whr i st =
      (Inr (Some v), st) \<and> blockSchema z v = Some (Table i (canon_opt c) (canon_flag h) (canon_flag r) bs)"
    by (rule exI, rule conjI [OF _ schema])
      (simp add: node_case_def Let_def pm_eval childBlocks_with_def vs(1) canon_flag_def)
qed (simp add: pm_eval)

text \<open>Blocks whose fields are all attributes of the node.\<close>

lemma one_read: "reads z env n b \<Longrightarrow> reads_all z env [n] [b]"
  by (simp add: reads_all_def)

lemma roundI:
  assumes "isUuidV7 env (block_id b) \<Longrightarrow> block_id b \<noteq> [] \<Longrightarrow>
    \<forall>v \<in> set (payloads b). json_parse env (json_stringify env v) = Some v \<Longrightarrow>
    \<forall>c \<in> set (block_children b). editable_all env c \<Longrightarrow> valid_block z b \<Longrightarrow>
    reads_all z env (blockToTiptap env b) (canon_block b)"
  shows "round z env b"
  using assms editable_all_iff [of env b] by (auto simp: round_def editable_def)

lemma code_round: "round z env (CodeBlock i c l cap)"
  by (rule roundI) (auto simp: pm_eval node_case_def Let_def intro!: one_read reads_encoded)

lemmas [pm_eval] = enc_actions_def [symmetric]

lemma num_positive_zero [pm_eval]: "\<not> num_positive (Dec False 0 0)"
  by (simp add: num_positive_def)

lemma atoms_round:
  "round z env (Preformatted i pk c cap)"
  "round z env (Equation i e cap)"
  "round z env (Breadcrumb i its)"
  "round z env (Button i l cf as)"
  "round z env (Html i h n cap)"
  "round z env (Component i cid cv e dc)"
  "round z env (Image i a t cap)"
  "round z env (Divider i)"
  by (rule roundI; auto simp: pm_eval encode_int_def node_case_def Let_def intro!: one_read reads_encoded)+

lemma media_round:
  "round z env (Video i a p t2 cap)"
  "round z env (Audio i a t ar al du cap)"
  "round z env (File i a nm cap)"
  "round z env (Pdf i a t3 s h2 cap)"
  "round z env (Bookmark i u bt d sn cap)"
  "round z env (LinkPreview i u bt d sn)"
  "round z env (Embed i u t4 pr cap)"
  by (rule roundI; auto simp: pm_eval encode_int_def node_case_def Let_def str_enum nonempty_str
    intro!: one_read reads_encoded split: option.splits)+

text \<open>Every valid block is read back as its canonical form, by recursion into its children.\<close>

lemma heading_round:
  assumes "\<And>b. b \<in> set (kids k) \<Longrightarrow> round z env b"
  shows "round z env (Heading i l t c k)"
proof (rule roundI)
  assume *: "isUuidV7 env (block_id (Heading i l t c k))" "block_id (Heading i l t c k) \<noteq> []"
    "\<forall>c \<in> set (block_children (Heading i l t c k)). editable_all env c" "valid_block z (Heading i l t c k)"
  then have "reads_all z env (concat (map (blockToTiptap env) (kids k))) (concat (map canon_block (kids k)))"
    by (intro round_kids assms) (auto simp: kids_def split: option.splits)
  with * show "reads_all z env (blockToTiptap env (Heading i l t c k)) (canon_block (Heading i l t c k))"
    using heading_reads [of env i z l c] by (auto simp: reads_all_def)
qed

lemma todo_round:
  assumes "\<And>b. b \<in> set (kids k) \<Longrightarrow> round z env b"
  shows "round z env (Todo i d c k)"
proof (rule roundI)
  assume *: "isUuidV7 env (block_id (Todo i d c k))" "block_id (Todo i d c k) \<noteq> []"
    "\<forall>c \<in> set (block_children (Todo i d c k)). editable_all env c" "valid_block z (Todo i d c k)"
  then have "reads_all z env (concat (map (blockToTiptap env) (kids k))) (concat (map canon_block (kids k)))"
    by (intro round_kids assms) (auto simp: kids_def split: option.splits)
  then have "reads z env (todo_node i d c (concat (map (blockToTiptap env) (kids k))))
      (Todo i d (canon_inlines c) (if concat (map canon_block (kids k)) = [] then None
         else Some (concat (map canon_block (kids k)))))"
    using * by (intro todo_reads) simp_all
  then show "reads_all z env (blockToTiptap env (Todo i d c k)) (canon_block (Todo i d c k))"
    by (simp add: reads_all_def todo_node_def Let_def del: concat_eq_Nil_conv)
qed

lemma toggle_round:
  assumes "\<And>b. b \<in> set (kids k) \<Longrightarrow> round z env b"
  shows "round z env (Toggle i c k)"
proof (rule roundI)
  assume *: "isUuidV7 env (block_id (Toggle i c k))" "block_id (Toggle i c k) \<noteq> []"
    "\<forall>c \<in> set (block_children (Toggle i c k)). editable_all env c" "valid_block z (Toggle i c k)"
    and "\<forall>v \<in> set (payloads (Toggle i c k)). json_parse env (json_stringify env v) = Some v"
  moreover from * have "reads_all z env (concat (map (blockToTiptap env) (kids k))) (concat (map canon_block (kids k)))"
    by (intro round_kids assms) (auto simp: kids_def split: option.splits)
  ultimately show "reads_all z env (blockToTiptap env (Toggle i c k)) (canon_block (Toggle i c k))"
    using toggle_reads [of env i z c] by (simp add: reads_all_def)
qed

lemma callout_round:
  assumes "\<And>b. b \<in> set k \<Longrightarrow> round z env b"
  shows "round z env (Callout i kd ic co k)"
proof (rule roundI)
  assume *: "isUuidV7 env (block_id (Callout i kd ic co k))" "block_id (Callout i kd ic co k) \<noteq> []"
    "\<forall>c \<in> set (block_children (Callout i kd ic co k)). editable_all env c" "valid_block z (Callout i kd ic co k)"
  then have "reads_all z env (concat (map (blockToTiptap env) k)) (concat (map canon_block k))"
    by (intro round_kids assms) simp_all
  with * show "reads_all z env (blockToTiptap env (Callout i kd ic co k)) (canon_block (Callout i kd ic co k))"
    using callout_reads [of env i z ic] by (simp add: reads_all_def)
qed

lemma table_round:
  assumes "\<And>b. b \<in> set k \<Longrightarrow> round z env b"
  shows "round z env (Table i c h r k)"
proof (rule roundI)
  assume *: "isUuidV7 env (block_id (Table i c h r k))" "block_id (Table i c h r k) \<noteq> []"
    "\<forall>c \<in> set (block_children (Table i c h r k)). editable_all env c" "valid_block z (Table i c h r k)"
  then have "reads_all z env (concat (map (blockToTiptap env) k)) (concat (map canon_block k))"
    by (intro round_kids assms) simp_all
  with * show "reads_all z env (blockToTiptap env (Table i c h r k)) (canon_block (Table i c h r k))"
    using table_reads [of env i z "concat (map canon_block k)"] canon_kinds [of "''table_row''" k] by (simp add: reads_all_def)
qed

lemma paragraph_round: "round z env (Paragraph i c)"
  by (rule roundI) (auto intro!: one_read paragraph_reads)

lemma block_round: "round z env b"
proof (induction b rule: preorder.induct)
  case (1 b)
  then show ?case
    by (cases b)
      (auto simp: kids_def intro: container_round heading_round todo_round toggle_round callout_round table_round
        paragraph_round code_round atoms_round media_round split: option.splits)
qed

section \<open>Documents\<close>

lemma document_reads:
  assumes "list_all2 (\<lambda>v b. blockSchema z v = Some b) vs bs"
  shows "parseDocument z (JObj [(js ''type'', JStr (js ''document'')), (js ''schema_version'', encode_int 1),
    (js ''children'', JArr vs)]) = Some bs"
  by (simp add: parseDocument_def documentSchema_def schema_eval kids_array [OF assms])

lemma editor_trip:
  assumes "valid_document z d" "d \<noteq> []" "\<forall>b \<in> set (all_blocks d). editable env b"
  shows "\<exists>n. fromAst z env (encode_document d) = Some n \<and> toAst z env n st = (Inr (canon_blocks d), st)"
proof -
  have all: "reads_all z env (blocksToTiptap env d) (canon_blocks d)"
    unfolding blocksToTiptap_def canon_blocks_def using assms block_round
    by (intro round_kids) (auto simp: all_blocks_def editable_all_def valid_document_def)
  obtain vs where "blocksToAst_with (singleBlock z env) (blocksToTiptap env d) (js ''children'') st = (Inr vs, st)"
    and "list_all2 (\<lambda>v b. blockSchema z v = Some b) vs (canon_blocks d)"
    using reads_all_blocks [OF all] by blast
  then show ?thesis
    using document_complete [OF assms(1)] assms(2)
    by (simp add: fromAst_def toAst_def blocksToAst_def pm_eval document_reads of_option_def)
qed

section \<open>What a reader sees of a document\<close>

text \<open>
  The outline of a block, defined on its own: its id, its type, its text and the outlines of the
  blocks below it. \<open>tidy\<close> says that a block has none of the spellings the editor does not keep: no
  empty text, no empty optional string, no default written out or left out against the editor's custom.
\<close>

datatype outline = Outline jstr string jstr "outline list"

fun own_text :: "block \<Rightarrow> jstr" where
  "own_text (Heading _ _ _ c _) = inlineToPlainText c"
| "own_text (Paragraph _ c) = inlineToPlainText c"
| "own_text (Todo _ _ c _) = inlineToPlainText c"
| "own_text (Toggle _ c _) = inlineToPlainText c"
| "own_text (CodeBlock _ c _ _) = c"
| "own_text (Preformatted _ _ c _) = c"
| "own_text (Equation _ e _) = e"
| "own_text (Html _ h _ _) = h"
| "own_text _ = []"

fun outline_of :: "block \<Rightarrow> outline" where
  "outline_of b = Outline (block_id b) (kind_of b) (own_text b) (map outline_of (block_children b))"

declare outline_of.simps [simp del]

definition toggle_heading :: "block \<Rightarrow> bool" where
  "toggle_heading b \<longleftrightarrow> (case b of Heading _ _ t _ _ \<Rightarrow> t = Some True | _ \<Rightarrow> False)"

fun tidy_inline :: "inline \<Rightarrow> bool" where
  "tidy_inline (Text t ms _ _) \<longleftrightarrow> t \<noteq> [] \<and> ms \<noteq> Some []"
| "tidy_inline (InlineCode t) \<longleftrightarrow> t \<noteq> []"
| "tidy_inline (ExternalLink _ d) \<longleftrightarrow> d \<noteq> []"
| "tidy_inline (UnresolvedReference _ _ e) \<longleftrightarrow> e \<noteq> Some []"
| "tidy_inline (PageReference _ h _) \<longleftrightarrow> h \<noteq> Some []"
| "tidy_inline (CitationReference _ d) \<longleftrightarrow> d \<noteq> Some []"
| "tidy_inline (DateMention _ e _) \<longleftrightarrow> e \<noteq> Some []"
| "tidy_inline _ \<longleftrightarrow> True"

fun tidy :: "block \<Rightarrow> bool" where
  "tidy (Heading _ _ t c _) \<longleftrightarrow> t = None \<and> list_all tidy_inline c"
| "tidy (Paragraph _ c) \<longleftrightarrow> list_all tidy_inline c"
| "tidy (Todo _ _ c k) \<longleftrightarrow> list_all tidy_inline c \<and> k \<noteq> Some []"
| "tidy (Toggle _ _ k) \<longleftrightarrow> k \<noteq> None"
| "tidy (Callout _ _ ic co _) \<longleftrightarrow> ic \<noteq> Some [] \<and> co \<noteq> Some CDefault"
| "tidy (CodeBlock _ _ l cap) \<longleftrightarrow> l \<noteq> Some [] \<and> cap \<noteq> Some []"
| "tidy (Preformatted _ _ _ cap) \<longleftrightarrow> cap \<noteq> Some []"
| "tidy (Equation _ _ cap) \<longleftrightarrow> cap \<noteq> Some []"
| "tidy (Button _ _ c _) \<longleftrightarrow> c \<noteq> Some []"
| "tidy (Html _ _ _ cap) \<longleftrightarrow> cap \<noteq> Some []"
| "tidy (Image _ _ _ cap) \<longleftrightarrow> cap \<noteq> Some []"
| "tidy (Video _ _ p t cap) \<longleftrightarrow> p \<noteq> Some [] \<and> t \<noteq> Some [] \<and> cap \<noteq> Some []"
| "tidy (Audio _ _ _ ar al du cap) \<longleftrightarrow>
     ar \<noteq> Some [] \<and> al \<noteq> Some [] \<and> cap \<noteq> Some [] \<and> pred_option num_positive du"
| "tidy (File _ _ _ cap) \<longleftrightarrow> cap \<noteq> Some []"
| "tidy (Pdf _ _ t s _ cap) \<longleftrightarrow> t \<noteq> Some [] \<and> s \<noteq> Some 1 \<and> cap \<noteq> Some []"
| "tidy (Bookmark _ _ _ d s cap) \<longleftrightarrow> d \<noteq> Some [] \<and> s \<noteq> Some [] \<and> cap \<noteq> Some []"
| "tidy (LinkPreview _ _ _ d s) \<longleftrightarrow> d \<noteq> Some [] \<and> s \<noteq> Some []"
| "tidy (Embed _ _ t _ cap) \<longleftrightarrow> t \<noteq> Some [] \<and> cap \<noteq> Some []"
| "tidy (Table _ c h r _) \<longleftrightarrow> c \<noteq> Some [] \<and> h \<noteq> Some False \<and> r \<noteq> Some False"
| "tidy _ \<longleftrightarrow> True"

lemma text_canon_inlines [simp]: "inlineToPlainText (canon_inlines c) = inlineToPlainText c"
proof -
  have "concat (map inline_text (canon_inline n)) = inline_text n" for n
    by (cases n) (auto simp: canon_opt_def)
  then show ?thesis
    by (induction c) (simp_all add: canon_inlines_def inlineToPlainText_def)
qed

lemma tidy_canon_inlines: "list_all tidy_inline c \<Longrightarrow> canon_inlines c = c"
proof -
  have "tidy_inline n \<Longrightarrow> canon_inline n = [n]" for n
    by (cases n) (auto simp: canon_opt_def)
  then show "list_all tidy_inline c \<Longrightarrow> canon_inlines c = c"
    by (induction c) (simp_all add: canon_inlines_def)
qed

lemma canon_flag_id: "h \<noteq> Some False \<Longrightarrow> canon_flag h = h"
  by (cases h) (simp_all add: canon_flag_def)

lemma map_concat_one: "(\<And>b. b \<in> set k \<Longrightarrow> map f (g b) = [f b]) \<Longrightarrow> map f (concat (map g k)) = map f k"
  by (induction k) simp_all

lemma concat_one: "(\<And>b. b \<in> set k \<Longrightarrow> g b = [b]) \<Longrightarrow> concat (map g k) = k"
  by (induction k) simp_all

lemma preorder_child: "\<forall>c \<in> set (preorder b). P c \<Longrightarrow> a \<in> set (block_children b) \<Longrightarrow> \<forall>c \<in> set (preorder a). P c"
  by (subst (asm) preorder.simps) auto

lemma outline_canon:
  "\<forall>c \<in> set (preorder b). \<not> toggle_heading c \<Longrightarrow> valid_block z b \<Longrightarrow> map outline_of (canon_block b) = [outline_of b]"
proof (induction b rule: preorder.induct)
  case (1 b)
  have kids: "map outline_of (concat (map canon_block k)) = map outline_of k"
    if "set k \<subseteq> set (block_children b)" "list_all (valid_block z) k" for k
    using 1(1) preorder_child [OF 1(2)] that by (intro map_concat_one) (auto simp: list_all_iff)
  have none: "concat (map canon_block k) = [] \<longleftrightarrow> k = []"
    if "set k \<subseteq> set (block_children b)" "list_all (valid_block z) k" for k
    using kids [OF that] by (metis map_is_Nil_conv)
  have own: "\<not> toggle_heading b" using 1(2) by (subst (asm) preorder.simps) simp
  show ?case
    using kids none 1(3) own
    by (cases b) (auto simp: outline_of.simps kids_def toggle_heading_def Let_def
        simp del: concat_eq_Nil_conv split: option.splits)
qed

lemma tidy_canon:
  "\<forall>c \<in> set (preorder b). tidy c \<Longrightarrow> valid_block z b \<Longrightarrow> canon_block b = [b]"
proof (induction b rule: preorder.induct)
  case (1 b)
  have kids: "concat (map canon_block k) = k"
    if "set k \<subseteq> set (block_children b)" "list_all (valid_block z) k" for k
    using 1(1) preorder_child [OF 1(2)] that by (intro concat_one) (auto simp: list_all_iff)
  have own: "tidy b" using 1(2) by (subst (asm) preorder.simps) simp
  show ?case
    using kids 1(3) own
    by (cases b) (auto simp: kids_def Let_def canon_opt_def canon_flag_id tidy_canon_inlines
        simp del: concat_eq_Nil_conv split: option.splits)
qed


definition sample_editor :: editor_env where
  "sample_editor = id_env.extend sample_ids
     \<lparr>json_stringify = (\<lambda>_. js ''[]''), json_parse = (\<lambda>_. Some (JArr []))\<rparr>"

definition sample_v7 :: jstr where
  "sample_v7 = js ''71890a5d-ac96-774b-bcce-b302099a8057''"

definition sample_page :: document where
  "sample_page = [Heading sample_v7 2 None [Text [] None None None, InlineCode (js ''a'')] None,
     Toggle sample_v7 [] None, CodeBlock sample_v7 (js ''x'') (Some []) None]"

definition toggling_page :: document where
  "toggling_page = [Heading sample_v7 2 (Some True) [InlineCode (js ''a'')] (Some [Toggle sample_v7 [] (Some [])])]"


text \<open>A toggleable heading loses its toggle state, and the blocks below it end up beside it.\<close>

lemma toggling_flattened:
  "\<exists>n. fromAst sample_env sample_editor (encode_document toggling_page) = Some n \<and>
     toAst sample_env sample_editor n createAdapterState =
       (Inr [Heading sample_v7 2 None [InlineCode (js ''a'')] None, Toggle sample_v7 [] (Some [])], createAdapterState)"
proof -
  have "valid_document sample_env toggling_page"
    by (simp add: valid_document_def toggling_page_def sample_env_def sample_v7_def int_in_def)
  moreover have "\<forall>b \<in> set (all_blocks toggling_page). editable sample_editor b"
    by (simp add: all_blocks_def preorder.simps toggling_page_def editable_def sample_editor_def sample_ids_def
        id_env.defs isUuidV7_def sample_v7_def encode_inlines_def js_eval)
  moreover have "canon_blocks toggling_page =
      [Heading sample_v7 2 None [InlineCode (js ''a'')] None, Toggle sample_v7 [] (Some [])]"
    by (simp add: canon_blocks_def toggling_page_def canon_inlines_def)
  ultimately show ?thesis
    using editor_trip [of sample_env toggling_page sample_editor] by (simp add: toggling_page_def)
qed

section \<open>The second time nothing changes\<close>

lemma canon_inlines_idem [simp]: "canon_inlines (canon_inlines c) = canon_inlines c"
proof -
  have "concat (map canon_inline (canon_inline n)) = canon_inline n" for n
    by (cases n) (auto simp: canon_opt_def)
  then show ?thesis
    by (induction c) (simp_all add: canon_inlines_def)
qed

lemma concat_idem:
  "(\<And>b. b \<in> set k \<Longrightarrow> concat (map f (f b)) = f b) \<Longrightarrow> concat (map f (concat (map f k))) = concat (map f k)"
  by (induction k) simp_all

lemma canon_opt_idem [simp]: "canon_opt (canon_opt s) = canon_opt s"
  by (simp add: canon_opt_def)

lemma canon_block_idem: "concat (map canon_block (canon_block b)) = canon_block b"
proof (induction b rule: preorder.induct)
  case (1 b)
  have kids: "concat (map canon_block (concat (map canon_block k))) = concat (map canon_block k)"
    if "set k \<subseteq> set (block_children b)" for k
    using 1 that by (intro concat_idem) blast
  show ?case
    using kids by (cases b) (auto simp: kids_def Let_def canon_flag_def simp del: concat_eq_Nil_conv split: option.splits)
qed

lemma canon_blocks_idem: "canon_blocks (canon_blocks d) = canon_blocks d"
  unfolding canon_blocks_def by (rule concat_idem) (rule canon_block_idem)

lemma canon_inlines_valid: "list_all (valid_inline z) c \<Longrightarrow> list_all (valid_inline z) (canon_inlines c)"
proof -
  have "valid_inline z n \<Longrightarrow> list_all (valid_inline z) (canon_inline n)" for n
    by (cases n) simp_all
  then show "list_all (valid_inline z) c \<Longrightarrow> list_all (valid_inline z) (canon_inlines c)"
    by (induction c) (simp_all add: canon_inlines_def)
qed

lemma list_all_concat_map:
  "(\<And>b. b \<in> set k \<Longrightarrow> P b \<Longrightarrow> list_all Q (f b)) \<Longrightarrow> list_all P k \<Longrightarrow> list_all Q (concat (map f k))"
  by (induction k) simp_all

lemma canon_block_valid: "valid_block z b \<Longrightarrow> list_all (valid_block z) (canon_block b)"
proof (induction b rule: preorder.induct)
  case (1 b)
  have kids: "list_all (valid_block z) (concat (map canon_block k))"
    if "set k \<subseteq> set (block_children b)" "list_all (valid_block z) k" for k
    using 1(1) that by (intro list_all_concat_map [of k "valid_block z"]) blast+
  have len: "len_in m n (concat (map canon_block k)) = len_in m n k"
    if "list_all (\<lambda>c. kind_of c = ''column'') k" for m n k
    using canon_kinds [OF that] by (simp add: len_in_def)
  note typed = len canon_kinds [of "''list_item''"] canon_kinds [of "''table_row''"] canon_kinds [of "''table_cell''"]
    canon_kinds [of "''column''"]
  show ?case
    using kids 1(2)
    by (cases b) (auto simp: kids_def Let_def canon_inlines_valid typed simp del: concat_eq_Nil_conv split: option.splits)
qed

lemma canon_block_editable:
  "editable_all env b \<Longrightarrow> list_all (editable_all env) (canon_block b)"
proof (induction b rule: preorder.induct)
  case (1 b)
  have kids: "list_all (editable_all env) (concat (map canon_block k))"
    if "set k \<subseteq> set (block_children b)" for k
  proof (rule list_all_concat_map)
    show "list_all (editable_all env) k"
      using that 1(2) editable_all_iff [of env b] by (auto simp: list_all_iff)
  qed (use 1(1) that in blast)
  have own: "editable env b" using 1(2) editable_all_iff [of env b] by simp
  note iff = editable_all_iff [of env "hd (canon_block b)"]
  show ?case
    using kids own iff
    by (cases b) (auto simp: kids_def Let_def editable_def list_all_iff simp del: concat_eq_Nil_conv set_concat split: option.splits)
qed

text \<open>C24: what comes back from the editor is settled: a further trip through the editor changes nothing.\<close>

theorem editor_settles:
  assumes "valid_document z d" "canon_blocks d \<noteq> []" "\<forall>b \<in> set (all_blocks d). editable env b"
  shows "\<exists>n. fromAst z env (encode_document (canon_blocks d)) = Some n \<and>
    toAst z env n st = (Inr (canon_blocks d), st)"
proof -
  have "valid_document z (canon_blocks d)"
    using assms(1) canon_block_valid by (auto simp: valid_document_def canon_blocks_def list_all_iff)
  moreover have "\<forall>b \<in> set (all_blocks (canon_blocks d)). editable env b"
  proof -
    have "list_all (editable_all env) (canon_blocks d)" unfolding canon_blocks_def
      using assms(3) canon_block_editable
      by (intro list_all_concat_map [of d "editable_all env"]) (auto simp: all_blocks_def editable_all_def list_all_iff)
    then show ?thesis by (auto simp: all_blocks_def editable_all_def list_all_iff)
  qed
  from editor_trip [OF calculation(1) assms(2) this] show ?thesis by (simp add: canon_blocks_idem)
qed

lemma editor_settles_witness:
  "\<exists>n. fromAst sample_env sample_editor (encode_document [Toggle sample_v7 [] (Some [])]) = Some n \<and>
     toAst sample_env sample_editor n createAdapterState = (Inr [Toggle sample_v7 [] (Some [])], createAdapterState)"
proof -
  have "valid_document sample_env [Toggle sample_v7 [] None]"
    by (simp add: valid_document_def sample_env_def sample_v7_def)
  moreover have "canon_blocks [Toggle sample_v7 [] None] = [Toggle sample_v7 [] (Some [])]"
    by (simp add: canon_blocks_def)
  moreover have "\<forall>b \<in> set (all_blocks [Toggle sample_v7 [] None]). editable sample_editor b"
    by (simp add: all_blocks_def preorder.simps editable_def sample_editor_def sample_ids_def
        id_env.defs isUuidV7_def sample_v7_def encode_inlines_def js_eval)
  ultimately show ?thesis
    using editor_settles [of sample_env "[Toggle sample_v7 [] None]" sample_editor] by simp
qed

section \<open>An empty document\<close>

text \<open>An empty document is shown as one empty paragraph, and comes back as that paragraph with the
  next id the session draws.\<close>

theorem editor_empty:
  assumes "z_uuid z (uuid_v7 env 0)" "\<not> isUuidV7 env (js ''missing:children[0]:paragraph'')"
  shows "fromAst z env (encode_document []) = Some (PM (Some (js ''doc'')) []
      (Some [PM (Some (js ''paragraph'')) [] None None None]) None None) \<and>
    fst (toAst z env (PM (Some (js ''doc'')) [] (Some [PM (Some (js ''paragraph'')) [] None None None]) None None)
      createAdapterState) = Inr [Paragraph (uuid_v7 env 0) []]"
proof -
  have key: "js ''missing:'' @ at_index (js ''children'') 0 @ js '':'' @ js ''paragraph'' =
      js ''missing:children[0]:paragraph''"
    by (simp add: at_index_def nat_str_def digits.simps digit_cu_def js_eval)
  have id: "blockId env (PM (Some (js ''paragraph'')) [] None None None) (at_index (js ''children'') 0) createAdapterState =
      (Inr (uuid_v7 env 0), \<lparr>generatedIds = [(js ''missing:children[0]:paragraph'', uuid_v7 env 0)], drawn = 1\<rparr>)"
    using assms(2) by (simp add: blockId_def str_attr_def key resolveBlockId_def createAdapterState_def newBlockId_def)
  have "blockSchema z (block_obj (uuid_v7 env 0) ''paragraph'' [(js ''content'', JArr [])]) =
      Some (Paragraph (uuid_v7 env 0) [])"
    unfolding block_obj_def using assms(1) by (simp add: blockSchema_obj schema_eval z_array_def)
  note doc = document_reads [of z "[_]" "[_]", simplified, OF this]
  show ?thesis
    using document_complete [of z "[]"]
    by (simp add: fromAst_def valid_document_def toAst_def blocksToAst_def blocksToAst_with_def content_of_def
        singleBlock.simps singleBlock_step_def id pm_eval node_case_def Let_def inlineContent_def present_def
        doc of_option_def)
qed

lemma editor_empty_witness:
  "fst (toAst (sample_env\<lparr>z_uuid := (\<lambda>_. True)\<rparr>) sample_editor
     (PM (Some (js ''doc'')) [] (Some [PM (Some (js ''paragraph'')) [] None None None]) None None) createAdapterState) =
   Inr [Paragraph [55] []]"
  using editor_empty [of "sample_env\<lparr>z_uuid := (\<lambda>_. True)\<rparr>" sample_editor]
  by (simp add: sample_editor_def sample_ids_def id_env.defs isUuidV7_def js_eval)

section \<open>Nodes outside the table\<close>

text \<open>A block node whose type is not in the table of block types leaves no block and no error behind.\<close>

theorem unknown_block_dropped:
  assumes "\<forall>p \<in> set ast_to_editor_block. \<not> is_type n (snd p)"
  shows "fst (singleBlock z env n whr st) = Inr None"
proof -
  have "node_case z env (singleBlock z env) n whr i st' = (Inr None, st')" for i st'
    using assms by (simp add: node_case_def ast_to_editor_block_def retM_def)
  moreover have "\<exists>i st'. blockId env n whr st = (Inr i, st')"
    by (simp add: blockId_def Let_def split: prod.split)
  ultimately show ?thesis
    by (auto simp: singleBlock.simps [of z env n] singleBlock_step_def bindM_def)
qed

lemma unknown_block_dropped_witness:
  "fst (singleBlock sample_env sample_editor (PM (Some (js ''iframe'')) [] None None None) [] createAdapterState) = Inr None"
  by (rule unknown_block_dropped) (simp add: ast_to_editor_block_def is_type_PM)

end
