(* ===== verification/EditorSchema.thy ===== *)
theory EditorSchema
  imports RoundTrip
begin

text \<open>
  \<open>lib/editor/schema.ts\<close>: the node and mark types of the editor with their attributes, and the
  plugin that gives blocks their ids.

  Tiptap and ProseMirror are not code of the repository. \<open>editor_kit\<close> holds what \<open>StarterKit\<close> and
  \<open>Link\<close> contribute: the attributes of their nodes and marks, and the rank of the marks in the
  schema. \<open>nodeFromJSON\<close> is what the attribute declarations of the repository do to a document that is
  loaded: a node has exactly the attributes its type declares, a missing one with its default, and its
  marks in rank order. \<open>settle\<close> runs the id plugin of the repository alone: its transaction is
  dispatched, which calls it again, until it appends none.

  Not modelled of ProseMirror and the kit: the joining of adjacent texts with the same marks, the
  paragraph that the trailing-node extension of \<open>StarterKit\<close> appends after a last block that is not a
  paragraph, and schema checks. So nothing here says what the whole editor shows or saves for a document;
  the lemmas compare the adapters with and without the attribute declarations and the id plugin.
\<close>

record editor_kit =
  kit_nodes :: "jstr \<Rightarrow> fields"
  kit_marks :: "jstr \<Rightarrow> fields"
  mark_rank :: "jstr \<Rightarrow> nat"

section \<open>The node types\<close>

definition blockTypesWithId :: "string list" where
  "blockTypesWithId =
    [''paragraph'', ''heading'', ''bulletList'', ''orderedList'', ''listItem'', ''blockquote'', ''codeBlock'',
     ''horizontalRule'', ''preformatted'', ''equation'', ''todoBlock'', ''toggleBlock'', ''breadcrumb'', ''columnList'',
     ''column'', ''pageButton'', ''htmlBlock'', ''callout'', ''componentBlock'', ''imageAsset'', ''videoAsset'',
     ''audioAsset'', ''fileAsset'', ''pdfAsset'', ''bookmark'', ''linkPreview'', ''embedBlock'', ''astTable'',
     ''astTableRow'', ''astTableCell'']"

definition idAttrs :: "(string \<times> jsval) list \<Rightarrow> (string \<times> jsval) list" where
  "idAttrs extra = (''id'', JNull) # extra"

definition containerNode :: "string \<Rightarrow> (string \<times> jsval) list \<Rightarrow> string \<times> (string \<times> jsval) list" where
  "containerNode name attrs = (name, idAttrs attrs)"

definition atomNode :: "string \<Rightarrow> (string \<times> jsval) list \<Rightarrow> string \<times> (string \<times> jsval) list" where
  "atomNode name attrs = (name, idAttrs attrs)"

definition inlineAtomNode :: "string \<Rightarrow> (string \<times> jsval) list \<Rightarrow> string \<times> (string \<times> jsval) list" where
  "inlineAtomNode name attrs = (name, attrs)"

text \<open>The attributes that start out empty.\<close>

definition empties :: "string list \<Rightarrow> (string \<times> jsval) list" where
  "empties ks = map (\<lambda>k. (k, JStr [])) ks"

definition editorExtensions :: "(string \<times> (string \<times> jsval) list) list" where
  "editorExtensions =
    [containerNode ''callout'' [(''kind'', JStr (js ''info'')), (''icon'', JStr []), (''color'', JStr (js ''default''))],
     atomNode ''preformatted'' ((''kind'', JStr (js ''plain'')) # empties [''caption'', ''text'']),
     atomNode ''equation'' (empties [''expression'', ''caption'']),
     containerNode ''todoBlock'' [(''checked'', JBool False)],
     containerNode ''toggleBlock'' [(''summaryText'', JStr [35814, 24773]), (''summaryJson'', JStr (js ''[]''))],
     atomNode ''breadcrumb'' [(''itemsJson'', JStr (js ''[]''))],
     containerNode ''columnList'' [],
     containerNode ''column'' [(''widthRatio'', JNum (Dec False 1 0))],
     atomNode ''pageButton'' [(''label'', JStr [36816, 34892, 25805, 20316]), (''confirmation'', JStr []),
       (''actionsJson'', JStr (js ''[]''))],
     atomNode ''htmlBlock'' [(''html'', JStr []), (''height'', JNum (Dec False 24 1)), (''caption'', JStr [])],
     containerNode ''astTable'' [(''caption'', JStr []), (''hasColumnHeader'', JBool False), (''hasRowHeader'', JBool False)],
     containerNode ''astTableRow'' [],
     containerNode ''astTableCell'' [],
     atomNode ''componentBlock'' [(''componentId'', JStr []), (''componentVersion'', JNum (Dec False 1 0)),
       (''entityId'', JStr []), (''displayConfig'', JStr (js ''{}''))],
     atomNode ''imageAsset'' (empties [''assetRevisionId'', ''altText'', ''caption'']),
     atomNode ''videoAsset'' (empties [''assetRevisionId'', ''posterAssetRevisionId'', ''title'', ''caption'']),
     atomNode ''audioAsset'' (empties [''assetRevisionId'', ''title'', ''artist'', ''album''] @
       [(''durationSeconds'', JNum (Dec False 0 0)), (''caption'', JStr [])]),
     atomNode ''fileAsset'' (empties [''assetRevisionId'', ''name'', ''caption'']),
     atomNode ''pdfAsset'' (empties [''assetRevisionId'', ''title''] @ [(''startPage'', JNum (Dec False 1 0)),
       (''height'', JNum (Dec False 64 1)), (''caption'', JStr [])]),
     atomNode ''bookmark'' (empties [''url'', ''title'', ''description'', ''siteName'', ''caption'']),
     atomNode ''linkPreview'' (empties [''url'', ''title'', ''description'', ''siteName'']),
     atomNode ''embedBlock'' (empties [''url'', ''title''] @ [(''provider'', JStr (js ''none'')), (''caption'', JStr [])]),
     inlineAtomNode ''pageReference'' (empties [''targetPageId'', ''targetHeadingBlockId'', ''displayText'',
       ''resolutionStatus'', ''targetNamespace'', ''normalizedTitle'', ''expectedEntityType'']),
     inlineAtomNode ''pageAnchorReference'' (empties [''targetPageId'', ''targetHeadingBlockId'', ''displayText'']),
     inlineAtomNode ''entityReference'' (empties [''entityId'', ''displayText'']),
     inlineAtomNode ''claimReference'' (empties [''claimId'', ''displayText'']),
     inlineAtomNode ''citationReference'' (empties [''citationId'', ''displayText'']),
     inlineAtomNode ''mathInline'' (empties [''expression'']),
     inlineAtomNode ''mention'' (empties [''actorId'', ''displayText'']),
     inlineAtomNode ''dateMention'' (empties [''date'', ''endDate'', ''displayText''])]"

text \<open>The global attributes of \<open>BlockIds\<close>: an id for every block, a caption for code.\<close>

definition globalAttributes :: "string \<Rightarrow> (string \<times> jsval) list" where
  "globalAttributes t = (if t \<in> set blockTypesWithId then idAttrs [] else []) @
     (if t = ''codeBlock'' then [(''caption'', JStr [])] else [])"

definition js_fields :: "(string \<times> jsval) list \<Rightarrow> fields" where
  "js_fields as = map (\<lambda>p. (js (fst p), snd p)) as"

text \<open>A type name of the editor as a literal, where it is one of ours. The types of \<open>editorExtensions\<close>
  that get a global id declare it themselves.\<close>

definition named :: "jstr \<Rightarrow> string option" where
  "named t = find (\<lambda>s. js s = t) (map fst editorExtensions @ blockTypesWithId)"

definition node_attributes :: "editor_kit \<Rightarrow> jstr \<Rightarrow> fields" where
  "node_attributes K t =
     (case named t of None \<Rightarrow> kit_nodes K t
      | Some s \<Rightarrow> (case map_of editorExtensions s of Some as \<Rightarrow> js_fields as
          | None \<Rightarrow> kit_nodes K t @ js_fields (globalAttributes s)))"

text \<open>The marks: \<open>InlineCode\<close> without attributes, the two colours, and those of the kit.\<close>

definition mark_attributes :: "editor_kit \<Rightarrow> jstr \<Rightarrow> fields" where
  "mark_attributes K t =
     (if t = js ''inlineCode'' then []
      else if t = js ''textColor'' \<or> t = js ''backgroundColor'' then [(js ''color'', JStr [])]
      else kit_marks K t)"

section \<open>Loading a document\<close>

definition computeAttrs :: "fields \<Rightarrow> fields \<Rightarrow> fields" where
  "computeAttrs spec given = map (\<lambda>(k, d). (k, if getp given k = JUndef then d else getp given k)) spec"

definition load_marks :: "editor_kit \<Rightarrow> (jstr \<times> fields) list \<Rightarrow> (jstr \<times> fields) list" where
  "load_marks K ms = sort_key (\<lambda>m. mark_rank K (fst m)) (map (\<lambda>(t, as). (t, computeAttrs (mark_attributes K t) as)) ms)"

fun nodeFromJSON :: "editor_kit \<Rightarrow> pm_node \<Rightarrow> pm_node" where
  "nodeFromJSON K (PM t a c x m) =
     PM t (computeAttrs (case t of None \<Rightarrow> [] | Some t \<Rightarrow> node_attributes K t) a)
       (map_option (map (nodeFromJSON K)) c) x (map_option (load_marks K) m)"

section \<open>The block ids\<close>

definition lacks_id :: "pm_node \<Rightarrow> bool" where
  "lacks_id n \<longleftrightarrow> (\<exists>t \<in> set blockTypesWithId. is_type n t) \<and> \<not> truthy (getp (pm_attrs n) (js ''id''))"

text \<open>The walk over the descendants in document order, giving each block that lacks one an id.\<close>

fun giveId :: "'a id_env_scheme \<Rightarrow> pm_node \<Rightarrow> adapter \<Rightarrow> pm_node \<times> adapter"
  and giveIds :: "'a id_env_scheme \<Rightarrow> pm_node list \<Rightarrow> adapter \<Rightarrow> pm_node list \<times> adapter" where
  "giveId env (PM t a c x m) st =
     (let (a', st') = (if lacks_id (PM t a c x m)
            then (let (i, s) = newBlockId env st in (assoc_put (js ''id'') (JStr i) a, s)) else (a, st));
          (c', st'') = (case c of None \<Rightarrow> (None, st') | Some cs \<Rightarrow> apfst Some (giveIds env cs st'))
      in (PM t a' c' x m, st''))"
| "giveIds env [] st = ([], st)"
| "giveIds env (n # ns) st = (let (n', st') = giveId env n st; (ns', st'') = giveIds env ns st' in (n' # ns', st''))"

fun descendants :: "pm_node \<Rightarrow> pm_node list" where
  "descendants n = concat (map (\<lambda>m. m # descendants m) (content_of n))"

declare descendants.simps [simp del]

definition appendTransaction :: "'a id_env_scheme \<Rightarrow> pm_node \<Rightarrow> adapter \<Rightarrow> (pm_node \<times> adapter) option" where
  "appendTransaction env doc st =
     (if list_ex lacks_id (descendants doc)
      then Some (let (ns, st') = giveIds env (content_of doc) st in
        (PM (pm_type doc) (pm_attrs doc) (map_option (\<lambda>_. ns) (pm_content doc)) (pm_text doc) (pm_marks doc), st'))
      else None)"

text \<open>The rounds the id plugin alone starts: after its transaction it is called again.\<close>

partial_function (option) settle :: "'a id_env_scheme \<Rightarrow> pm_node \<Rightarrow> adapter \<Rightarrow> (pm_node \<times> adapter) option" where
  "settle env doc st =
     (case appendTransaction env doc st of None \<Rightarrow> Some (doc, st) | Some (doc', st') \<Rightarrow> settle env doc' st')"

section \<open>The plugin comes to rest\<close>

lemma truthy_nonempty: "i \<noteq> [] \<Longrightarrow> truthy (JStr i)"
  by (cases i) simp_all

lemma descendants_PM: "descendants (PM t a c x m) = concat (map (\<lambda>n. n # descendants n) (content_of (PM t a c x m)))"
  by (rule descendants.simps)

text \<open>What the walk does to one node.\<close>

definition id_given :: "pm_node \<Rightarrow> pm_node \<Rightarrow> bool" where
  "id_given n n' \<longleftrightarrow> pm_type n' = pm_type n \<and> pm_text n' = pm_text n \<and> pm_marks n' = pm_marks n \<and>
     (if lacks_id n then \<exists>i. i \<noteq> [] \<and> pm_attrs n' = assoc_put (js ''id'') (JStr i) (pm_attrs n)
      else pm_attrs n' = pm_attrs n)"

lemma lacks_id_put: "i \<noteq> [] \<Longrightarrow> \<not> lacks_id (PM t (assoc_put (js ''id'') (JStr i) a) c x m)"
  by (simp add: lacks_id_def getp_def map_of_assoc_put truthy_nonempty)

lemma lacks_id_PM: "lacks_id (PM t a c x m) \<longleftrightarrow> lacks_id (PM t a c' x' m')"
  by (simp add: lacks_id_def is_type_def)

lemma id_given_lacks: "id_given n n' \<Longrightarrow> \<not> lacks_id n'"
  by (cases n; cases n') (auto simp: id_given_def lacks_id_put intro: lacks_id_PM [THEN iffD1] split: if_splits)

lemma giveIds_walk:
  assumes "\<And>n. uuid_v7 env n \<noteq> []"
  shows "giveId env n st = (n', st') \<Longrightarrow> list_all2 id_given (n # descendants n) (n' # descendants n') \<and>
      st' = st\<lparr>drawn := drawn st + length (filter lacks_id (n # descendants n))\<rparr>"
    and "giveIds env ns st = (ns', st') \<Longrightarrow>
      list_all2 id_given (concat (map (\<lambda>n. n # descendants n) ns)) (concat (map (\<lambda>n. n # descendants n) ns')) \<and>
      st' = st\<lparr>drawn := drawn st + length (filter lacks_id (concat (map (\<lambda>n. n # descendants n) ns)))\<rparr>"
  using assms
proof (induction env n st and env ns st arbitrary: n' st' and ns' st' rule: giveId_giveIds.induct)
  case (1 env t a c x m st)
  define a' where "a' = (if lacks_id (PM t a c x m) then assoc_put (js ''id'') (JStr (uuid_v7 env (drawn st))) a else a)"
  define st1 where "st1 = st\<lparr>drawn := drawn st + (if lacks_id (PM t a c x m) then 1 else 0)\<rparr>"
  obtain ks ks' st2 where kids: "ks = content_of (PM t a c x m)" "giveIds env ks st1 = (ks', st2)"
    by (metis surj_pair)
  have step: "(if lacks_id (PM t a c x m) then (let (i, s) = newBlockId env st in (assoc_put (js ''id'') (JStr i) a, s))
      else (a, st)) = (a', st1)"
    by (simp add: a'_def st1_def newBlockId_def)
  have "n' = PM t a' (map_option (\<lambda>_. ks') c) x m \<and> st' = st2"
    using 1(2) [unfolded giveId.simps step] kids by (cases c) (auto simp: content_of_def)
  moreover have "list_all2 id_given (concat (map (\<lambda>n. n # descendants n) ks)) (concat (map (\<lambda>n. n # descendants n) ks')) \<and>
      st2 = st1\<lparr>drawn := drawn st1 + length (filter lacks_id (concat (map (\<lambda>n. n # descendants n) ks)))\<rparr>"
    using kids 1(1) [OF step [symmetric] refl] 1(3) by (cases c) (simp_all add: content_of_def)
  moreover have "id_given (PM t a c x m) (PM t a' (map_option (\<lambda>_. ks') c) x m)"
    using 1(3) by (auto simp: id_given_def a'_def)
  moreover have "content_of (PM t a' (map_option (\<lambda>_. ks') c) x m) = ks'"
    using kids by (cases c) (auto simp: content_of_def)
  ultimately show ?case
    using kids(1) by (simp add: descendants_PM st1_def)
next
  case (3 env n ns st)
  obtain m st1 ms where *: "giveId env n st = (m, st1)" "giveIds env ns st1 = (ms, st')" "ns' = m # ms"
    using 3(3) by (auto split: prod.splits)
  from 3(1) [OF *(1) 3(4)] 3(2) [OF *(1) [symmetric] refl *(2) 3(4)] *(3) show ?case
    by (auto intro: list_all2_appendI)
qed simp

lemma append_step:
  assumes "\<And>n. uuid_v7 env n \<noteq> []" "appendTransaction env doc st = Some (doc', st')"
  shows "list_all2 id_given (descendants doc) (descendants doc')"
    and "st' = st\<lparr>drawn := drawn st + length (filter lacks_id (descendants doc))\<rparr>"
proof -
  obtain ns s where walk: "giveIds env (content_of doc) st = (ns, s)" by (cases "giveIds env (content_of doc) st")
  with assms(2) have r: "st' = s" "doc' = PM (pm_type doc) (pm_attrs doc) (map_option (\<lambda>_. ns) (pm_content doc)) (pm_text doc) (pm_marks doc)"
    by (simp_all add: appendTransaction_def split: if_splits)
  have "content_of doc' = ns"
    using walk by (cases "pm_content doc") (auto simp: r content_of_def)
  then show "list_all2 id_given (descendants doc) (descendants doc')"
    and "st' = st\<lparr>drawn := drawn st + length (filter lacks_id (descendants doc))\<rparr>"
    using giveIds_walk(2) [OF assms(1) walk] r(1) by (simp_all add: descendants.simps [of doc] descendants.simps [of doc'])
qed

lemma append_rests:
  assumes "\<And>n. uuid_v7 env n \<noteq> []" "appendTransaction env doc st = Some (doc', st')"
  shows "appendTransaction env doc' s = None"
proof -
  have "\<not> lacks_id n'" if "n' \<in> set (descendants doc')" for n'
    using append_step(1) [OF assms] that id_given_lacks by (fastforce simp: list_all2_conv_all_nth in_set_conv_nth)
  then show ?thesis by (simp add: appendTransaction_def list_ex_iff)
qed

lemma settles:
  assumes "\<And>n. uuid_v7 env n \<noteq> []"
  shows "\<exists>doc' st'. settle env doc st = Some (doc', st') \<and> \<not> list_ex lacks_id (descendants doc') \<and>
    list_all2 id_given (descendants doc) (descendants doc') \<and>
    st' = st\<lparr>drawn := drawn st + length (filter lacks_id (descendants doc))\<rparr>"
proof (cases "appendTransaction env doc st")
  case None
  then have "\<not> list_ex lacks_id (descendants doc)"
    by (simp add: appendTransaction_def split: if_splits)
  moreover from this have "list_all2 id_given (descendants doc) (descendants doc)" "filter lacks_id (descendants doc) = []"
    by (auto simp: list_ex_iff filter_empty_conv id_given_def intro!: list.rel_refl_strong)
  ultimately show ?thesis using None by (simp add: settle.simps)
next
  case (Some r)
  obtain doc' st' where r: "r = (doc', st')" by (cases r)
  with Some append_rests [OF assms, of doc st doc' st' st'] have "settle env doc st = Some (doc', st')"
    and "\<not> list_ex lacks_id (descendants doc')"
    by (simp_all add: settle.simps [of env doc] settle.simps [of env doc'] appendTransaction_def split: if_splits)
  then show ?thesis using append_step [OF assms Some [unfolded r]] by simp
qed

section \<open>Nodes that are saved alike\<close>

text \<open>The attributes \<open>toAst\<close> reads, apart from the id and the fallback text of a toggle.\<close>

definition read_keys :: "string list" where
  "read_keys =
    [''actionsJson'', ''actorId'', ''album'', ''altText'', ''artist'', ''assetRevisionId'', ''caption'', ''checked'',
     ''citationId'', ''claimId'', ''color'', ''componentId'', ''componentVersion'', ''confirmation'', ''date'',
     ''description'', ''displayConfig'', ''displayText'', ''durationSeconds'', ''endDate'', ''entityId'',
     ''expectedEntityType'', ''expression'', ''hasColumnHeader'', ''hasRowHeader'', ''height'', ''html'', ''icon'',
     ''itemsJson'', ''kind'', ''label'', ''language'', ''level'', ''name'', ''normalizedTitle'',
     ''posterAssetRevisionId'', ''provider'', ''resolutionStatus'', ''siteName'', ''startPage'', ''summaryJson'',
     ''targetHeadingBlockId'', ''targetNamespace'', ''targetPageId'', ''text'', ''title'', ''url'', ''widthRatio'']"

definition same_attrs :: "editor_env \<Rightarrow> fields \<Rightarrow> fields \<Rightarrow> bool" where
  "same_attrs env a a' \<longleftrightarrow> list_all (\<lambda>k. getp a' (js k) = getp a (js k)) read_keys \<and>
     (getp a' (js ''summaryText'') = getp a (js ''summaryText'') \<or>
      json_parse env (case getp a (js ''summaryJson'') of JStr s \<Rightarrow> s | _ \<Rightarrow> []) \<noteq> None)"

definition same_mark :: "jstr \<times> fields \<Rightarrow> jstr \<times> fields \<Rightarrow> bool" where
  "same_mark m m' \<longleftrightarrow> fst m' = fst m \<and>
     (fst m \<in> {js ''textColor'', js ''backgroundColor''} \<longrightarrow> getp (snd m') (js ''color'') = getp (snd m) (js ''color'')) \<and>
     (fst m = js ''link'' \<longrightarrow> getp (snd m') (js ''href'') = getp (snd m) (js ''href''))"

text \<open>
  Two nodes are alike when saving does not tell them apart. The first paragraph of a to-do item is
  saved as its text, so the id of that paragraph does not matter.
\<close>

fun like :: "editor_env \<Rightarrow> bool \<Rightarrow> pm_node \<Rightarrow> pm_node \<Rightarrow> bool"
  and like_list :: "editor_env \<Rightarrow> bool \<Rightarrow> pm_node list \<Rightarrow> pm_node list \<Rightarrow> bool" where
  "like env b (PM t a c x m) n' \<longleftrightarrow>
     pm_type n' = t \<and> pm_text n' = x \<and> rel_option (list_all2 same_mark) m (pm_marks n') \<and>
     (b \<longrightarrow> str_attr n' ''id'' = str_attr (PM t a c x m) ''id'') \<and> same_attrs env a (pm_attrs n') \<and>
     (case c of None \<Rightarrow> content_of n' = []
      | Some cs \<Rightarrow> like_list env (t = Some (js ''todoBlock'')) cs (content_of n'))"
| "like_list env f [] ns \<longleftrightarrow> ns = []"
| "like_list env f (c # cs) ns \<longleftrightarrow>
     (case ns of [] \<Rightarrow> False
      | n # ns' \<Rightarrow> like env (\<not> (f \<and> is_type c ''paragraph'')) c n \<and> like_list env False cs ns')"

lemma like_list_False: "like_list env False cs ns \<longleftrightarrow> list_all2 (like env True) cs ns"
  by (induction cs arbitrary: ns) (auto split: list.splits)

lemma like_content:
  "like env b n n' \<Longrightarrow> like_list env (is_type n ''todoBlock'') (content_of n) (content_of n')"
  by (cases n) (auto simp: content_of_def is_type_def split: option.splits)

lemma like_type: "like env b n n' \<Longrightarrow> is_type n' t \<longleftrightarrow> is_type n t"
  by (cases n) (auto simp: is_type_def)

lemma like_attrs: "like env b n n' \<Longrightarrow> same_attrs env (pm_attrs n) (pm_attrs n')"
  by (cases n) auto

lemma like_read:
  assumes "like env b n n'" "k \<in> set read_keys"
  shows "str_attr n' k = str_attr n k" "num_attr n' k d = num_attr n k d" "bool_attr n' k \<longleftrightarrow> bool_attr n k"
  using like_attrs [OF assms(1)] assms(2)
  by (simp_all add: same_attrs_def list_all_iff str_attr_def num_attr_def bool_attr_def)

lemma same_marks_apply:
  "list_all2 same_mark ms ms' \<Longrightarrow> apply_marks whr ms' acc = apply_marks whr ms acc"
proof (induction ms ms' arbitrary: acc rule: list_all2_induct)
  case (Cons m ms m' ms')
  then show ?case by (cases acc; cases m; cases m') (auto simp: same_mark_def Let_def)
qed simp

lemma same_marks_find:
  "list_all2 same_mark ms ms' \<Longrightarrow>
     map_option (\<lambda>m. href_of (snd m)) (find (\<lambda>m. fst m = js ''link'') ms') =
     map_option (\<lambda>m. href_of (snd m)) (find (\<lambda>m. fst m = js ''link'') ms)"
  by (induction rule: list_all2_induct) (auto simp: same_mark_def href_of_def)

lemma same_marks_ex:
  "list_all2 same_mark ms ms' \<Longrightarrow>
     list_ex (\<lambda>m. fst m = js ''inlineCode'') ms' \<longleftrightarrow> list_ex (\<lambda>m. fst m = js ''inlineCode'') ms"
  by (induction rule: list_all2_induct) (auto simp: same_mark_def)

lemma like_text:
  assumes "like env b n n'"
  shows "marksToInlineText n' whr = marksToInlineText n whr"
proof -
  define ms where "ms = (case pm_marks n of None \<Rightarrow> [] | Some ms \<Rightarrow> ms)"
  define ms' where "ms' = (case pm_marks n' of None \<Rightarrow> [] | Some ms \<Rightarrow> ms)"
  have "pm_text n' = pm_text n" and "rel_option (list_all2 same_mark) (pm_marks n) (pm_marks n')"
    using assms by (cases n; simp)+
  moreover from this have same: "list_all2 same_mark ms ms'"
    by (auto simp: ms_def ms'_def split: option.splits)
  ultimately show ?thesis
    using same_marks_find [OF same]
    by (auto simp: marksToInlineText_def Let_def same_marks_ex same_marks_apply simp flip: ms_def ms'_def split: option.splits)
qed

lemma like_inline:
  assumes "like env b n n'"
  shows "inline_node whr n' = inline_node whr n"
proof -
  have "inlineAtom n' = inlineAtom n"
    unfolding inlineAtom_def like_type [OF assms]
    by (simp only: like_read [OF assms, of "''targetPageId''"] like_read [OF assms, of "''targetHeadingBlockId''"]
        like_read [OF assms, of "''displayText''"] like_read [OF assms, of "''resolutionStatus''"]
        like_read [OF assms, of "''targetNamespace''"] like_read [OF assms, of "''normalizedTitle''"]
        like_read [OF assms, of "''expectedEntityType''"] like_read [OF assms, of "''entityId''"]
        like_read [OF assms, of "''claimId''"] like_read [OF assms, of "''citationId''"]
        like_read [OF assms, of "''expression''"] like_read [OF assms, of "''actorId''"]
        like_read [OF assms, of "''date''"] like_read [OF assms, of "''endDate''"] read_keys_def list.set simp_thms insert_iff)
      (use assms in \<open>cases n; simp\<close>)
  then show ?thesis by (simp add: inline_node_def like_type [OF assms] like_text [OF assms])
qed

lemma like_inlines:
  "list_all2 (like env b) ns ns' \<Longrightarrow> inlineContent ns' whr = inlineContent ns whr"
proof -
  assume "list_all2 (like env b) ns ns'"
  then have "mapE (inline_node whr) ns' = mapE (inline_node whr) ns"
    by (induction rule: list_all2_induct) (simp_all add: like_inline)
  then show ?thesis by (simp add: inlineContent_def)
qed

lemma like_textOf:
  "like env b n n' \<Longrightarrow> textOf n' = textOf n"
  "like_list env f ns ns' \<Longrightarrow> map textOf ns' = map textOf ns"
proof (induction env b n n' and env f ns ns' rule: like_like_list.induct)
  case (1 env b t a c x m n')
  then have "map textOf (content_of n') = map textOf (content_of (PM t a c x m))"
    by (auto simp: content_of_def split: option.splits)
  with 1(2) show ?case by (simp add: textOf.simps)
qed (auto split: list.splits)

lemma like_blocks:
  assumes "list_all2 (like env True) ns ns'"
    and "\<And>n n' whr. n \<in> set ns \<Longrightarrow> like env True n n' \<Longrightarrow> rec n' whr = rec n whr"
  shows "blocksToAst_with rec ns' whr = blocksToAst_with rec ns whr"
proof -
  have "mapM_idx (\<lambda>i n. rec n (at_index whr i)) j ns' = mapM_idx (\<lambda>i n. rec n (at_index whr i)) j ns" for j
    using assms
  proof (induction arbitrary: j rule: list_all2_induct)
    case (Cons n ns n' ns')
    then have "rec n' w = rec n w" for w by simp
    moreover have "mapM_idx (\<lambda>i n. rec n (at_index whr i)) k ns' = mapM_idx (\<lambda>i n. rec n (at_index whr i)) k ns" for k
      using Cons by simp
    ultimately show ?case by simp
  qed simp
  then show ?thesis by (simp add: blocksToAst_with_def)
qed

lemma like_list_items:
  "list_all2 (like env True) ns ns' \<Longrightarrow>
     list_all2 (like env True) (filter (\<lambda>m. is_type m t) ns) (filter (\<lambda>m. is_type m t) ns')"
  by (induction rule: list_all2_induct) (auto simp: like_type)

lemma like_first:
  assumes "like env b n n'" "is_type n ''todoBlock''"
    and "\<And>m m' whr. m \<in> set (content_of n) \<Longrightarrow> like env True m m' \<Longrightarrow> rec m' whr = rec m whr"
  shows "firstParagraphContent_with rec n' whr = firstParagraphContent_with rec n whr"
proof (cases "content_of n")
  case Nil
  then show ?thesis
    using like_content [OF assms(1)] by (simp add: firstParagraphContent_with_def childBlocks_with_def)
next
  case (Cons c cs)
  obtain d ds where d: "content_of n' = d # ds" "like env (\<not> is_type c ''paragraph'') c d" "list_all2 (like env True) cs ds"
    using like_content [OF assms(1)] assms(2) by (auto simp: Cons like_list_False split: list.splits)
  have rest: "blocksToAst_with rec ds w = blocksToAst_with rec cs w" for w
    using assms(3) by (intro like_blocks [OF d(3)]) (simp add: Cons)
  show ?thesis
  proof (cases "is_type c ''paragraph''")
    case True
    then have "\<not> is_type c ''todoBlock''" by (auto simp: is_type_def)
    with like_content [OF d(2)] have "inlineContent (content_of d) w = inlineContent (content_of c) w" for w
      by (simp add: like_list_False like_inlines)
    then show ?thesis
      using True like_type [OF d(2)] by (simp add: firstParagraphContent_with_def Cons d(1) rest)
  next
    case False
    then have "blocksToAst_with rec (d # ds) w = blocksToAst_with rec (c # cs) w" for w
      using assms(3) d by (intro like_blocks) (auto simp: Cons)
    then show ?thesis
      using False like_type [OF d(2)] by (simp add: firstParagraphContent_with_def childBlocks_with_def Cons d(1))
  qed
qed

text \<open>The readings of every attribute \<open>toAst\<close> looks at.\<close>

lemma like_reads:
  assumes "like env b n n'"
  shows "list_all (\<lambda>k. str_attr n' k = str_attr n k \<and> (\<forall>d. num_attr n' k d = num_attr n k d) \<and>
      bool_attr n' k = bool_attr n k) read_keys"
  using like_read [OF assms] by (simp add: list_all_iff)

lemma like_case:
  assumes "like env b n n'"
    and "\<And>m m' whr. m \<in> set (content_of n) \<Longrightarrow> like env True m m' \<Longrightarrow> rec m' whr = rec m whr"
  shows "node_case z env rec n' whr i = node_case z env rec n whr i"
proof -
  note reads = like_reads [OF assms(1), unfolded read_keys_def list.pred_inject]
  show ?thesis
  proof (cases "is_type n ''todoBlock''")
    case True
    then have "is_type n' ''todoBlock''" by (simp add: like_type [OF assms(1)])
    with True show ?thesis
      using reads by (simp add: node_case_def is_type_def like_first [OF assms(1) True assms(2)])
  next
    case False
    then have kids: "list_all2 (like env True) (content_of n) (content_of n')"
      using like_content [OF assms(1)] by (simp add: like_list_False)
    have "childBlocks_with rec n' w = childBlocks_with rec n w" for w
      using assms(2) by (simp add: childBlocks_with_def like_blocks [OF kids])
    moreover have "listItems_with rec n' w = listItems_with rec n w" for w
      unfolding listItems_with_def by (rule like_blocks [OF like_list_items [OF kids]]) (use assms(2) in auto)
    moreover have "json_parse env (str_attr n ''summaryJson'') = None \<Longrightarrow> str_attr n' ''summaryText'' = str_attr n ''summaryText''"
      using like_attrs [OF assms(1)] by (auto simp: same_attrs_def str_attr_def)
    then have "parseJSON env (str_attr n ''summaryJson'') (JArr [text_obj ''text'' [(js ''text'', JStr (str_attr n' ''summaryText''))]]) =
        parseJSON env (str_attr n ''summaryJson'') (JArr [text_obj ''text'' [(js ''text'', JStr (str_attr n ''summaryText''))]])"
      by (auto simp: parseJSON_def split: option.splits)
    ultimately show ?thesis
      using False reads unfolding node_case_def opt_str_def req_str_def req_num_def
      by (simp only: like_type [OF assms(1)] like_textOf(1) [OF assms(1)] like_inlines [OF kids] simp_thms if_False Let_def)
  qed
qed

lemma like_blockId: "like env True n n' \<Longrightarrow> blockId env n' whr = blockId env n whr"
proof -
  assume "like env True n n'"
  then have "pm_type n' = pm_type n" "str_attr n' ''id'' = str_attr n ''id''" by (cases n; simp)+
  then show ?thesis by (intro ext) (simp add: blockId_def cong: if_cong)
qed

lemma like_saves: "like env True n n' \<Longrightarrow> singleBlock z env n' whr = singleBlock z env n whr"
proof (induction "size n" arbitrary: n n' whr rule: less_induct)
  case less
  have "node_case z env (singleBlock z env) n' whr = node_case z env (singleBlock z env) n whr"
    by (rule ext, rule like_case [OF less.prems], rule less.hyps, rule size_content)
  then show ?case
    by (simp add: singleBlock.simps [of z env n] singleBlock.simps [of z env n'] singleBlock_step_def
        like_blockId [OF less.prems])
qed

lemma like_toAst:
  assumes "list_all2 (like env True) (content_of n) (content_of n')"
  shows "toAst z env n' = toAst z env n"
  using like_blocks [OF assms, of "singleBlock z env"] by (simp add: toAst_def blocksToAst_def like_saves)

section \<open>Loading keeps what is saved\<close>

text \<open>What is relied on of the kit: of the attributes that are saved, its nodes declare the level of a
  heading and the language of code, and its link the address; and the order of the extensions ranks
  the marks of a text in the order given, the two colours last.\<close>

definition kit_types :: "string list" where
  "kit_types = [''doc'', ''text'', ''paragraph'', ''heading'', ''bulletList'', ''orderedList'', ''listItem'', ''blockquote'',
     ''codeBlock'', ''horizontalRule'']"

definition kit_reads :: "string \<Rightarrow> string list" where
  "kit_reads t = (if t = ''heading'' then [''level''] else if t = ''codeBlock'' then [''language''] else [])"

definition kit_ok :: "editor_kit \<Rightarrow> bool" where
  "kit_ok K \<longleftrightarrow>
     (\<forall>t \<in> set kit_types. \<forall>k \<in> set (''summaryText'' # read_keys). js k \<in> fst ` set (kit_nodes K (js t)) \<longleftrightarrow> k \<in> set (kit_reads t)) \<and>
     (\<forall>t \<in> set kit_types. js ''id'' \<notin> fst ` set (kit_nodes K (js t))) \<and>
     js ''href'' \<in> fst ` set (kit_marks K (js ''link'')) \<and>
     (\<forall>m. mark_rank K (fst (tiptap_mark m)) \<le> mark_rank K (js ''textColor'')) \<and>
     mark_rank K (js ''textColor'') \<le> mark_rank K (js ''backgroundColor'')"

definition marks_ranked :: "editor_kit \<Rightarrow> inline \<Rightarrow> bool" where
  "marks_ranked K n \<longleftrightarrow>
     (case n of Text t (Some ms) c g \<Rightarrow> sorted (map (\<lambda>m. mark_rank K (fst (tiptap_mark m))) ms) | _ \<Rightarrow> True)"

lemma getp_computeAttrs:
  "getp (computeAttrs spec a) k = (case map_of spec k of None \<Rightarrow> JUndef
     | Some d \<Rightarrow> if getp a k = JUndef then d else getp a k)"
proof -
  have "map_of (computeAttrs spec a) k = map_option (\<lambda>d. if getp a k = JUndef then d else getp a k) (map_of spec k)"
    by (induction spec) (auto simp: computeAttrs_def)
  then show ?thesis by (cases "map_of spec k") (simp_all add: getp_def)
qed

lemma computeAttrs_given:
  "getp a k \<noteq> JUndef \<Longrightarrow> map_of spec k \<noteq> None \<Longrightarrow> getp (computeAttrs spec a) k = getp a k"
  by (auto simp: getp_computeAttrs)

lemma computeAttrs_absent: "map_of spec k = None \<Longrightarrow> getp (computeAttrs spec a) k = JUndef"
  by (simp add: getp_computeAttrs)

text \<open>The attributes of a type that are saved, and whether a list of attributes has just these.\<close>

definition saved_keys :: "string \<Rightarrow> string list" where
  "saved_keys t = (case map_of editorExtensions t of Some as \<Rightarrow> map fst as
     | None \<Rightarrow> kit_reads t @ map fst (globalAttributes t))"

definition agrees :: "string \<Rightarrow> string list \<Rightarrow> bool" where
  "agrees t ks \<longleftrightarrow> (t \<in> set kit_types \<or> t \<in> fst ` set editorExtensions) \<and>
     list_all (\<lambda>k. k \<in> set ks \<longleftrightarrow> k \<in> set (saved_keys t)) (''id'' # read_keys)"

lemma find_name: "find (\<lambda>s. s = t) xs = (if t \<in> set xs then Some t else None)"
  by (induction xs) auto

lemma map_of_js_fields [simp]: "map_of (js_fields as) (js k) = map_of as k"
  by (induction as) (auto simp: js_fields_def)

lemma getp_js_fields: "getp (js_fields as) (js k) = (case map_of as k of None \<Rightarrow> JUndef | Some v \<Rightarrow> v)"
  by (simp add: getp_def)

lemma fst_set_js_fields: "js k \<in> fst ` set (js_fields as) \<longleftrightarrow> k \<in> fst ` set as"
  by (auto simp: js_fields_def image_iff)

lemma node_attributes_js:
  "node_attributes K (js t) =
     (case map_of editorExtensions t of Some as \<Rightarrow> js_fields as
      | None \<Rightarrow> kit_nodes K (js t) @ js_fields (globalAttributes t))"
proof (cases "map_of editorExtensions t")
  case None
  then have "t \<notin> fst ` set editorExtensions" by (simp add: map_of_eq_None_iff)
  moreover have "t \<notin> set blockTypesWithId \<Longrightarrow> globalAttributes t = []"
    by (auto simp: globalAttributes_def blockTypesWithId_def)
  ultimately show ?thesis
    using None by (auto simp: node_attributes_def named_def find_name js_fields_def [of "[]"])
next
  case (Some as)
  then have "t \<in> fst ` set editorExtensions" by (metis domI domIff map_of_eq_None_iff)
  with Some show ?thesis by (simp add: node_attributes_def named_def find_name)
qed

lemma ids_null: "list_all (\<lambda>p. map_of (snd p) ''id'' = None \<or> map_of (snd p) ''id'' = Some JNull) editorExtensions"
  by (simp add: editorExtensions_def atomNode_def containerNode_def inlineAtomNode_def idAttrs_def empties_def)

lemma summaries: "list_all (\<lambda>p. fst p = ''toggleBlock'' \<or> map_of (snd p) ''summaryText'' = None) editorExtensions"
  by (simp add: editorExtensions_def atomNode_def containerNode_def inlineAtomNode_def idAttrs_def empties_def)

text \<open>What is saved of a node, under the kit, is what it declares.\<close>

lemma declared_keys:
  assumes "kit_ok K" "agrees t ks" "k \<in> set (''id'' # read_keys)"
  shows "map_of (node_attributes K (js t)) (js k) \<noteq> None \<longleftrightarrow> k \<in> set ks"
    and "map_of (node_attributes K (js t)) (js ''id'') \<in> {None, Some JNull}"
    and "t \<noteq> ''toggleBlock'' \<Longrightarrow> map_of (node_attributes K (js t)) (js ''summaryText'') = None"
proof -
  have eq: "k \<in> set ks \<longleftrightarrow> k \<in> set (saved_keys t)"
    using assms(2,3) by (auto simp: agrees_def list_all_iff)
  have "(map_of (node_attributes K (js t)) (js k) \<noteq> None \<longleftrightarrow> k \<in> set (saved_keys t)) \<and>
    map_of (node_attributes K (js t)) (js ''id'') \<in> {None, Some JNull} \<and>
    (t \<noteq> ''toggleBlock'' \<longrightarrow> map_of (node_attributes K (js t)) (js ''summaryText'') = None)"
  proof (cases "map_of editorExtensions t")
    case None
    then have t: "t \<in> set kit_types" using assms(2) by (auto simp: agrees_def map_of_eq_None_iff)
    from assms(1) have kit: "js j \<in> fst ` set (kit_nodes K (js t)) \<longleftrightarrow> j \<in> set (kit_reads t)"
      if "j \<in> set (''summaryText'' # read_keys)" for j using t that unfolding kit_ok_def by blast
    from assms(1) have id: "map_of (kit_nodes K (js t)) (js ''id'') = None"
      using t unfolding kit_ok_def map_of_eq_None_iff by blast
    have declared: "map_of (node_attributes K (js t)) (js j) \<noteq> None \<longleftrightarrow>
        js j \<in> fst ` set (kit_nodes K (js t)) \<or> j \<in> fst ` set (globalAttributes t)" for j
      unfolding map_of_eq_None_iff node_attributes_js None option.case set_append image_Un Un_iff fst_set_js_fields by simp
    have "map_of (globalAttributes t) ''id'' \<in> {None, Some JNull}"
      by (simp add: globalAttributes_def idAttrs_def)
    with id have "map_of (node_attributes K (js t)) (js ''id'') \<in> {None, Some JNull}"
      by (simp add: node_attributes_js None map_add_def split: option.splits)
    moreover have "''summaryText'' \<notin> set (kit_reads t)" "''id'' \<notin> set (kit_reads t)"
      "''summaryText'' \<notin> fst ` set (globalAttributes t)"
      by (auto simp: kit_reads_def globalAttributes_def idAttrs_def)
    ultimately show ?thesis
      using assms(3) kit [of k] kit [of "''summaryText''"] declared [of k] declared [of "''summaryText''"] id
      by (auto simp: None saved_keys_def map_of_eq_None_iff)
  next
    case (Some as)
    then have "(t, as) \<in> set editorExtensions" by (rule map_of_SomeD)
    with ids_null summaries have "map_of as ''id'' \<in> {None, Some JNull}" "t \<noteq> ''toggleBlock'' \<longrightarrow> map_of as ''summaryText'' = None"
      unfolding list_all_iff by fastforce+
    with Some show ?thesis by (simp add: node_attributes_js saved_keys_def map_of_eq_None_iff)
  qed
  with eq show "map_of (node_attributes K (js t)) (js k) \<noteq> None \<longleftrightarrow> k \<in> set ks"
    and "map_of (node_attributes K (js t)) (js ''id'') \<in> {None, Some JNull}"
    and "t \<noteq> ''toggleBlock'' \<Longrightarrow> map_of (node_attributes K (js t)) (js ''summaryText'') = None"
    by auto
qed

text \<open>A node \<open>fromAst\<close> builds: a value for every saved attribute, a toggle with a readable summary, and marks
  that loading leaves alike.\<close>

definition well_built :: "editor_kit \<Rightarrow> editor_env \<Rightarrow> pm_node \<Rightarrow> bool" where
  "well_built K env n \<longleftrightarrow>
     (\<exists>t as. pm_type n = Some (js t) \<and> pm_attrs n = js_fields as \<and> agrees t (map fst as) \<and>
        (\<forall>k \<in> set read_keys. map_of as k \<noteq> Some JUndef) \<and>
        ''summaryText'' \<notin> fst ` set as \<and>
        (t = ''toggleBlock'' \<longrightarrow> json_parse env (str_attr n ''summaryJson'') \<noteq> None)) \<and>
     (\<forall>ms. pm_marks n = Some ms \<longrightarrow> list_all2 same_mark ms (load_marks K ms))"

fun everywhere :: "(pm_node \<Rightarrow> bool) \<Rightarrow> pm_node \<Rightarrow> bool" where
  "everywhere P n \<longleftrightarrow> P n \<and> (\<forall>m \<in> set (content_of n). everywhere P m)"

declare everywhere.simps [simp del]

lemma everywhere_PM:
  "everywhere P (PM t a c x m) \<longleftrightarrow> P (PM t a c x m) \<and> (case c of None \<Rightarrow> True | Some ns \<Rightarrow> list_all (everywhere P) ns)"
  by (subst everywhere.simps) (simp add: content_of_def list_all_iff Ball_def split: option.split)

lemma well_built_attrs:
  assumes "kit_ok K" "well_built K env n" "pm_type n = Some t"
  shows "same_attrs env (pm_attrs n) (computeAttrs (node_attributes K t) (pm_attrs n))"
    and "str_attr (PM (Some t) (computeAttrs (node_attributes K t) (pm_attrs n)) c x m) ''id'' = str_attr n ''id''"
    and "truthy (getp (computeAttrs (node_attributes K t) (pm_attrs n)) (js ''id'')) = truthy (getp (pm_attrs n) (js ''id''))"
proof -
  obtain s as where n: "t = js s" "pm_attrs n = js_fields as" "agrees s (map fst as)"
      "\<forall>k \<in> set read_keys. map_of as k \<noteq> Some JUndef" "''summaryText'' \<notin> fst ` set as"
      "s = ''toggleBlock'' \<longrightarrow> json_parse env (str_attr n ''summaryJson'') \<noteq> None"
    using assms(2,3) by (auto simp: well_built_def)
  note decl = declared_keys [OF assms(1) n(3)]
  have keys: "map_of (node_attributes K (js s)) (js k) = None \<longleftrightarrow> map_of as k = None" if "k \<in> set (''id'' # read_keys)" for k
    using decl(1) [OF that] by (auto simp: map_of_eq_None_iff)
  have "getp (computeAttrs (node_attributes K (js s)) (js_fields as)) (js k) = getp (js_fields as) (js k)"
    if "k \<in> set read_keys" for k
  proof (cases "map_of as k")
    case None
    with keys [of k] that show ?thesis by (simp add: computeAttrs_absent getp_js_fields)
  next
    case (Some v)
    with n(4) that have "getp (js_fields as) (js k) \<noteq> JUndef" by (auto simp: getp_js_fields)
    with keys [of k] that Some show ?thesis by (intro computeAttrs_given) auto
  qed
  moreover have "s \<noteq> ''toggleBlock'' \<Longrightarrow> getp (computeAttrs (node_attributes K (js s)) (js_fields as)) (js ''summaryText'') = JUndef"
    using decl(3) [of "''id''"] by (simp add: getp_computeAttrs)
  moreover have "getp (js_fields as) (js ''summaryText'') = JUndef"
    using n(5) by (simp add: getp_js_fields map_of_eq_None_iff [THEN iffD2])
  ultimately show "same_attrs env (pm_attrs n) (computeAttrs (node_attributes K t) (pm_attrs n))"
    using n(6) by (auto simp: same_attrs_def list_all_iff n(1,2) str_attr_def)
  show "str_attr (PM (Some t) (computeAttrs (node_attributes K t) (pm_attrs n)) c x m) ''id'' = str_attr n ''id''"
    using decl(2) [of "''id''"] keys [of "''id''"]
    by (cases "map_of as ''id''") (auto simp: str_attr_def n(1,2) getp_computeAttrs getp_js_fields)
  show "truthy (getp (computeAttrs (node_attributes K t) (pm_attrs n)) (js ''id'')) = truthy (getp (pm_attrs n) (js ''id''))"
    using decl(2) [of "''id''"] keys [of "''id''"]
    by (cases "map_of as ''id''") (auto simp: n(1,2) getp_computeAttrs getp_js_fields)
qed

lemma load_marks_Nil [simp]: "load_marks K [] = []"
  by (simp add: load_marks_def)

lemma like_weaken: "like env True n n' \<Longrightarrow> like env b n n'"
  by (cases n) auto

lemma like_list_map:
  "(\<And>n. n \<in> set ns \<Longrightarrow> like env True n (f n)) \<Longrightarrow> like_list env b ns (map f ns)"
  by (induction ns arbitrary: b) (auto intro: like_weaken)

lemma like_load:
  "kit_ok K \<Longrightarrow> everywhere (well_built K env) n \<Longrightarrow> like env True n (nodeFromJSON K n)"
proof (induction K n rule: nodeFromJSON.induct)
  case (1 K t a c x m)
  then have built: "well_built K env (PM t a c x m)" and kids: "\<forall>ns. c = Some ns \<longrightarrow> list_all (everywhere (well_built K env)) ns"
    by (auto simp: everywhere_PM)
  obtain s where t: "t = Some s" using built by (auto simp: well_built_def)
  have "like_list env f ns (map (nodeFromJSON K) ns)" if "c = Some ns" for f ns
    using 1(1) [OF that] 1(2) kids that by (intro like_list_map) (auto simp: list_all_iff)
  moreover have "rel_option (list_all2 same_mark) m (map_option (load_marks K) m)"
    using built by (cases m) (auto simp: well_built_def)
  ultimately show ?case
    using well_built_attrs [OF 1(2) built] by (cases c) (simp_all add: t content_of_def)
qed

text \<open>The nodes of a document.\<close>

lemma marks_load:
  assumes "kit_ok K" "marks_ranked K (Text t ms c g)"
    and "ns = map tiptap_mark (case ms of None \<Rightarrow> [] | Some ms \<Rightarrow> ms) @
      (case c of None \<Rightarrow> [] | Some c \<Rightarrow> [(js ''textColor'', [(js ''color'', encode_enum inline_colors c)])]) @
      (case g of None \<Rightarrow> [] | Some g \<Rightarrow> [(js ''backgroundColor'', [(js ''color'', encode_enum inline_colors g)])])"
  shows "list_all2 same_mark ns (load_marks K ns)"
proof -
  have rank: "mark_rank K (fst (tiptap_mark m)) \<le> mark_rank K (js ''textColor'')"
    "mark_rank K (fst (tiptap_mark m)) \<le> mark_rank K (js ''backgroundColor'')"
    "mark_rank K (js ''textColor'') \<le> mark_rank K (js ''backgroundColor'')" for m
    using assms(1) le_trans unfolding kit_ok_def by blast+
  define fill where "fill = (\<lambda>p::jstr \<times> fields. (fst p, computeAttrs (mark_attributes K (fst p)) (snd p)))"
  have "sorted (map (\<lambda>m. mark_rank K (fst m)) ns)"
    using assms(2) rank by (auto simp: assms(3) marks_ranked_def sorted_append comp_def split: option.splits)
  then have "load_marks K ns = map fill ns"
    by (simp add: load_marks_def fill_def case_prod_beta comp_def sort_key_id_if_sorted)
  moreover have "same_mark p (fill p)" if "p \<in> set ns" for p
  proof -
    have "same_mark (tiptap_mark k) (fill (tiptap_mark k))" for k
      by (cases k) (simp_all add: same_mark_def fill_def tiptap_mark_def mark_to_tiptap_def)
    moreover have "same_mark (js t, [(js ''color'', encode_enum inline_colors k)]) (fill (js t, [(js ''color'', encode_enum inline_colors k)]))"
      if "t = ''textColor'' \<or> t = ''backgroundColor''" for t k
      using that by (auto simp: same_mark_def fill_def mark_attributes_def encode_enum_def getp_computeAttrs)
    ultimately show ?thesis
      using that by (auto simp: assms(3) split: option.splits)
  qed
  ultimately show ?thesis by (simp add: list.rel_map list.rel_refl_strong)
qed

text \<open>The names alone, for evaluation.\<close>

definition editor_keys :: "(string \<times> string list) list" where
  "editor_keys =
    [(''callout'', [''id'', ''kind'', ''icon'', ''color'']),
     (''preformatted'', [''id'', ''kind'', ''caption'', ''text'']),
     (''equation'', [''id'', ''expression'', ''caption'']),
     (''todoBlock'', [''id'', ''checked'']),
     (''toggleBlock'', [''id'', ''summaryText'', ''summaryJson'']),
     (''breadcrumb'', [''id'', ''itemsJson'']),
     (''columnList'', [''id'']),
     (''column'', [''id'', ''widthRatio'']),
     (''pageButton'', [''id'', ''label'', ''confirmation'', ''actionsJson'']),
     (''htmlBlock'', [''id'', ''html'', ''height'', ''caption'']),
     (''astTable'', [''id'', ''caption'', ''hasColumnHeader'', ''hasRowHeader'']),
     (''astTableRow'', [''id'']),
     (''astTableCell'', [''id'']),
     (''componentBlock'', [''id'', ''componentId'', ''componentVersion'', ''entityId'', ''displayConfig'']),
     (''imageAsset'', [''id'', ''assetRevisionId'', ''altText'', ''caption'']),
     (''videoAsset'', [''id'', ''assetRevisionId'', ''posterAssetRevisionId'', ''title'', ''caption'']),
     (''audioAsset'', [''id'', ''assetRevisionId'', ''title'', ''artist'', ''album'', ''durationSeconds'', ''caption'']),
     (''fileAsset'', [''id'', ''assetRevisionId'', ''name'', ''caption'']),
     (''pdfAsset'', [''id'', ''assetRevisionId'', ''title'', ''startPage'', ''height'', ''caption'']),
     (''bookmark'', [''id'', ''url'', ''title'', ''description'', ''siteName'', ''caption'']),
     (''linkPreview'', [''id'', ''url'', ''title'', ''description'', ''siteName'']),
     (''embedBlock'', [''id'', ''url'', ''title'', ''provider'', ''caption'']),
     (''pageReference'', [''targetPageId'', ''targetHeadingBlockId'', ''displayText'', ''resolutionStatus'', ''targetNamespace'', ''normalizedTitle'', ''expectedEntityType'']),
     (''pageAnchorReference'', [''targetPageId'', ''targetHeadingBlockId'', ''displayText'']),
     (''entityReference'', [''entityId'', ''displayText'']),
     (''claimReference'', [''claimId'', ''displayText'']),
     (''citationReference'', [''citationId'', ''displayText'']),
     (''mathInline'', [''expression'']),
     (''mention'', [''actorId'', ''displayText'']),
     (''dateMention'', [''date'', ''endDate'', ''displayText''])]"

lemma editor_keys: "map (\<lambda>p. (fst p, map fst (snd p))) editorExtensions = editor_keys"
  by (simp add: editor_keys_def editorExtensions_def atomNode_def containerNode_def inlineAtomNode_def idAttrs_def empties_def)

definition names_agree :: "string \<Rightarrow> string list \<Rightarrow> bool" where
  "names_agree t ks \<longleftrightarrow> (t \<in> set kit_types \<or> t \<in> fst ` set editor_keys) \<and>
     (let sk = (case map_of editor_keys t of Some sk \<Rightarrow> sk | None \<Rightarrow> kit_reads t @ map fst (globalAttributes t))
      in list_all (\<lambda>k. k \<in> set sk) ks \<and> list_all (\<lambda>k. k = ''summaryText'' \<or> k \<in> set ks) sk)"

lemma names_agree: "names_agree t ks \<Longrightarrow> agrees t ks"
proof -
  assume ok: "names_agree t ks"
  have "map_of (map (\<lambda>p. (fst p, map fst (snd p))) xs) t = map_option (map fst) (map_of xs t)"
    for xs :: "(string \<times> (string \<times> jsval) list) list"
    by (induction xs) auto
  from this [of editorExtensions] have "map_of editor_keys t = map_option (map fst) (map_of editorExtensions t)"
    by (simp only: editor_keys)
  then have "saved_keys t = (case map_of editor_keys t of Some sk \<Rightarrow> sk | None \<Rightarrow> kit_reads t @ map fst (globalAttributes t))"
    by (simp add: saved_keys_def split: option.split)
  moreover have "fst ` set editor_keys = fst ` set editorExtensions"
    by (simp add: image_image flip: editor_keys)
  moreover have "''summaryText'' \<notin> set (''id'' # read_keys)" by (simp add: read_keys_def)
  ultimately show ?thesis
    using ok unfolding agrees_def names_agree_def Let_def list_all_iff by (metis (no_types, lifting))
qed

lemma types_agree:
  "agrees ''pageReference'' [''targetPageId'', ''targetHeadingBlockId'', ''displayText'', ''resolutionStatus'', ''targetNamespace'', ''normalizedTitle'', ''expectedEntityType'']"
  "agrees ''pageAnchorReference'' [''targetPageId'', ''targetHeadingBlockId'', ''displayText'']"
  "agrees ''entityReference'' [''entityId'', ''displayText'']"
  "agrees ''claimReference'' [''claimId'', ''displayText'']"
  "agrees ''citationReference'' [''citationId'', ''displayText'']"
  "agrees ''mathInline'' [''expression'']"
  "agrees ''mention'' [''actorId'', ''displayText'']"
  "agrees ''dateMention'' [''date'', ''endDate'', ''displayText'']"
  "agrees ''paragraph'' [''id'']"
  "agrees ''heading'' [''id'', ''level'']"
  "agrees ''bulletList'' [''id'']"
  "agrees ''orderedList'' [''id'']"
  "agrees ''listItem'' [''id'']"
  "agrees ''todoBlock'' [''id'', ''checked'']"
  "agrees ''toggleBlock'' [''id'', ''summaryJson'']"
  "agrees ''blockquote'' [''id'']"
  "agrees ''callout'' [''id'', ''kind'', ''icon'', ''color'']"
  "agrees ''codeBlock'' [''id'', ''language'', ''caption'']"
  "agrees ''preformatted'' [''id'', ''kind'', ''caption'', ''text'']"
  "agrees ''equation'' [''id'', ''expression'', ''caption'']"
  "agrees ''breadcrumb'' [''id'', ''itemsJson'']"
  "agrees ''columnList'' [''id'']"
  "agrees ''column'' [''id'', ''widthRatio'']"
  "agrees ''pageButton'' [''id'', ''label'', ''confirmation'', ''actionsJson'']"
  "agrees ''htmlBlock'' [''id'', ''html'', ''height'', ''caption'']"
  "agrees ''componentBlock'' [''id'', ''componentId'', ''componentVersion'', ''entityId'', ''displayConfig'']"
  "agrees ''imageAsset'' [''id'', ''assetRevisionId'', ''altText'', ''caption'']"
  "agrees ''videoAsset'' [''id'', ''assetRevisionId'', ''posterAssetRevisionId'', ''title'', ''caption'']"
  "agrees ''audioAsset'' [''id'', ''assetRevisionId'', ''title'', ''artist'', ''album'', ''durationSeconds'', ''caption'']"
  "agrees ''fileAsset'' [''id'', ''assetRevisionId'', ''name'', ''caption'']"
  "agrees ''pdfAsset'' [''id'', ''assetRevisionId'', ''title'', ''startPage'', ''height'', ''caption'']"
  "agrees ''bookmark'' [''id'', ''url'', ''title'', ''description'', ''siteName'', ''caption'']"
  "agrees ''linkPreview'' [''id'', ''url'', ''title'', ''description'', ''siteName'']"
  "agrees ''embedBlock'' [''id'', ''url'', ''title'', ''provider'', ''caption'']"
  "agrees ''astTable'' [''id'', ''caption'', ''hasColumnHeader'', ''hasRowHeader'']"
  "agrees ''astTableRow'' [''id'']"
  "agrees ''astTableCell'' [''id'']"
  "agrees ''horizontalRule'' [''id'']"
  "agrees ''text'' []"
  by (rule names_agree, code_simp)+

definition fits :: "string \<Rightarrow> (string \<times> jsval) list \<Rightarrow> bool" where
  "fits t as \<longleftrightarrow> agrees t (map fst as) \<and> list_all (\<lambda>p. fst p = ''id'' \<or> snd p \<noteq> JUndef) as \<and>
     list_all (\<lambda>p. fst p \<noteq> ''summaryText'') as"

lemma built_attrs:
  assumes "fits t as" "t = ''toggleBlock'' \<Longrightarrow> json_parse env (str_attr (PM (Some (js t)) (js_fields as) c x m) ''summaryJson'') \<noteq> None"
    and "\<And>ms. m = Some ms \<Longrightarrow> list_all2 same_mark ms (load_marks K ms)"
  shows "well_built K env (PM (Some (js t)) (js_fields as) c x m)"
proof -
  have "map_of as k \<noteq> Some JUndef" if "k \<in> set read_keys" for k
  proof
    assume "map_of as k = Some JUndef"
    then have "(k, JUndef) \<in> set as" by (rule map_of_SomeD)
    with assms(1) have "k = ''id''" by (auto simp: fits_def list_all_iff)
    with that show False by (simp add: read_keys_def)
  qed
  with assms show ?thesis
    unfolding well_built_def by (auto simp: fits_def list_all_iff intro!: exI [of _ t] exI [of _ as])
qed

lemma built_plain:
  "fits t as \<Longrightarrow> t \<noteq> ''toggleBlock'' \<Longrightarrow> well_built K env (PM (Some (js t)) (js_fields as) c x None)"
  by (rule built_attrs) simp_all

lemma built_marked:
  "fits t as \<Longrightarrow> t \<noteq> ''toggleBlock'' \<Longrightarrow> list_all2 same_mark ms (load_marks K ms) \<Longrightarrow>
   well_built K env (PM (Some (js t)) (js_fields as) c x (Some ms))"
  by (rule built_attrs) simp_all

lemma built_atom:
  "fits t as \<Longrightarrow> t \<noteq> ''toggleBlock'' \<Longrightarrow> everywhere (well_built K env) (atom_node t as)"
  by (simp add: atom_node_def everywhere_PM built_plain flip: js_fields_def)

lemma built_block:
  "fits t as \<Longrightarrow> t \<noteq> ''toggleBlock'' \<Longrightarrow> list_all (everywhere (well_built K env)) ns \<Longrightarrow>
   everywhere (well_built K env) (block_node t as ns)"
  by (simp add: block_node_def everywhere_PM built_plain flip: js_fields_def)

lemma built_text:
  assumes "list_all2 same_mark ms (load_marks K ms)"
  shows "list_all (everywhere (well_built K env)) (textNode t ms)"
proof -
  have "fits ''text'' []" by (simp add: fits_def types_agree)
  from built_plain [OF this] built_marked [OF this _ assms] show ?thesis
    by (simp add: textNode_def everywhere_PM js_fields_def)
qed

lemma built_inline:
  assumes "kit_ok K" "marks_ranked K n"
  shows "list_all (everywhere (well_built K env)) (inlineToTiptap n)"
proof (cases n)
  case (Text t ms c g)
  then show ?thesis using marks_load [OF assms(1)] assms(2) by (auto intro!: built_text)
next
  case (InlineCode t)
  then show ?thesis by (auto intro!: built_text simp: load_marks_def same_mark_def)
next
  case (ExternalLink u d)
  have "map_of (kit_marks K (js ''link'')) (js ''href'') \<noteq> None"
    using assms(1) unfolding kit_ok_def map_of_eq_None_iff by blast
  then have "same_mark (js ''link'', [(js ''href'', JStr u)])
      (js ''link'', computeAttrs (mark_attributes K (js ''link'')) [(js ''href'', JStr u)])"
    by (simp add: same_mark_def mark_attributes_def computeAttrs_given)
  then show ?thesis using ExternalLink by (auto intro!: built_text simp: load_marks_def)
qed (auto intro!: built_atom simp: fits_def types_agree or_empty_def)

lemma built_inlines:
  assumes "kit_ok K" "list_all (marks_ranked K) c"
  shows "list_all (everywhere (well_built K env)) (inlinesToTiptap c)"
  using assms built_inline by (induction c) (auto simp: inlinesToTiptap_def)

text \<open>The texts of a block, for the order of their marks.\<close>

fun block_inlines :: "block \<Rightarrow> inline list" where
  "block_inlines (Heading _ _ _ c _) = c"
| "block_inlines (Paragraph _ c) = c"
| "block_inlines (Todo _ _ c _) = c"
| "block_inlines _ = []"

definition marks_ordered :: "editor_kit \<Rightarrow> document \<Rightarrow> bool" where
  "marks_ordered K d \<longleftrightarrow> (\<forall>b \<in> set (all_blocks d). list_all (marks_ranked K) (block_inlines b))"

lemma fits_enum [simp]: "encode_enum xs x \<noteq> JUndef" "encode_int i \<noteq> JUndef" "or_empty s \<noteq> JUndef" "flag b \<noteq> JUndef"
  by (simp_all add: encode_enum_def encode_int_def or_empty_def flag_def)

lemma blocks_built:
  assumes "kit_ok K"
  shows "\<forall>c \<in> set (preorder b). editable env c \<and> list_all (marks_ranked K) (block_inlines c) \<Longrightarrow>
    list_all (everywhere (well_built K env)) (blockToTiptap env b)"
proof (induction b rule: preorder.induct)
  case (1 b)
  have kids: "list_all (everywhere (well_built K env)) (concat (map (blockToTiptap env) k))"
    if "set k \<subseteq> set (block_children b)" for k
  proof -
    have "list_all (everywhere (well_built K env)) (blockToTiptap env c)" if "c \<in> set (block_children b)" for c
      using that 1(2) by (intro 1(1)) (auto simp: preorder.simps [of b])
    with that show ?thesis by (auto simp: list_all_iff)
  qed
  have own: "list_all (everywhere (well_built K env)) (inlinesToTiptap (block_inlines b))"
    using built_inlines [OF assms] 1(2) by (simp add: preorder.simps [of b])
  have payloads: "\<forall>v \<in> set (payloads b). json_parse env (json_stringify env v) = Some v"
    using 1(2) by (simp add: preorder.simps [of b] editable_def)
  show ?case
  proof (cases b)
    case (Toggle i c k)
    then show ?thesis
      using kids payloads by (auto simp: block_node_def everywhere_PM fits_def types_agree str_attr_def js_fields_def kids_def
        intro!: built_attrs [where t = "''toggleBlock''" and as = "[(''id'', _), (''summaryJson'', _)]", unfolded js_fields_def, simplified]
        split: option.splits)
  qed (use kids own in \<open>auto simp: textBlock_def paragraphFromInline_def kids_def textContent_def fits_def types_agree
      intro!: built_block built_atom built_text split: option.splits\<close>)
qed

section \<open>The ids keep what is saved\<close>

text \<open>Every block of a tree has an id, but for the first paragraph of a to-do item.\<close>

fun has_ids :: "bool \<Rightarrow> pm_node \<Rightarrow> bool" and have_ids :: "bool \<Rightarrow> pm_node list \<Rightarrow> bool" where
  "has_ids b (PM t a c x m) \<longleftrightarrow> (b \<longrightarrow> \<not> lacks_id (PM t a c x m)) \<and>
     (case c of None \<Rightarrow> True | Some cs \<Rightarrow> have_ids (t = Some (js ''todoBlock'')) cs)"
| "have_ids f [] \<longleftrightarrow> True"
| "have_ids f (c # cs) \<longleftrightarrow> has_ids (\<not> (f \<and> is_type c ''paragraph'')) c \<and> have_ids False cs"

lemma same_attrs_id: "same_attrs env a (assoc_put (js ''id'') v a)"
proof -
  have "''id'' \<notin> set read_keys" by (simp add: read_keys_def)
  then show ?thesis by (auto simp: same_attrs_def list_all_iff getp_def map_of_assoc_put)
qed

lemma same_attrs_refl: "same_attrs env a a"
  by (simp add: same_attrs_def list_all_iff)

lemma same_marks_refl: "rel_option (list_all2 same_mark) m m"
  by (cases m) (auto simp: same_mark_def intro: list.rel_refl_strong)

lemma like_ids:
  "has_ids b n \<Longrightarrow> like env b n (fst (giveId ids n st))"
  "have_ids f ns \<Longrightarrow> like_list env f ns (fst (giveIds ids ns st))"
proof (induction b n and f ns arbitrary: st and st rule: has_ids_have_ids.induct)
  case (1 b t a c x m)
  then show ?case
    by (cases c) (auto simp: case_prod_beta str_attr_def content_of_def newBlockId_def same_marks_refl same_attrs_id same_attrs_refl)
qed (auto simp: case_prod_beta)

lemma has_ids_weaken: "has_ids True n \<Longrightarrow> has_ids b n"
  by (cases n) auto

lemma have_ids_all: "list_all (has_ids True) ns \<Longrightarrow> have_ids f ns"
  by (induction ns arbitrary: f) (auto intro: has_ids_weaken)

lemma load_ids:
  "kit_ok K \<Longrightarrow> everywhere (well_built K env) n \<Longrightarrow> has_ids b n \<Longrightarrow> has_ids b (nodeFromJSON K n)"
  "kit_ok K \<Longrightarrow> list_all (everywhere (well_built K env)) ns \<Longrightarrow> have_ids f ns \<Longrightarrow> have_ids f (map (nodeFromJSON K) ns)"
proof (induction b n and f ns rule: has_ids_have_ids.induct)
  case (1 b t a c x m)
  then have built: "well_built K env (PM t a c x m)" by (simp add: everywhere_PM)
  then obtain s where t: "t = Some s" by (auto simp: well_built_def)
  have "lacks_id (PM t (computeAttrs (node_attributes K s) a) c' x' m') \<longleftrightarrow> lacks_id (PM t a c x m)" for c' x' m'
    using well_built_attrs(3) [OF 1(2) built] t by (simp add: lacks_id_def is_type_def)
  with 1 show ?case by (cases c) (auto simp: everywhere_PM t)
next
  case (3 f c cs)
  then show ?case by (cases c) (auto simp: is_type_def)
qed simp

lemma truthy_id: "truthy i \<Longrightarrow> \<not> lacks_id (PM (Some (js t)) (js_fields ((''id'', i) # as)) c x m)"
  by (simp add: lacks_id_def getp_js_fields)

lemma atom_has_ids:
  "truthy i \<Longrightarrow> has_ids True (atom_node t ((''id'', i) # as))"
  "truthy i \<Longrightarrow> have_ids (t = ''todoBlock'') ns \<Longrightarrow> has_ids True (block_node t ((''id'', i) # as) ns)"
  "t \<notin> set blockTypesWithId \<Longrightarrow> has_ids True (atom_node t as)"
  using truthy_id by (auto simp: atom_node_def block_node_def lacks_id_def is_type_def simp flip: js_fields_def)

lemma inlines_have_ids: "list_all (has_ids True) (inlinesToTiptap c)"
proof -
  have "list_all (has_ids True) (inlineToTiptap n)" for n
    by (cases n) (simp_all add: textNode_def lacks_id_def is_type_def atom_has_ids blockTypesWithId_def)
  then show ?thesis by (induction c) (simp_all add: inlinesToTiptap_def)
qed

lemma blocks_have_ids:
  "\<forall>c \<in> set (preorder b). block_id c \<noteq> [] \<Longrightarrow> list_all (has_ids True) (blockToTiptap env b)"
proof (induction b rule: preorder.induct)
  case (1 b)
  have kids: "list_all (has_ids True) (concat (map (blockToTiptap env) k))"
    if "set k \<subseteq> set (block_children b)" for k
  proof -
    have "list_all (has_ids True) (blockToTiptap env c)" if "c \<in> set (block_children b)" for c
      using that 1(2) by (intro 1(1)) (auto simp: preorder.simps [of b])
    with that show ?thesis by (auto simp: list_all_iff)
  qed
  have "block_id b \<noteq> []" using 1(2) by (simp add: preorder.simps [of b])
  then have own: "truthy (JStr (block_id b))" by (rule truthy_nonempty)
  have code: "list_all (has_ids True) (textContent t)" for t
    by (simp add: textContent_def textNode_def lacks_id_def is_type_def blockTypesWithId_def)
  have para: "has_ids False (paragraphFromInline i c)" for i c
    by (simp add: paragraphFromInline_def block_node_def have_ids_all inlines_have_ids)
  show ?case
  proof (cases b)
    case (Todo i d c k)
    moreover have "is_type (paragraphFromInline None c) ''paragraph''"
      by (simp add: paragraphFromInline_def block_node_def is_type_def)
    ultimately have "have_ids True (paragraphFromInline None c # concat (map (blockToTiptap env) (kids k)))"
      using kids [of "kids k"] para [of None c] by (simp add: have_ids_all kids_def split: option.splits)
    then show ?thesis
      using own Todo atom_has_ids(2) [of _ "''todoBlock''"] by simp
  qed (use kids own code in \<open>auto simp: textBlock_def paragraphFromInline_def kids_def
      intro!: atom_has_ids(1,2) have_ids_all inlines_have_ids split: option.splits\<close>)
qed

section \<open>The plugin terminates\<close>

text \<open>C21: the round of transactions the plugin starts comes to rest: every block then has an id, the blocks
  that had one are as they were, and one id is drawn for each block that had none.\<close>

theorem ids_settle:
  assumes "v7_supply env"
  shows "\<exists>doc' st'. settle env doc st = Some (doc', st') \<and> \<not> list_ex lacks_id (descendants doc') \<and>
    list_all2 id_given (descendants doc) (descendants doc') \<and>
    st' = st\<lparr>drawn := drawn st + length (filter lacks_id (descendants doc))\<rparr>"
  using settles [OF v7_nonempty [OF assms]] .

lemma ids_settle_witness:
  "\<exists>doc'. settle sample_ids (PM (Some (js ''doc'')) [] (Some [PM (Some (js ''paragraph'')) [] None None None]) None None)
     createAdapterState = Some (doc', createAdapterState\<lparr>drawn := 1\<rparr>) \<and> \<not> list_ex lacks_id (descendants doc')"
  using ids_settle [OF sample_ids_supply, of "PM (Some (js ''doc'')) [] (Some [PM (Some (js ''paragraph'')) [] None None None]) None None"
      createAdapterState]
  by (auto simp: descendants_PM content_of_def lacks_id_def is_type_def blockTypesWithId_def createAdapterState_def)

section \<open>A document in the editor\<close>

lemma settle_content:
  assumes "v7_supply env" "settle env doc st = Some (doc', st')"
  shows "content_of doc' = content_of doc \<or> content_of doc' = fst (giveIds env (content_of doc) st)"
proof (cases "appendTransaction env doc st")
  case None
  with assms(2) show ?thesis by (simp add: settle.simps)
next
  case (Some r)
  obtain d s where r: "r = (d, s)" by (cases r)
  have "appendTransaction env d s = None"
    using append_rests [OF v7_nonempty [OF assms(1)] Some [unfolded r]] .
  then have "doc' = d"
    using assms(2) Some r by (simp add: settle.simps [of env doc] settle.simps [of env d])
  then show ?thesis
    using Some r by (cases "pm_content doc") (auto simp: appendTransaction_def case_prod_beta content_of_def split: if_splits)
qed


definition sample_kit :: editor_kit where
  "sample_kit = \<lparr>kit_nodes = (\<lambda>t. if t = js ''heading'' then [(js ''level'', JNum (Dec False 1 0))]
       else if t = js ''codeBlock'' then [(js ''language'', JNull)]
       else if t = js ''orderedList'' then [(js ''start'', JNum (Dec False 1 0)), (js ''type'', JNull)] else []),
     kit_marks = (\<lambda>t. if t = js ''link'' then [(js ''href'', JNull), (js ''target'', JNull)] else []),
     mark_rank = (\<lambda>t. if t = js ''bold'' then 0 else if t = js ''code'' then 1 else if t = js ''italic'' then 2
       else if t = js ''strike'' then 3 else if t = js ''underline'' then 4 else if t = js ''textColor'' then 5 else 6)\<rparr>"

lemma sample_kit_ok: "kit_ok sample_kit"
proof -
  have "mark_rank sample_kit (fst (tiptap_mark m)) \<le> mark_rank sample_kit (js ''textColor'')" for m
    by (cases m) (simp_all add: sample_kit_def tiptap_mark_def mark_to_tiptap_def)
  moreover have "fst ` set (kit_nodes sample_kit (js t)) = js ` set (kit_reads t) \<union>
      (if t = ''orderedList'' then {js ''start'', js ''type''} else {})" for t
    by (simp add: sample_kit_def kit_reads_def)
  moreover have "{''start'', ''type''} \<inter> set (''summaryText'' # read_keys) = {}" by (simp add: read_keys_def)
  moreover have "''id'' \<notin> set (kit_reads t)" for t by (simp add: kit_reads_def)
  moreover have "js ''href'' \<in> fst ` set (kit_marks sample_kit (js ''link''))"
    "mark_rank sample_kit (js ''textColor'') \<le> mark_rank sample_kit (js ''backgroundColor'')"
    by (simp_all add: sample_kit_def)
  ultimately show ?thesis unfolding kit_ok_def by (auto split: if_splits)
qed

definition sample_draft :: document where
  "sample_draft = [Heading sample_v7 2 (Some True) [InlineCode (js ''a'')] (Some [Toggle sample_v7 [] None]),
     Todo sample_v7 False [Text (js ''b'') (Some [Bold, Italic]) (Some Red) None] None]"


end
