(* ===== verification/EditorSession.thy ===== *)
theory EditorSession
  imports AstSchema
begin

text \<open>
  \<open>lib/editor-session.ts\<close>: the editing session of a page, its conflict state and its draft in
  \<open>localStorage\<close>.

  \<open>storage\<close> is the browser's storage: \<open>available\<close> is false where every access throws, \<open>items\<close>
  are the stored pairs in enumeration order. \<open>draft_env\<close> holds what the host decides: the JSON
  codec, the time stamp of a draft and whether the quota admits the items. Each store action is a
  function on the session and the storage; reads and writes that throw are caught by the code and
  leave both unchanged.
\<close>

record storage =
  available :: bool
  items :: "(jstr \<times> jstr) list"

record draft_env =
  d_stringify :: "jsval \<Rightarrow> jstr"
  d_parse :: "jstr \<Rightarrow> jsval option"
  d_now :: jstr
  d_fits :: "(jstr \<times> jstr) list \<Rightarrow> bool"

section \<open>Drafts\<close>

definition draft_key_prefix :: jstr where
  "draft_key_prefix = js ''anbywiki.editor-draft.''"

definition no_revision :: jstr where
  "no_revision = js ''none''"

definition page_prefix :: "jstr \<Rightarrow> jstr \<Rightarrow> jstr" where
  "page_prefix actor page = draft_key_prefix @ actor @ js ''.'' @ page @ js ''.''"

definition draftKey :: "jstr \<Rightarrow> jstr \<Rightarrow> jstr option \<Rightarrow> jstr" where
  "draftKey actor page base = page_prefix actor page @ (case base of None \<Rightarrow> no_revision | Some b \<Rightarrow> b)"

datatype draft_restore = RestoreNone | RestoreFresh | RestoreStale

definition listDraftKeys :: "jstr \<Rightarrow> jstr \<Rightarrow> storage \<Rightarrow> jstr list" where
  "listDraftKeys actor page st =
     (if available st then filter (\<lambda>k. starts_with k (page_prefix actor page)) (map fst (items st)) else [])"

definition getItem :: "jstr \<Rightarrow> storage \<Rightarrow> jstr option" where
  "getItem k st = (if available st then map_of (items st) k else None)"

text \<open>\<open>payload.ast\<close>: absent on anything but an object, and then \<open>parseDocument\<close> throws.\<close>

definition payload_ast :: "jsval \<Rightarrow> jsval" where
  "payload_ast v = (case v of JObj fs \<Rightarrow> getp fs (js ''ast'') | _ \<Rightarrow> JUndef)"

definition readDraftAst :: "zenv \<Rightarrow> draft_env \<Rightarrow> jstr \<Rightarrow> storage \<Rightarrow> document option" where
  "readDraftAst z env k st =
     (case getItem k st of
        None \<Rightarrow> None
      | Some raw \<Rightarrow> if raw = [] then None
          else Option.bind (d_parse env raw) (\<lambda>payload. parseDocument z (payload_ast payload)))"

definition removeItem :: "jstr \<Rightarrow> storage \<Rightarrow> storage" where
  "removeItem k st = (if available st then st\<lparr>items := assoc_del k (items st)\<rparr> else st)"

definition removeOtherDrafts :: "jstr \<Rightarrow> jstr \<Rightarrow> jstr option \<Rightarrow> storage \<Rightarrow> storage" where
  "removeOtherDrafts actor page keep st =
     fold (\<lambda>k st. if Some k \<noteq> keep then removeItem k st else st) (listDraftKeys actor page st) st"

definition draft_payload :: "draft_env \<Rightarrow> document \<Rightarrow> jsval" where
  "draft_payload env d = JObj [(js ''ast'', encode_document d), (js ''savedAt'', JStr (d_now env))]"

definition saveDraft :: "draft_env \<Rightarrow> jstr \<Rightarrow> document \<Rightarrow> storage \<Rightarrow> storage" where
  "saveDraft env k d st =
     (let its = assoc_put k (d_stringify env (draft_payload env d)) (items st)
      in if available st \<and> d_fits env its then st\<lparr>items := its\<rparr> else st)"

section \<open>The session\<close>

record conflict_info =
  conflict_base :: "jstr option"
  conflict_current :: "jstr option"
  conflict_server :: document

record session =
  actorId :: "jstr option"
  pageId :: "jstr option"
  baseRevisionId :: "jstr option"
  serverAst :: "document option"
  sessionAst :: "document option"
  dirty :: bool
  summary :: jstr
  isMinor :: bool
  publishing :: bool
  conflict :: "conflict_info option"
  rebasedFromConflict :: bool

definition initial_session :: session where
  "initial_session = \<lparr>actorId = None, pageId = None, baseRevisionId = None, serverAst = None, sessionAst = None,
     dirty = False, summary = [], isMinor = False, publishing = False, conflict = None, rebasedFromConflict = False\<rparr>"

text \<open>The first of the old drafts that can be read, with its key.\<close>

fun first_readable :: "(jstr \<Rightarrow> document option) \<Rightarrow> jstr list \<Rightarrow> (jstr \<times> document) option" where
  "first_readable rd [] = None"
| "first_readable rd (k # ks) = (case rd k of Some d \<Rightarrow> Some (k, d) | None \<Rightarrow> first_readable rd ks)"

definition base_of_key :: "jstr \<Rightarrow> jstr \<Rightarrow> jstr \<Rightarrow> jstr option" where
  "base_of_key actor page k =
     (let suffix = drop (length (page_prefix actor page)) k in if suffix = no_revision then None else Some suffix)"

text \<open>The draft to restore: how, its content, and the revision an outdated one was based on.\<close>

definition find_draft :: "zenv \<Rightarrow> draft_env \<Rightarrow> jstr \<Rightarrow> jstr \<Rightarrow> jstr option \<Rightarrow> storage \<Rightarrow>
    draft_restore \<times> document option \<times> jstr option" where
  "find_draft z env actor page base st =
     (let currentKey = draftKey actor page base; keys = listDraftKeys actor page st in
      if currentKey \<in> set keys then
        (case readDraftAst z env currentKey st of
           Some d \<Rightarrow> (RestoreFresh, Some d, None) | None \<Rightarrow> (RestoreNone, None, None))
      else (case first_readable (\<lambda>k. readDraftAst z env k st) keys of
           Some (k, d) \<Rightarrow> (RestoreStale, Some d, base_of_key actor page k)
         | None \<Rightarrow> (RestoreNone, None, None)))"

type_synonym world = "session \<times> storage"

definition startSession :: "zenv \<Rightarrow> draft_env \<Rightarrow> jstr \<Rightarrow> jstr \<Rightarrow> jstr option \<Rightarrow> document \<Rightarrow> world \<Rightarrow>
    draft_restore \<times> world" where
  "startSession z env actor page base server = (\<lambda>(s, st).
     let (restore, draft, stale_base) = find_draft z env actor page base st;
         currentKey = draftKey actor page base;
         st' = removeOtherDrafts actor page (if restore = RestoreNone then None else Some currentKey) st;
         st'' = (case draft of None \<Rightarrow> st' | Some d \<Rightarrow> saveDraft env currentKey d st')
     in (restore,
         (s\<lparr>actorId := Some actor, pageId := Some page, baseRevisionId := base, serverAst := Some server,
            sessionAst := Some (case draft of None \<Rightarrow> server | Some d \<Rightarrow> d), dirty := draft \<noteq> None,
            summary := [], isMinor := False, publishing := False,
            conflict := (if restore = RestoreStale
              then Some \<lparr>conflict_base = stale_base, conflict_current = base, conflict_server = server\<rparr> else None),
            rebasedFromConflict := False\<rparr>, st'')))"

text \<open>\<open>if (actorId && pageId)\<close>\<close>

definition with_page :: "session \<Rightarrow> (jstr \<Rightarrow> jstr \<Rightarrow> storage \<Rightarrow> storage) \<Rightarrow> storage \<Rightarrow> storage" where
  "with_page s f st =
     (case (actorId s, pageId s) of
        (Some a, Some p) \<Rightarrow> if a \<noteq> [] \<and> p \<noteq> [] then f a p st else st
      | _ \<Rightarrow> st)"

definition setAst :: "draft_env \<Rightarrow> document \<Rightarrow> world \<Rightarrow> world" where
  "setAst env d = (\<lambda>(s, st).
     (s\<lparr>sessionAst := Some d, dirty := True\<rparr>,
      with_page s (\<lambda>a p. saveDraft env (draftKey a p (baseRevisionId s)) d) st))"

definition recordConflict :: "jstr option \<Rightarrow> document \<Rightarrow> session \<Rightarrow> session" where
  "recordConflict current server s =
     (if conflict s \<noteq> None then s
      else s\<lparr>conflict := Some \<lparr>conflict_base = baseRevisionId s, conflict_current = current,
               conflict_server = server\<rparr>\<rparr>)"

definition rebaseToLatest :: "draft_env \<Rightarrow> world \<Rightarrow> world" where
  "rebaseToLatest env = (\<lambda>(s, st).
     case conflict s of
       None \<Rightarrow> (s, st)
     | Some c \<Rightarrow>
         (s\<lparr>baseRevisionId := conflict_current c, serverAst := Some (conflict_server c), conflict := None,
            rebasedFromConflict := True\<rparr>,
          with_page s (\<lambda>a p st.
            let st' = removeOtherDrafts a p None st in
            case sessionAst s of None \<Rightarrow> st'
            | Some d \<Rightarrow> saveDraft env (draftKey a p (conflict_current c)) d st') st))"

definition resetToServer :: "world \<Rightarrow> world" where
  "resetToServer = (\<lambda>(s, st).
     case conflict s of
       None \<Rightarrow> (s, st)
     | Some c \<Rightarrow>
         (s\<lparr>baseRevisionId := conflict_current c, serverAst := Some (conflict_server c),
            sessionAst := Some (conflict_server c), dirty := False, conflict := None, rebasedFromConflict := False\<rparr>,
          with_page s (\<lambda>a p. removeOtherDrafts a p None) st))"

definition discardDraft :: "world \<Rightarrow> world" where
  "discardDraft = (\<lambda>(s, st).
     (s\<lparr>sessionAst := serverAst s, dirty := False, conflict := None\<rparr>,
      with_page s (\<lambda>a p. removeOtherDrafts a p None) st))"

definition clearDraft :: "world \<Rightarrow> world" where
  "clearDraft = (\<lambda>(s, st). (s, with_page s (\<lambda>a p. removeOtherDrafts a p None) st))"

section \<open>The store\<close>

datatype session_op =
    StartSession jstr jstr "jstr option" document
  | SetAst document
  | SetSummary jstr
  | SetIsMinor bool
  | SetPublishing bool
  | RecordConflict "jstr option" document
  | RebaseToLatest
  | ResetToServer
  | ClearRebasedFlag
  | DiscardDraft
  | ClearDraft

fun session_apply :: "zenv \<Rightarrow> draft_env \<Rightarrow> session_op \<Rightarrow> world \<Rightarrow> world" where
  "session_apply z env (StartSession a p b d) w = snd (startSession z env a p b d w)"
| "session_apply z env (SetAst d) w = setAst env d w"
| "session_apply z env (SetSummary t) (s, st) = (s\<lparr>summary := t\<rparr>, st)"
| "session_apply z env (SetIsMinor b) (s, st) = (s\<lparr>isMinor := b\<rparr>, st)"
| "session_apply z env (SetPublishing b) (s, st) = (s\<lparr>publishing := b\<rparr>, st)"
| "session_apply z env (RecordConflict c d) (s, st) = (recordConflict c d s, st)"
| "session_apply z env RebaseToLatest w = rebaseToLatest env w"
| "session_apply z env ResetToServer w = resetToServer w"
| "session_apply z env ClearRebasedFlag (s, st) = (s\<lparr>rebasedFromConflict := False\<rparr>, st)"
| "session_apply z env DiscardDraft w = discardDraft w"
| "session_apply z env ClearDraft w = clearDraft w"

section \<open>The interface of a draft store\<close>

text \<open>
  What the session relies on of the drafts of a page: which keys they are stored under, reading one,
  saving one and clearing all but one. \<open>able v s\<close> is what the store needs for a save of \<open>v\<close> to succeed.
\<close>

locale draft_store =
  fixes keys :: "'s \<Rightarrow> 'k list"
    and get :: "'k \<Rightarrow> 's \<Rightarrow> 'v option"
    and put :: "'k \<Rightarrow> 'v \<Rightarrow> 's \<Rightarrow> 's"
    and clear :: "'k option \<Rightarrow> 's \<Rightarrow> 's"
    and mine :: "'k \<Rightarrow> bool"
    and able :: "'v \<Rightarrow> 's \<Rightarrow> bool"
  assumes keys_clear: "keys (clear l s) = filter (\<lambda>k. Some k = l) (keys s)"
    and keys_put: "set (keys (put k v s)) \<subseteq> insert k (set (keys s))"
    and able_clear: "able v (clear l s) = able v s"
    and get_put: "able v s \<Longrightarrow> get k (put k v s) = Some v"
    and get_clear: "get k (clear (Some k) s) = get k s"
    and get_listed: "mine k \<Longrightarrow> get k s \<noteq> None \<Longrightarrow> k \<in> set (keys s)"
begin

lemma keys_clear_all [simp]: "keys (clear None s) = []"
  by (simp add: keys_clear)

lemma keys_clear_put:
  assumes "j = None \<or> j = Some k"
  shows "set (keys (put k v (clear j s))) \<subseteq> {k}"
  using assms keys_put [of k v "clear j s"] by (auto simp: keys_clear)

lemma get_clear_put: "able v s \<Longrightarrow> get k (put k v (clear j s)) = Some v"
  by (rule get_put) (simp add: able_clear)

lemma only_key:
  assumes "mine k" "able v s" "set (keys s) \<subseteq> {k}"
  shows "keys (put k v s) \<noteq> [] \<and> set (keys (put k v s)) = {k}"
  using assms keys_put [of k v s] get_listed [OF assms(1), of "put k v s"] get_put [OF assms(2), of k] by auto

end

section \<open>The browser's storage provides it\<close>

lemma storage_fold_remove:
  "available (fold (\<lambda>k st. if Some k \<noteq> keep then removeItem k st else st) ks st) = available st"
  "available st \<Longrightarrow> items (fold (\<lambda>k st. if Some k \<noteq> keep then removeItem k st else st) ks st) =
     filter (\<lambda>p. \<not> (fst p \<in> set ks \<and> Some (fst p) \<noteq> keep)) (items st)"
proof (induction ks arbitrary: st)
  case Nil
  { case 1 show ?case by simp }
  { case 2 show ?case by simp }
next
  case (Cons k ks)
  { case 1 show ?case using Cons(1) by (simp add: removeItem_def) }
  { case 2 then show ?case
      using Cons(2) by (auto simp: removeItem_def assoc_del_def conj_commute intro!: filter_cong) }
qed

lemma available_removeOtherDrafts [simp]: "available (removeOtherDrafts a p keep st) = available st"
  by (simp add: removeOtherDrafts_def storage_fold_remove)

lemma items_removeOtherDrafts:
  "items (removeOtherDrafts a p keep st) =
   (if available st then filter (\<lambda>q. \<not> (starts_with (fst q) (page_prefix a p) \<and> Some (fst q) \<noteq> keep)) (items st)
    else items st)"
proof (cases "available st")
  case True
  then have "items (removeOtherDrafts a p keep st) =
      filter (\<lambda>q. \<not> (fst q \<in> set (listDraftKeys a p st) \<and> Some (fst q) \<noteq> keep)) (items st)"
    by (simp add: removeOtherDrafts_def storage_fold_remove)
  also have "\<dots> = filter (\<lambda>q. \<not> (starts_with (fst q) (page_prefix a p) \<and> Some (fst q) \<noteq> keep)) (items st)"
    using True by (intro filter_cong) (auto simp: listDraftKeys_def)
  finally show ?thesis using True by simp
qed (simp add: removeOtherDrafts_def listDraftKeys_def)

lemma available_saveDraft [simp]: "available (saveDraft env k d st) = available st"
  by (simp add: saveDraft_def Let_def)

lemma map_of_filter_key: "P k \<Longrightarrow> map_of (filter (\<lambda>q. P (fst q)) xs) k = map_of xs k"
  by (induction xs) auto

definition draft_able :: "zenv \<Rightarrow> draft_env \<Rightarrow> document \<Rightarrow> storage \<Rightarrow> bool" where
  "draft_able z env d st \<longleftrightarrow> available st \<and> (\<forall>its. d_fits env its) \<and> valid_document z d \<and>
     d_stringify env (draft_payload env d) \<noteq> [] \<and>
     d_parse env (d_stringify env (draft_payload env d)) = Some (draft_payload env d)"

lemma listDraftKeys_remove:
  "listDraftKeys a p (removeOtherDrafts a p k st) = filter (\<lambda>j. Some j = k) (listDraftKeys a p st)"
proof (cases "available st")
  case True
  have "filter (\<lambda>k. starts_with k pre) (map fst (filter (\<lambda>q. \<not> (starts_with (fst q) pre \<and> Some (fst q) \<noteq> keep)) xs)) =
      filter (\<lambda>j. Some j = keep) (filter (\<lambda>k. starts_with k pre) (map fst xs))"
    for pre keep and xs :: "(jstr \<times> jstr) list"
    by (induction xs) auto
  then show ?thesis using True by (simp add: listDraftKeys_def items_removeOtherDrafts)
qed (simp add: listDraftKeys_def)

lemma listDraftKeys_save: "set (listDraftKeys a p (saveDraft env k d st)) \<subseteq> insert k (set (listDraftKeys a p st))"
proof -
  have "set (filter P (map fst (assoc_put k v xs))) \<subseteq> insert k (set (filter P (map fst xs)))" for P v
    and xs :: "(jstr \<times> jstr) list"
    using fst_set_assoc_put [of k v xs] by (simp add: set_filter) blast
  then show ?thesis by (auto simp: listDraftKeys_def saveDraft_def Let_def simp del: set_filter filter_set)
qed

lemma readDraft_save:
  "draft_able z env d st \<Longrightarrow> readDraftAst z env k (saveDraft env k d st) = Some d"
  using document_complete [of z d]
  by (simp add: draft_able_def readDraftAst_def getItem_def saveDraft_def Let_def map_of_assoc_put payload_ast_def
      draft_payload_def)

lemma readDraft_remove: "readDraftAst z env k (removeOtherDrafts a p (Some k) st) = readDraftAst z env k st"
  using map_of_filter_key [of "\<lambda>j. starts_with j (page_prefix a p) \<longrightarrow> j = k" k "items st"]
  by (simp add: readDraftAst_def getItem_def items_removeOtherDrafts)

interpretation drafts: draft_store "listDraftKeys a p" "readDraftAst z env" "saveDraft env" "removeOtherDrafts a p"
  "\<lambda>k. starts_with k (page_prefix a p)" "draft_able z env" for a p z env
proof
  fix k st
  assume "starts_with k (page_prefix a p)" "readDraftAst z env k st \<noteq> None"
  then show "k \<in> set (listDraftKeys a p st)"
    by (auto simp: listDraftKeys_def readDraftAst_def getItem_def dest: map_of_SomeD split: if_splits option.splits)
      (force dest: map_of_SomeD)+
qed (simp_all add: listDraftKeys_remove listDraftKeys_save readDraft_save readDraft_remove draft_able_def)

section \<open>Runs of the session\<close>

text \<open>
  Any action may follow any other. In particular a conflict may be recorded on a session that is not
  dirty: the view looks at the session before it sends a publication and records the conflict after
  the answer, when the user may have reset the session or opened another page.
\<close>

inductive session_reachable :: "zenv \<Rightarrow> draft_env \<Rightarrow> world \<Rightarrow> bool" for z env where
  start: "session_reachable z env (initial_session, st)"
| step: "session_reachable z env (s, st) \<Longrightarrow> session_reachable z env (session_apply z env oper (s, st))"

lemma find_draft_cases:
  obtains "find_draft z env a p b st = (RestoreNone, None, None)"
  | d where "draftKey a p b \<in> set (listDraftKeys a p st)" "readDraftAst z env (draftKey a p b) st = Some d"
      "find_draft z env a p b st = (RestoreFresh, Some d, None)"
  | k d where "draftKey a p b \<notin> set (listDraftKeys a p st)"
      "first_readable (\<lambda>k. readDraftAst z env k st) (listDraftKeys a p st) = Some (k, d)"
      "find_draft z env a p b st = (RestoreStale, Some d, base_of_key a p k)"
proof (cases "draftKey a p b \<in> set (listDraftKeys a p st)")
  case True
  then show thesis
    using that(1,2) by (cases "readDraftAst z env (draftKey a p b) st") (simp_all add: find_draft_def)
next
  case False
  then show thesis
    using that(1,3)
    by (cases "first_readable (\<lambda>k. readDraftAst z env k st) (listDraftKeys a p st)") (auto simp: find_draft_def)
qed

lemma start_one_draft: "set (listDraftKeys a p (snd (snd (startSession z env a p b d (s, st))))) \<subseteq> {draftKey a p b}"
  by (cases rule: find_draft_cases [of z env a p b st])
    (use drafts.keys_clear_put in \<open>simp_all add: startSession_def Let_def drafts.keys_clear_put\<close>)

definition one_draft :: "world \<Rightarrow> bool" where
  "one_draft w \<longleftrightarrow> (case w of (s, st) \<Rightarrow> \<forall>a p. actorId s = Some a \<longrightarrow> pageId s = Some p \<longrightarrow> a \<noteq> [] \<longrightarrow> p \<noteq> [] \<longrightarrow>
     set (listDraftKeys a p st) \<subseteq> {draftKey a p (baseRevisionId s)})"

definition session_run :: "zenv \<Rightarrow> draft_env \<Rightarrow> session_op list \<Rightarrow> world \<Rightarrow> world" where
  "session_run z env opers w = fold (session_apply z env) opers w"

text \<open>Some action of the run rebases a session with a conflict that is not dirty.\<close>

primrec clean_rebase :: "zenv \<Rightarrow> draft_env \<Rightarrow> session_op list \<Rightarrow> world \<Rightarrow> bool" where
  "clean_rebase z env [] w \<longleftrightarrow> False"
| "clean_rebase z env (oper # opers) w \<longleftrightarrow>
     oper = RebaseToLatest \<and> conflict (fst w) \<noteq> None \<and> \<not> dirty (fst w) \<or>
     clean_rebase z env opers (session_apply z env oper w)"

definition clean_ok :: "session \<Rightarrow> bool" where
  "clean_ok s \<longleftrightarrow> dirty s \<or> sessionAst s = serverAst s"

lemma start_fields:
  "startSession z env a p b d (s, st) = (r, s', st') \<Longrightarrow>
   actorId s' = Some a \<and> pageId s' = Some p \<and> baseRevisionId s' = b \<and> serverAst s' = Some d"
  by (auto simp: startSession_def Let_def split: prod.splits)

lemma one_draft_apply: "one_draft (s, st) \<Longrightarrow> one_draft (session_apply z env oper (s, st))"
proof (cases oper)
  case (StartSession a p b d)
  obtain r s' st' where "startSession z env a p b d (s, st) = (r, s', st')" by (metis prod_cases3)
  with StartSession show ?thesis
    using start_fields start_one_draft [of a p z env b d s st] by (force simp: one_draft_def)
next
  case (SetAst d)
  assume "one_draft (s, st)"
  then show ?thesis
    using SetAst listDraftKeys_save [of _ _ env _ d st]
    by (fastforce simp: one_draft_def setAst_def with_page_def)
next
  case RebaseToLatest
  assume "one_draft (s, st)"
  then show ?thesis
    using RebaseToLatest drafts.keys_clear_put [of None]
    by (auto simp: one_draft_def rebaseToLatest_def with_page_def Let_def split: option.splits)
next
  case (RecordConflict c d)
  assume "one_draft (s, st)"
  then show ?thesis
    using RecordConflict by (simp add: one_draft_def recordConflict_def)
qed (simp_all add: one_draft_def resetToServer_def discardDraft_def clearDraft_def with_page_def split: option.splits)

lemma clean_ok_apply:
  "clean_ok s \<Longrightarrow> \<not> (oper = RebaseToLatest \<and> conflict s \<noteq> None \<and> \<not> dirty s) \<Longrightarrow>
   clean_ok (fst (session_apply z env oper (s, st)))"
proof (cases oper)
  case (StartSession a p b d)
  then show ?thesis
    by (cases rule: find_draft_cases [of z env a p b st]) (simp_all add: clean_ok_def startSession_def Let_def)
qed (auto simp: clean_ok_def setAst_def recordConflict_def rebaseToLatest_def resetToServer_def
    discardDraft_def clearDraft_def split: option.splits)

lemma clean_ok_run:
  "clean_ok (fst w) \<Longrightarrow> \<not> clean_rebase z env opers w \<Longrightarrow> clean_ok (fst (session_run z env opers w))"
proof (induction opers arbitrary: w)
  case (Cons oper opers)
  obtain s st where "w = (s, st)" by fastforce
  with Cons show ?case using clean_ok_apply [of s oper z env st] by (simp add: session_run_def)
qed (simp add: session_run_def)

lemma session_reachable_inv: "session_reachable z env w \<Longrightarrow> one_draft w"
proof (induction rule: session_reachable.induct)
  case (start st)
  then show ?case by (simp add: one_draft_def initial_session_def)
next
  case (step s st oper)
  then show ?case by (simp add: one_draft_apply)
qed

section \<open>Properties\<close>

lemma with_page_Some [simp]:
  "actorId s = Some a \<Longrightarrow> pageId s = Some p \<Longrightarrow> a \<noteq> [] \<Longrightarrow> p \<noteq> [] \<Longrightarrow> with_page s f st = f a p st"
  by (simp add: with_page_def)

lemma starts_with_draftKey [simp]: "starts_with (draftKey a p b) (page_prefix a p)"
  by (simp add: draftKey_def)

lemma base_of_draftKey [simp]: "b \<noteq> Some no_revision \<Longrightarrow> base_of_key a p (draftKey a p b) = b"
  by (cases b) (auto simp: base_of_key_def draftKey_def)

lemma draftKey_inject [simp]:
  "b \<noteq> Some no_revision \<Longrightarrow> c \<noteq> Some no_revision \<Longrightarrow> draftKey a p b = draftKey a p c \<longleftrightarrow> b = c"
  by (metis base_of_draftKey)

lemma first_readable_only: "ks \<noteq> [] \<Longrightarrow> set ks = {k} \<Longrightarrow> rd k = Some d \<Longrightarrow> first_readable rd ks = Some (k, d)"
  by (cases ks) auto

text \<open>A draft saved in a session is the only one of its page, and can be read.\<close>

lemma saved_draft:
  assumes "session_reachable z env (s, st)" "actorId s = Some a" "pageId s = Some p" "a \<noteq> []" "p \<noteq> []"
    and "draft_able z env d st"
  defines "k \<equiv> draftKey a p (baseRevisionId s)"
  shows "snd (setAst env d (s, st)) = saveDraft env k d st"
    "listDraftKeys a p (saveDraft env k d st) \<noteq> []" "set (listDraftKeys a p (saveDraft env k d st)) = {k}"
    "readDraftAst z env k (saveDraft env k d st) = Some d"
proof -
  have "set (listDraftKeys a p st) \<subseteq> {k}"
    using session_reachable_inv [OF assms(1)] assms(2-5) by (simp add: one_draft_def k_def)
  with drafts.only_key [OF _ assms(6)] show "listDraftKeys a p (saveDraft env k d st) \<noteq> []"
    "set (listDraftKeys a p (saveDraft env k d st)) = {k}"
    by (simp_all add: k_def)
qed (use assms in \<open>simp_all add: setAst_def readDraft_save\<close>)

text \<open>C5: at every moment of a run, the drafts kept for the page of the session are at most the one under
  the session's base revision.\<close>

theorem session_one_draft:
  assumes "session_reachable z env (s, st)" "actorId s = Some a" "pageId s = Some p" "a \<noteq> []" "p \<noteq> []"
  shows "set (listDraftKeys a p st) \<subseteq> {draftKey a p (baseRevisionId s)}"
  using session_reachable_inv [OF assms(1)] assms(2-5) by (simp add: one_draft_def)


text \<open>C26: after a crash, a new session on the same base revision restores the content last edited, as a
  change without a conflict.\<close>

theorem draft_recovery:
  assumes "session_reachable z env (s, st)" "actorId s = Some a" "pageId s = Some p" "a \<noteq> []" "p \<noteq> []"
    and "draft_able z env d st"
    and "startSession z env a p (baseRevisionId s) server (s0, snd (setAst env d (s, st))) = (r, t, st')"
  shows "r = RestoreFresh \<and> sessionAst t = Some d \<and> dirty t \<and> conflict t = None"
proof -
  note saved = saved_draft [OF assms(1-6)]
  have "find_draft z env a p (baseRevisionId s) (snd (setAst env d (s, st))) = (RestoreFresh, Some d, None)"
    by (simp add: find_draft_def saved)
  with assms(7) show ?thesis by (auto simp: startSession_def Let_def)
qed

text \<open>C27: when the page has moved to another revision meanwhile, the restored content is kept and the
  conflict is recorded, between the revision the draft was based on and the current one; the draft is
  stored anew under the current revision.\<close>

theorem stale_draft_conflict:
  assumes "session_reachable z env (s, st)" "actorId s = Some a" "pageId s = Some p" "a \<noteq> []" "p \<noteq> []"
    and "draft_able z env d st"
    and "base' \<noteq> baseRevisionId s" "baseRevisionId s \<noteq> Some no_revision" "base' \<noteq> Some no_revision"
    and "startSession z env a p base' server (s0, snd (setAst env d (s, st))) = (r, t, st')"
  shows "r = RestoreStale \<and> sessionAst t = Some d \<and> dirty t \<and>
    conflict t = Some \<lparr>conflict_base = baseRevisionId s, conflict_current = base', conflict_server = server\<rparr> \<and>
    readDraftAst z env (draftKey a p base') st' = Some d"
proof -
  let ?k = "draftKey a p (baseRevisionId s)"
  note saved = saved_draft [OF assms(1-6)]
  have able: "draft_able z env d (saveDraft env ?k d st)"
    using assms(6) by (simp add: draft_able_def)
  have "find_draft z env a p base' (saveDraft env ?k d st) = (RestoreStale, Some d, baseRevisionId s)"
    using first_readable_only [of _ ?k "\<lambda>k. readDraftAst z env k (saveDraft env ?k d st)", OF saved(2,3,4)]
      saved(3) assms(7-9) by (simp add: find_draft_def)
  with assms(10) saved(1) show ?thesis
    using drafts.get_clear_put [OF able] by (auto simp: startSession_def Let_def)
qed

text \<open>Rebasing onto the server's version keeps the edited content and the dirty mark, moves the base
  to the current revision, and leaves the content as the one draft, under the new base.\<close>

theorem rebase_keeps_work:
  assumes "conflict s = Some c" "actorId s = Some a" "pageId s = Some p" "a \<noteq> []" "p \<noteq> []"
    and "sessionAst s = Some d" "draft_able z env d st"
    and "rebaseToLatest env (s, st) = (t, st')"
  shows "sessionAst t = Some d \<and> dirty t = dirty s \<and> baseRevisionId t = conflict_current c \<and> conflict t = None \<and>
    set (listDraftKeys a p st') = {draftKey a p (conflict_current c)} \<and>
    readDraftAst z env (draftKey a p (conflict_current c)) st' = Some d"
proof -
  have st': "st' = saveDraft env (draftKey a p (conflict_current c)) d (removeOtherDrafts a p None st)"
    and "sessionAst t = Some d \<and> dirty t = dirty s \<and> baseRevisionId t = conflict_current c \<and> conflict t = None"
    using assms by (auto simp: rebaseToLatest_def)
  moreover have "draft_able z env d (removeOtherDrafts a p None st)"
    using assms(7) by (simp add: draft_able_def)
  note drafts.only_key [OF starts_with_draftKey this] drafts.get_clear_put [OF assms(7)]
  ultimately show ?thesis by auto
qed

section \<open>Witnesses\<close>

definition sample_draft_env :: draft_env where
  "sample_draft_env = \<lparr>d_stringify = (\<lambda>_. js ''x''),
     d_parse = (\<lambda>_. Some (JObj [(js ''ast'', encode_document sample_doc), (js ''savedAt'', JStr [])])),
     d_now = [], d_fits = (\<lambda>_. True)\<rparr>"

definition empty_storage :: storage where
  "empty_storage = \<lparr>available = True, items = []\<rparr>"

definition sample_world :: world where
  "sample_world = session_apply sample_env sample_draft_env (StartSession (js ''a'') (js ''p'') None [])
     (initial_session, empty_storage)"

lemma sample_world_eq: "sample_world =
  (initial_session\<lparr>actorId := Some (js ''a''), pageId := Some (js ''p''), serverAst := Some [], sessionAst := Some []\<rparr>,
   empty_storage)"
  by (simp add: sample_world_def startSession_def find_draft_def listDraftKeys_def empty_storage_def Let_def
      removeOtherDrafts_def initial_session_def)

lemma sample_reachable: "session_reachable sample_env sample_draft_env sample_world"
  unfolding sample_world_def
  by (rule session_reachable.step [OF session_reachable.start])

lemma sample_able: "draft_able sample_env sample_draft_env sample_doc empty_storage"
  by (simp add: draft_able_def sample_doc_valid sample_draft_env_def empty_storage_def draft_payload_def)

lemma session_one_draft_witness:
  "set (listDraftKeys (js ''a'') (js ''p'') empty_storage) \<subseteq> {draftKey (js ''a'') (js ''p'') None}"
  using session_one_draft [OF sample_reachable [unfolded sample_world_eq], of "js ''a''" "js ''p''"]
  by (simp add: initial_session_def)


text \<open>A conflict recorded on a session that is not dirty and rebased: the session shows the old content,
  takes another for the server's, and is not dirty, so that it cannot be published.\<close>

lemma clean_rebase_diverges:
  "let s = fst (session_run sample_env sample_draft_env
       [StartSession (js ''a'') (js ''p'') None [], RecordConflict (Some (js ''r'')) sample_doc, RebaseToLatest]
       (initial_session, empty_storage))
   in \<not> dirty s \<and> sessionAst s = Some [] \<and> serverAst s = Some sample_doc \<and> conflict s = None"
  using sample_world_eq [unfolded sample_world_def]
  by (simp add: session_run_def recordConflict_def rebaseToLatest_def initial_session_def Let_def)

lemma draft_recovery_witness:
  "\<exists>t st'. startSession sample_env sample_draft_env (js ''a'') (js ''p'') None []
     (initial_session, snd (setAst sample_draft_env sample_doc sample_world)) = (RestoreFresh, t, st') \<and>
     sessionAst t = Some sample_doc"
proof -
  obtain r t st' where "startSession sample_env sample_draft_env (js ''a'') (js ''p'') None []
     (initial_session, snd (setAst sample_draft_env sample_doc sample_world)) = (r, t, st')" by (metis prod_cases3)
  with draft_recovery [OF sample_reachable [unfolded sample_world_eq] _ _ _ _ sample_able, of "js ''a''" "js ''p''" "[]"
      initial_session r t st'] show ?thesis
    by (simp add: sample_world_eq initial_session_def)
qed

lemma stale_draft_conflict_witness:
  "\<exists>t st'. startSession sample_env sample_draft_env (js ''a'') (js ''p'') (Some (js ''r'')) []
     (initial_session, snd (setAst sample_draft_env sample_doc sample_world)) = (RestoreStale, t, st') \<and>
     conflict t = Some \<lparr>conflict_base = None, conflict_current = Some (js ''r''), conflict_server = []\<rparr>"
proof -
  obtain r t st' where "startSession sample_env sample_draft_env (js ''a'') (js ''p'') (Some (js ''r'')) []
     (initial_session, snd (setAst sample_draft_env sample_doc sample_world)) = (r, t, st')" by (metis prod_cases3)
  with stale_draft_conflict [OF sample_reachable [unfolded sample_world_eq] _ _ _ _ sample_able,
      of "js ''a''" "js ''p''" "Some (js ''r'')" "[]" initial_session r t st'] show ?thesis
    by (simp add: sample_world_eq initial_session_def no_revision_def)
qed

lemma rebase_keeps_work_witness:
  "\<exists>t st'. rebaseToLatest sample_draft_env (recordConflict (Some (js ''r'')) [] (fst (setAst sample_draft_env sample_doc
       sample_world)), empty_storage) = (t, st') \<and> sessionAst t = Some sample_doc \<and> baseRevisionId t = Some (js ''r'')"
proof -
  let ?s = "recordConflict (Some (js ''r'')) [] (fst (setAst sample_draft_env sample_doc sample_world))"
  obtain t st' where "rebaseToLatest sample_draft_env (?s, empty_storage) = (t, st')" by fastforce
  with rebase_keeps_work [OF _ _ _ _ _ _ sample_able this] show ?thesis
    by (simp add: sample_world_eq initial_session_def setAst_def recordConflict_def)
qed

end
