(* ===== verification/PagePatch.thy ===== *)
theory PagePatch
  imports SchemaType "HOL-Library.Multiset"
begin

text \<open>
  \<open>lib/governance-page-patch.ts\<close>: the operations of a change proposal applied to a page in the
  browser. An operation is an untyped object, so it is a \<open>jsval\<close>.

  The source edits the blocks of a cloned document in place. A place in the tree is the list of
  indices that leads to it; the container and index that \<open>findBlock\<close> returns are the front and the
  last element of such a path. Every exception is a value of \<open>patch_error\<close>.
\<close>

datatype patch_error =
    MissingBlockId
  | BlockMissing jstr
  | ParentInvalid
  | ParentMissing jstr
  | ParentNoChildren jstr
  | NoInlineContent jstr
  | NodeIdInvalid
  | IndexInvalid
  | IndexRange
  | FieldMissing string
  | FieldInvalid string
  | NodeTypeMismatch string string
  | UnsupportedOperation jstr
  | SchemaError

section \<open>Reading the operation\<close>

text \<open>\<open>v?.k\<close> on a parsed value: undefined wherever there is no such property.\<close>

definition field_of :: "jsval \<Rightarrow> string \<Rightarrow> jsval" where
  "field_of v k = (case v of JObj fs \<Rightarrow> getp fs (js k) | _ \<Rightarrow> JUndef)"

definition nullish :: "jsval \<Rightarrow> bool" where
  "nullish v \<longleftrightarrow> v = JUndef \<or> v = JNull"

definition payloadField :: "jsval \<Rightarrow> string \<Rightarrow> string \<Rightarrow> jsval" where
  "payloadField payload wire client =
     (if nullish (field_of payload wire) then field_of payload client else field_of payload wire)"

definition requiredString :: "jsval \<Rightarrow> string \<Rightarrow> patch_error + jstr" where
  "requiredString v name = (case v of JStr s \<Rightarrow> if s = [] then Inl (FieldMissing name) else Inr s | _ \<Rightarrow> Inl (FieldMissing name))"

definition optionalString :: "jsval \<Rightarrow> string \<Rightarrow> patch_error + jstr option" where
  "optionalString v name =
     (if nullish v then Inr None else case v of JStr s \<Rightarrow> Inr (Some s) | _ \<Rightarrow> Inl (FieldInvalid name))"

definition integerIndex :: "jsval \<Rightarrow> nat \<Rightarrow> bool \<Rightarrow> patch_error + nat" where
  "integerIndex v len allowEnd =
     (case v of
        JNum n \<Rightarrow> (case num_int n of
            None \<Rightarrow> Inl IndexInvalid
          | Some i \<Rightarrow> if i < 0 \<or> i > (if allowEnd then int len else int len - 1) then Inl IndexRange else Inr (nat i))
      | _ \<Rightarrow> Inl IndexInvalid)"

text \<open>
  \<open>/^(0|[1-9]\d*)$/\<close> and \<open>Number(value)\<close>, which is infinite from \<open>2^1024 - 2^970\<close> on and
  otherwise rounds to a number that is in range exactly when the digits are.
\<close>

definition canonical_index :: "jstr \<Rightarrow> bool" where
  "canonical_index s \<longleftrightarrow> s \<noteq> [] \<and> list_all is_digit s \<and> (hd s = 48 \<longrightarrow> s = [48])"

definition nodeIndex :: "jsval \<Rightarrow> nat \<Rightarrow> patch_error + nat" where
  "nodeIndex v len =
     (case v of
        JStr s \<Rightarrow>
          if \<not> canonical_index s then Inl NodeIdInvalid
          else if str_val s \<ge> 2 ^ 1024 - 2 ^ 970 then Inl IndexInvalid
          else if str_val s < len then Inr (str_val s) else Inl IndexRange
      | _ \<Rightarrow> Inl NodeIdInvalid)"

text \<open>\<open>String(v)\<close>\<close>

fun op_String :: "jsval \<Rightarrow> jstr" where
  "op_String JUndef = js ''undefined''"
| "op_String JNull = js ''null''"
| "op_String (JBool b) = (if b then js ''true'' else js ''false'')"
| "op_String (JNum n) = num_str n"
| "op_String (JStr s) = s"
| "op_String (JArr vs) = join (js '','') (map (\<lambda>v. if nullish v then [] else op_String v) vs)"
| "op_String (JObj fs) = js ''[object Object]''"
| "op_String (JOther t) = js ''[object '' @ js t @ js '']''"

section \<open>Places in the tree\<close>

text \<open>\<open>"children" in block && Array.isArray(block.children)\<close>\<close>

fun has_children :: "block \<Rightarrow> bool" where
  "has_children (Heading _ _ _ _ k) \<longleftrightarrow> k \<noteq> None"
| "has_children (Todo _ _ _ k) \<longleftrightarrow> k \<noteq> None"
| "has_children (Toggle _ _ k) \<longleftrightarrow> k \<noteq> None"
| "has_children (BulletList _ _) \<longleftrightarrow> True"
| "has_children (OrderedList _ _) \<longleftrightarrow> True"
| "has_children (ListItem _ _) \<longleftrightarrow> True"
| "has_children (Table _ _ _ _ _) \<longleftrightarrow> True"
| "has_children (TableRow _ _) \<longleftrightarrow> True"
| "has_children (TableCell _ _) \<longleftrightarrow> True"
| "has_children (ColumnList _ _) \<longleftrightarrow> True"
| "has_children (Column _ _ _) \<longleftrightarrow> True"
| "has_children (Quote _ _) \<longleftrightarrow> True"
| "has_children (Callout _ _ _ _ _) \<longleftrightarrow> True"
| "has_children _ \<longleftrightarrow> False"

fun set_children :: "block list \<Rightarrow> block \<Rightarrow> block" where
  "set_children bs (Heading i l t c k) = Heading i l t c (Some bs)"
| "set_children bs (Todo i d c k) = Todo i d c (Some bs)"
| "set_children bs (Toggle i c k) = Toggle i c (Some bs)"
| "set_children bs (BulletList i k) = BulletList i bs"
| "set_children bs (OrderedList i k) = OrderedList i bs"
| "set_children bs (ListItem i k) = ListItem i bs"
| "set_children bs (Table i c h r k) = Table i c h r bs"
| "set_children bs (TableRow i k) = TableRow i bs"
| "set_children bs (TableCell i k) = TableCell i bs"
| "set_children bs (ColumnList i k) = ColumnList i bs"
| "set_children bs (Column i w k) = Column i w bs"
| "set_children bs (Quote i k) = Quote i bs"
| "set_children bs (Callout i kd ic co k) = Callout i kd ic co bs"
| "set_children bs b = b"

text \<open>The first block with an id, in document order.\<close>

function findBlock :: "jstr \<Rightarrow> nat \<Rightarrow> block list \<Rightarrow> nat list option" where
  "findBlock i n [] = None"
| "findBlock i n (b # bs) =
     (if block_id b = i then Some [n]
      else case findBlock i 0 (block_children b) of
        Some p \<Rightarrow> Some (n # p)
      | None \<Rightarrow> findBlock i (n + 1) bs)"
  by pat_completeness auto
termination
proof (relation "measure (\<lambda>(i, n, bs). size_list size bs)")
  have "size_list size k \<le> size b" if "k = block_children b" for k b
    using that by (cases b) (auto split: option.splits)
  then show "((i, 0, block_children b), i, n, b # bs) \<in> measure (\<lambda>(i, n, bs). size_list size bs)" for i n b bs
    by (simp add: le_imp_less_Suc trans_le_add1)
qed auto

fun block_at :: "nat list \<Rightarrow> block list \<Rightarrow> block option" where
  "block_at [] bs = None"
| "block_at (n # p) bs =
     (if n < length bs then (if p = [] then Some (bs ! n) else block_at p (block_children (bs ! n))) else None)"

text \<open>The children of the container at a path, the document itself at the empty path.\<close>

fun children_at :: "nat list \<Rightarrow> block list \<Rightarrow> block list" where
  "children_at [] bs = bs"
| "children_at (n # p) bs = (if n < length bs then children_at p (block_children (bs ! n)) else [])"

fun edit_children :: "nat list \<Rightarrow> (block list \<Rightarrow> block list) \<Rightarrow> block list \<Rightarrow> block list" where
  "edit_children [] f bs = f bs"
| "edit_children (n # p) f bs = bs[n := set_children (edit_children p f (block_children (bs ! n))) (bs ! n)]"

definition js_splice :: "nat \<Rightarrow> nat \<Rightarrow> 'a list \<Rightarrow> 'a list \<Rightarrow> 'a list" where
  "js_splice i n new xs = take i xs @ new @ drop (i + n) xs"

definition requireBlock :: "jsval \<Rightarrow> document \<Rightarrow> patch_error + nat list" where
  "requireBlock v d =
     (case v of JStr i \<Rightarrow> of_option (BlockMissing i) (findBlock i 0 d) | _ \<Rightarrow> Inl MissingBlockId)"

definition findContainer :: "jsval \<Rightarrow> document \<Rightarrow> patch_error + nat list" where
  "findContainer v d =
     (if nullish v \<or> v = JStr [] then Inr []
      else case v of
        JStr i \<Rightarrow> bindE (of_option (ParentMissing i) (findBlock i 0 d))
          (\<lambda>p. case block_at p d of
             Some b \<Rightarrow> if has_children b then Inr p else Inl (ParentNoChildren i)
           | None \<Rightarrow> Inl (ParentNoChildren i))
      | _ \<Rightarrow> Inl ParentInvalid)"

definition parseBlock :: "zenv \<Rightarrow> jsval \<Rightarrow> patch_error + block" where
  "parseBlock z v =
     (case parseDocument z (JObj [(js ''type'', JStr (js ''document'')), (js ''schema_version'', encode_int 1),
         (js ''children'', JArr [v])]) of
        Some (b # _) \<Rightarrow> Inr b | _ \<Rightarrow> Inl SchemaError)"

section \<open>Inline content\<close>

fun inline_content :: "block \<Rightarrow> inline list option" where
  "inline_content (Heading i l t c k) = Some c"
| "inline_content (Paragraph i c) = Some c"
| "inline_content (Todo i d c k) = Some c"
| "inline_content (Toggle i c k) = Some c"
| "inline_content _ = None"

fun set_content :: "inline list \<Rightarrow> block \<Rightarrow> block" where
  "set_content c (Heading i l t _ k) = Heading i l t c k"
| "set_content c (Paragraph i _) = Paragraph i c"
| "set_content c (Todo i d _ k) = Todo i d c k"
| "set_content c (Toggle i _ k) = Toggle i c k"
| "set_content c b = b"

definition requireInlineContent :: "jsval \<Rightarrow> document \<Rightarrow> patch_error + nat list \<times> inline list" where
  "requireInlineContent v d =
     bindE (requireBlock v d) (\<lambda>p. case block_at p d of
       Some b \<Rightarrow> (case inline_content b of Some c \<Rightarrow> Inr (p, c) | None \<Rightarrow> Inl (NoInlineContent (block_id b)))
     | None \<Rightarrow> Inl (NoInlineContent []))"

definition edit_block :: "nat list \<Rightarrow> (block \<Rightarrow> block) \<Rightarrow> document \<Rightarrow> document" where
  "edit_block p f d = edit_children (butlast p) (\<lambda>bs. bs[last p := f (bs ! last p)]) d"

fun inline_type :: "inline \<Rightarrow> string" where
  "inline_type (Text _ _ _ _) = ''text''"
| "inline_type (InlineCode _) = ''inline_code''"
| "inline_type (PageReference _ _ _) = ''page_reference''"
| "inline_type (UnresolvedReference _ _ _) = ''page_reference''"
| "inline_type (PageAnchorReference _ _ _) = ''page_anchor_reference''"
| "inline_type (ExternalLink _ _) = ''external_link''"
| "inline_type (EntityReference _ _) = ''entity_reference''"
| "inline_type (ClaimReference _ _) = ''claim_reference''"
| "inline_type (CitationReference _ _) = ''citation_reference''"
| "inline_type (Math _) = ''math''"
| "inline_type (Mention _ _) = ''mention''"
| "inline_type (DateMention _ _ _) = ''date_mention''"

text \<open>An empty string is false.\<close>

definition truthy_str :: "jstr option \<Rightarrow> jstr option" where
  "truthy_str s = (case s of Some (c # t) \<Rightarrow> Some (c # t) | _ \<Rightarrow> None)"

definition text_or_empty :: "jstr option \<Rightarrow> jstr" where
  "text_or_empty s = (case s of None \<Rightarrow> [] | Some t \<Rightarrow> t)"

definition page_ref :: "string \<Rightarrow> jsval \<Rightarrow> jstr option \<Rightarrow> patch_error + inline" where
  "page_ref oper payload display =
     bindE (optionalString (payloadField payload ''target_page_id'' ''targetPageId'') ''target_page_id'') (\<lambda>target.
       case truthy_str target of
         Some p \<Rightarrow>
           bindE (optionalString (payloadField payload ''target_heading_block_id'' ''targetHeadingBlockId'')
               ''target_heading_block_id'')
             (\<lambda>h. Inr (PageReference p (truthy_str h) (text_or_empty display)))
       | None \<Rightarrow>
           if oper = ''retarget_page_reference'' then Inl (FieldMissing ''target_page_id'')
           else bindE (requiredString (payloadField payload ''target_namespace'' ''targetNamespace'') ''target_namespace'') (\<lambda>ns.
             bindE (requiredString (payloadField payload ''normalized_title'' ''normalizedTitle'') ''normalized_title'') (\<lambda>t.
               bindE (optionalString (payloadField payload ''expected_entity_type'' ''expectedEntityType'') ''expected_entity_type'')
                 (\<lambda>e. Inr (UnresolvedReference ns t (truthy_str e))))))"

definition buildReference :: "string \<Rightarrow> jsval \<Rightarrow> jsval \<Rightarrow> patch_error + inline" where
  "buildReference oper target payload =
     bindE (optionalString (payloadField payload ''display_text'' ''displayText'') ''display_text'') (\<lambda>display.
       if oper \<in> {''insert_page_reference'', ''retarget_page_reference''} then page_ref oper payload display
       else if oper \<in> {''insert_entity_reference'', ''retarget_entity_reference''} then
         bindE (requiredString (field_of target ''entityId'') ''entity_id'')
           (\<lambda>e. Inr (EntityReference e (text_or_empty display)))
       else if oper \<in> {''insert_claim_reference'', ''retarget_claim_reference''} then
         bindE (requiredString (field_of target ''claimId'') ''claim_id'')
           (\<lambda>c. Inr (ClaimReference c (text_or_empty display)))
       else if oper \<in> {''insert_citation_reference'', ''retarget_citation_reference''} then
         bindE (requiredString (field_of target ''citationId'') ''citation_id'')
           (\<lambda>c. Inr (CitationReference c display))
       else if oper = ''retarget_external_link'' then
         bindE (requiredString (field_of payload ''url'') ''url'')
           (\<lambda>u. Inr (ExternalLink u (text_or_empty display)))
       else Inl (UnsupportedOperation (js oper)))"

definition referenceNodeType :: "string \<Rightarrow> patch_error + string" where
  "referenceNodeType oper = of_option (UnsupportedOperation (js oper)) (map_of
     [(''retarget_page_reference'', ''page_reference''), (''retarget_entity_reference'', ''entity_reference''),
      (''retarget_claim_reference'', ''claim_reference''), (''retarget_citation_reference'', ''citation_reference''),
      (''retarget_external_link'', ''external_link'')] oper)"

section \<open>Operations\<close>

definition insert_ops :: "string list" where
  "insert_ops = [''insert_page_reference'', ''insert_entity_reference'', ''insert_claim_reference'', ''insert_citation_reference'']"

definition retarget_ops :: "string list" where
  "retarget_ops = [''retarget_page_reference'', ''retarget_entity_reference'', ''retarget_claim_reference'',
     ''retarget_citation_reference'', ''retarget_external_link'']"

definition oper_name :: "jstr \<Rightarrow> string list \<Rightarrow> string option" where
  "oper_name t names = find (\<lambda>n. js n = t) names"

definition insert_at :: "zenv \<Rightarrow> jsval \<Rightarrow> (unit \<Rightarrow> patch_error + block) \<Rightarrow> document \<Rightarrow> patch_error + document" where
  "insert_at z payload mk d =
     bindE (findContainer (payloadField payload ''parent_block_id'' ''parentBlockId'') d) (\<lambda>p.
       bindE (integerIndex (field_of payload ''index'') (length (children_at p d)) True) (\<lambda>n.
         bindE (mk ()) (\<lambda>b. Inr (edit_children p (js_splice n 0 [b]) d))))"

definition applyOperation :: "zenv \<Rightarrow> jsval \<Rightarrow> document \<Rightarrow> patch_error + document" where
  "applyOperation z oper d =
     (let t = (if nullish (field_of oper ''operationType'') then [] else op_String (field_of oper ''operationType''));
          target = field_of oper ''target''; payload = field_of oper ''payload'';
          targetBlock = field_of target ''blockId'' in
      if t = js ''replace_block'' then
        bindE (requireBlock targetBlock d) (\<lambda>p.
          bindE (parseBlock z (field_of payload ''block'')) (\<lambda>b. Inr (edit_block p (\<lambda>_. b) d)))
      else if t = js ''delete_block'' then
        bindE (requireBlock targetBlock d) (\<lambda>p. Inr (edit_children (butlast p) (js_splice (last p) 1 []) d))
      else if t = js ''insert_block'' then insert_at z payload (\<lambda>_. parseBlock z (field_of payload ''block'')) d
      else if t = js ''move_block'' then
        bindE (requireBlock targetBlock d) (\<lambda>p.
          case block_at p d of
            Some b \<Rightarrow> insert_at z payload (\<lambda>_. Inr b) (edit_children (butlast p) (js_splice (last p) 1 []) d)
          | None \<Rightarrow> Inl MissingBlockId)
      else case oper_name t insert_ops of
        Some name \<Rightarrow>
          bindE (requireInlineContent targetBlock d) (\<lambda>(p, c).
            bindE (integerIndex (field_of payload ''index'') (length c) True) (\<lambda>n.
              bindE (buildReference name target payload) (\<lambda>r. Inr (edit_block p (set_content (js_splice n 0 [r] c)) d))))
      | None \<Rightarrow> (case oper_name t retarget_ops of
          Some name \<Rightarrow>
            bindE (requireInlineContent targetBlock d) (\<lambda>(p, c).
              bindE (nodeIndex (field_of target ''nodeId'') (length c)) (\<lambda>n.
                bindE (referenceNodeType name) (\<lambda>expected.
                  if inline_type (c ! n) \<noteq> expected then Inl (NodeTypeMismatch (inline_type (c ! n)) expected)
                  else bindE (buildReference name target payload) (\<lambda>r. Inr (edit_block p (set_content (c[n := r])) d)))))
        | None \<Rightarrow> Inl (UnsupportedOperation t)))"

section \<open>Applying a proposal\<close>

record proposal_record =
  sequence_no :: int
  operation :: jsval

record merge_conflict =
  targetBlockId :: "jstr option"
  conflict_status :: jstr
  resolution :: jsval

fun conflictChoices_from :: "(jstr \<times> jsval) list \<Rightarrow> merge_conflict list \<Rightarrow> (jstr \<times> jsval) list" where
  "conflictChoices_from choices [] = choices"
| "conflictChoices_from choices (c # cs) =
     conflictChoices_from
       (case truthy_str (targetBlockId c) of
          None \<Rightarrow> choices
        | Some i \<Rightarrow>
            if conflict_status c = js ''open'' \<or> \<not> truthy (field_of (resolution c) ''choice'') then choices
            else assoc_put i (field_of (resolution c) ''choice'') choices) cs"

definition conflictChoices :: "merge_conflict list \<Rightarrow> (jstr \<times> jsval) list" where
  "conflictChoices = conflictChoices_from []"

definition skipped :: "(jstr \<times> jsval) list \<Rightarrow> jsval \<Rightarrow> bool" where
  "skipped choices oper =
     (case field_of (field_of oper ''target'') ''blockId'' of
        JStr i \<Rightarrow> i \<noteq> [] \<and> map_of choices i \<in> {Some (JStr (js ''choose_current'')), Some (JStr (js ''dismiss''))}
      | _ \<Rightarrow> False)"

fun apply_records :: "zenv \<Rightarrow> (jstr \<times> jsval) list \<Rightarrow> proposal_record list \<Rightarrow> document \<Rightarrow> patch_error + document" where
  "apply_records z choices [] d = Inr d"
| "apply_records z choices (r # rs) d =
     (if skipped choices (operation r) then apply_records z choices rs d
      else bindE (applyOperation z (operation r) d) (apply_records z choices rs))"

definition applyPageProposalOperations ::
    "zenv \<Rightarrow> document \<Rightarrow> proposal_record list \<Rightarrow> merge_conflict list \<Rightarrow> patch_error + document" where
  "applyPageProposalOperations z d records conflicts =
     bindE (apply_records z (conflictChoices conflicts) (sort_key sequence_no records) d)
       (\<lambda>d'. of_option SchemaError (parseDocument z (encode_document d')))"

section \<open>Paths\<close>

definition all_ids :: "block list \<Rightarrow> jstr multiset" where
  "all_ids bs = mset (map block_id (all_blocks bs))"

lemma all_ids_simps [simp]:
  "all_ids [] = {#}"
  "all_ids (b # bs) = add_mset (block_id b) (all_ids (block_children b)) + all_ids bs"
  "all_ids (xs @ ys) = all_ids xs + all_ids ys"
  by (simp_all add: all_ids_def all_blocks_def preorder.simps [of b] map_concat comp_def)

lemma block_id_set_children [simp]: "block_id (set_children k b) = block_id b"
  by (cases b) simp_all

lemma children_set_children [simp]: "has_children b \<Longrightarrow> block_children (set_children k b) = k"
  by (cases b) simp_all

lemma has_children_children: "block_children b \<noteq> [] \<Longrightarrow> has_children b"
  by (cases b) (auto split: option.splits)

fun container_path :: "nat list \<Rightarrow> block list \<Rightarrow> bool" where
  "container_path [] bs \<longleftrightarrow> True"
| "container_path (n # p) bs \<longleftrightarrow> n < length bs \<and> has_children (bs ! n) \<and> container_path p (block_children (bs ! n))"

lemma block_at_place:
  "block_at p bs = Some b \<Longrightarrow> container_path (butlast p) bs \<and> last p < length (children_at (butlast p) bs) \<and>
     children_at (butlast p) bs ! last p = b"
proof (induction p bs rule: block_at.induct)
  case (2 n p bs)
  show ?case
  proof (cases "p = []")
    case False
    with 2 have n: "n < length bs" and at: "block_at p (block_children (bs ! n)) = Some b"
      by (auto split: if_splits)
    have "block_children (bs ! n) \<noteq> []" using at False by (cases p) auto
    with 2(1) [OF n False at] n False show ?thesis by (simp add: has_children_children)
  qed (use 2 in \<open>auto split: if_splits\<close>)
qed simp

lemma block_at_container: "block_at p bs = Some b \<Longrightarrow> has_children b \<Longrightarrow> container_path p bs"
proof (induction p bs rule: block_at.induct)
  case (2 n p bs)
  moreover have "block_children (bs ! n) \<noteq> []" if "block_at p (block_children (bs ! n)) = Some b"
    using that by (cases p) auto
  ultimately show ?case by (auto simp: has_children_children split: if_splits)
qed simp

lemma mset_swap:
  fixes X :: "'a multiset"
  assumes "X + (I + K) = B + (I + J)" "J + C = K + F"
  shows "X + C = B + F"
proof -
  have "X + C + (I + K) = B + (I + J) + C" using assms(1) by (simp add: ac_simps)
  also have "\<dots> = B + F + (I + K)" using assms(2) by (simp add: ac_simps)
  finally show ?thesis by simp
qed

lemma all_ids_update:
  assumes "n < length bs"
  shows "all_ids (bs[n := b]) + all_ids [bs ! n] = all_ids bs + all_ids [b]"
proof -
  have "all_ids bs = all_ids (take n bs) + (all_ids [bs ! n] + all_ids (drop (Suc n) bs))"
    using arg_cong [OF id_take_nth_drop [OF assms], of all_ids] by simp
  then show ?thesis by (simp add: upd_conv_take_nth_drop [OF assms] ac_simps)
qed

lemma all_ids_edit:
  "container_path p bs \<Longrightarrow>
   all_ids (edit_children p f bs) + all_ids (children_at p bs) = all_ids bs + all_ids (f (children_at p bs))"
proof (induction p bs rule: container_path.induct)
  case (2 n p bs)
  let ?b = "bs ! n"
  let ?k = "edit_children p f (block_children ?b)"
  have n: "n < length bs" and hc: "has_children ?b" and cp: "container_path p (block_children ?b)"
    using 2(2) by auto
  have "all_ids (bs[n := set_children ?k ?b]) + ({#block_id ?b#} + all_ids (block_children ?b)) =
      all_ids bs + ({#block_id ?b#} + all_ids ?k)"
    using all_ids_update [OF n, of "set_children ?k ?b"] hc by simp
  from mset_swap [OF this 2(1) [OF cp]] n show ?case by simp
qed simp

lemma all_ids_splice:
  assumes "n \<le> length xs" "k \<le> length xs - n"
  shows "all_ids (js_splice n k ys xs) + all_ids (take k (drop n xs)) = all_ids xs + all_ids ys"
proof -
  have "xs = take n xs @ take k (drop n xs) @ drop (n + k) xs"
    by (metis append_take_drop_id drop_drop add.commute)
  then have "all_ids xs = all_ids (take n xs) + all_ids (take k (drop n xs)) + all_ids (drop (n + k) xs)"
    by (metis all_ids_simps(3) union_assoc)
  then show ?thesis by (simp add: js_splice_def ac_simps)
qed

lemma findBlock_None: "findBlock i n bs = None \<longleftrightarrow> i \<notin># all_ids bs"
  by (induction i n bs rule: findBlock.induct) (auto split: option.splits)

lemma findBlock_at:
  "findBlock i n bs = Some p \<Longrightarrow> \<exists>m q b. p = (n + m) # q \<and> block_at (m # q) bs = Some b \<and> block_id b = i"
proof (induction i n bs arbitrary: p rule: findBlock.induct)
  case (2 i n b bs)
  show ?case
  proof (cases "block_id b = i")
    case True
    with 2(3) show ?thesis by (intro exI [of _ 0]) auto
  next
    case False
    show ?thesis
    proof (cases "findBlock i 0 (block_children b)")
      case (Some q)
      from 2(1) [OF False Some] obtain m r c where "q = m # r" "block_at (m # r) (block_children b) = Some c" "block_id c = i"
        by auto
      with 2(3) False Some have "p = (n + 0) # (m # r)" "block_at (0 # m # r) (b # bs) = Some c" "block_id c = i" by simp_all
      then show ?thesis by blast
    next
      case None
      with 2(3) False have "findBlock i (n + 1) bs = Some p" by simp
      from 2(2) [OF False None this] obtain m q c where "p = (n + 1 + m) # q" "block_at (m # q) bs = Some c" "block_id c = i"
        by blast
      then have "p = (n + Suc m) # q" "block_at (Suc m # q) (b # bs) = Some c" "block_id c = i"
        by (simp_all split: if_splits)
      then show ?thesis by blast
    qed
  qed
qed simp

lemma findBlock_Some: "findBlock i 0 d = Some p \<Longrightarrow> \<exists>b. block_at p d = Some b \<and> block_id b = i"
  using findBlock_at [of i 0 d p] by auto

section \<open>What the tree operations do to the blocks\<close>

lemma requireBlock_Inr:
  "requireBlock v d = Inr p \<Longrightarrow> \<exists>i b. v = JStr i \<and> findBlock i 0 d = Some p \<and> block_at p d = Some b \<and> block_id b = i"
  by (auto simp: requireBlock_def res_simps dest: findBlock_Some split: jsval.splits)

lemma findContainer_Inr: "findContainer v d = Inr p \<Longrightarrow> container_path p d"
  by (auto simp: findContainer_def res_simps block_at_container split: if_splits jsval.splits option.splits)

lemma integerIndex_Inr: "integerIndex v n True = Inr k \<Longrightarrow> k \<le> n"
  by (auto simp: integerIndex_def split: jsval.splits option.splits if_splits)

text \<open>Taking the block at a path out, putting one in, changing one in place.\<close>

lemma all_ids_remove:
  assumes "block_at p d = Some b"
  shows "all_ids (edit_children (butlast p) (js_splice (last p) 1 []) d) + all_ids [b] = all_ids d"
proof -
  note place = block_at_place [OF assms]
  let ?k = "children_at (butlast p) d"
  have "take 1 (drop (last p) ?k) = [b]"
    using place by (simp add: take_Suc hd_drop_conv_nth)
  then have "all_ids [b] + all_ids (js_splice (last p) 1 [] ?k) = all_ids ?k"
    using all_ids_splice [of "last p" ?k 1 "[]"] place by (simp add: ac_simps Suc_le_eq)
  moreover have "all_ids (edit_children (butlast p) (js_splice (last p) 1 []) d) + all_ids ?k =
      all_ids d + all_ids (js_splice (last p) 1 [] ?k)"
    using all_ids_edit place by blast
  ultimately have "all_ids (edit_children (butlast p) (js_splice (last p) 1 []) d) + all_ids [b] +
      all_ids (js_splice (last p) 1 [] ?k) = all_ids d + all_ids (js_splice (last p) 1 [] ?k)"
    by (metis union_assoc)
  then show ?thesis by (rule add_right_imp_eq)
qed

lemma insert_at_ids:
  assumes "insert_at z payload mk d = Inr d'"
  shows "\<exists>b. mk () = Inr b \<and> all_ids d' = all_ids d + all_ids [b]"
proof -
  from assms obtain p n b where "container_path p d" "n \<le> length (children_at p d)" and b: "mk () = Inr b"
    and d': "d' = edit_children p (js_splice n 0 [b]) d"
    by (auto simp: insert_at_def res_simps dest: findContainer_Inr integerIndex_Inr)
  then have "all_ids (js_splice n 0 [b] (children_at p d)) = all_ids (children_at p d) + all_ids [b]"
    using all_ids_splice [of n "children_at p d" 0 "[b]"] by simp
  with all_ids_edit [OF \<open>container_path p d\<close>, of "js_splice n 0 [b]"] b d' show ?thesis
    by (simp add: ac_simps)
qed

lemma edit_block_ids:
  assumes "block_at p d = Some b" "block_id (f b) = block_id b" "block_children (f b) = block_children b"
  shows "all_ids (edit_block p f d) = all_ids d"
proof -
  note place = block_at_place [OF assms(1)]
  let ?k = "children_at (butlast p) d"
  have "all_ids (?k[last p := f (?k ! last p)]) = all_ids ?k"
    using all_ids_update [of "last p" ?k "f b"] place assms(2,3) by simp
  with all_ids_edit [of "butlast p" d "\<lambda>bs. bs[last p := f (bs ! last p)]"] place show ?thesis
    by (simp add: edit_block_def)
qed

lemma set_content_keeps [simp]: "block_id (set_content c b) = block_id b" "block_children (set_content c b) = block_children b"
  by (cases b; simp)+

lemma requireInlineContent_Inr: "requireInlineContent v d = Inr (p, c) \<Longrightarrow> \<exists>b. block_at p d = Some b"
  by (auto simp: requireInlineContent_def res_simps split: option.splits)

text \<open>\<open>oper_type\<close> is the operation's type, as \<open>applyOperation\<close> reads it.\<close>

definition oper_type :: "jsval \<Rightarrow> jstr" where
  "oper_type oper = (if nullish (field_of oper ''operationType'') then [] else op_String (field_of oper ''operationType''))"

lemma remove_then_insert:
  "block_at p d = Some b \<Longrightarrow> insert_at z payload (\<lambda>_. Inr b) (edit_children (butlast p) (js_splice (last p) 1 []) d) = Inr d' \<Longrightarrow>
   all_ids d' = all_ids d"
  using insert_at_ids [of z payload "\<lambda>_. Inr b"] all_ids_remove [of p d b] by fastforce

lemma oper_branches:
  assumes "applyOperation z oper d = Inr d'"
  obtains p b where "oper_type oper = js ''replace_block''" "block_at p d = Some b"
  | p b where "oper_type oper = js ''delete_block''" "block_at p d = Some b"
      "field_of (field_of oper ''target'') ''blockId'' = JStr (block_id b)" "all_ids d' + all_ids [b] = all_ids d"
  | b where "oper_type oper = js ''insert_block''" "parseBlock z (field_of (field_of oper ''payload'') ''block'') = Inr b"
      "all_ids d' = all_ids d + all_ids [b]"
  | "oper_type oper = js ''move_block''" "all_ids d' = all_ids d"
  | "oper_type oper \<in> js ` set (insert_ops @ retarget_ops)" "all_ids d' = all_ids d"
proof -
  let ?t = "oper_type oper" and ?target = "field_of (field_of oper ''target'') ''blockId''"
  consider "?t = js ''replace_block''" | "?t = js ''delete_block''" | "?t = js ''insert_block''" | "?t = js ''move_block''"
    | "?t \<notin> js ` {''replace_block'', ''delete_block'', ''insert_block'', ''move_block''}" by auto
  then show thesis
  proof cases
    case 1
    with assms that(1) show thesis
      by (auto simp: applyOperation_def oper_type_def [symmetric] Let_def res_simps dest!: requireBlock_Inr)
  next
    case 2
    with assms obtain p b where "block_at p d = Some b" "?target = JStr (block_id b)"
      "d' = edit_children (butlast p) (js_splice (last p) 1 []) d"
      by (auto simp: applyOperation_def oper_type_def [symmetric] Let_def res_simps dest!: requireBlock_Inr)
    with 2 that(2) all_ids_remove show thesis by blast
  next
    case 3
    with assms have "insert_at z (field_of oper ''payload'') (\<lambda>_. parseBlock z (field_of (field_of oper ''payload'') ''block'')) d = Inr d'"
      by (simp add: applyOperation_def oper_type_def [symmetric] Let_def)
    from insert_at_ids [OF this] 3 that(3) show thesis by blast
  next
    case 4
    with assms obtain p b where "block_at p d = Some b"
      "insert_at z (field_of oper ''payload'') (\<lambda>_. Inr b) (edit_children (butlast p) (js_splice (last p) 1 []) d) = Inr d'"
      by (auto simp: applyOperation_def oper_type_def [symmetric] Let_def res_simps dest!: requireBlock_Inr)
    with 4 that(4) remove_then_insert show thesis by blast
  next
    case 5
    have named: "?t \<in> js ` set names" if "oper_name ?t names = Some name" for names name
      using that unfolding oper_name_def find_Some_iff by (metis imageI nth_mem)
    from 5 assms have "\<exists>p b c names name. block_at p d = Some b \<and> d' = edit_block p (set_content c) d \<and>
        oper_name ?t names = Some name \<and> names \<in> {insert_ops, retarget_ops}"
      by (simp add: applyOperation_def oper_type_def [symmetric] Let_def split: option.splits if_splits)
        (fastforce simp: res_simps split: if_splits dest!: requireInlineContent_Inr)+
    then obtain p b c names name where "block_at p d = Some b" "d' = edit_block p (set_content c) d"
      and name: "oper_name ?t names = Some name" "names \<in> {insert_ops, retarget_ops}" by blast
    then have "all_ids d' = all_ids d" by (simp add: edit_block_ids)
    with that(5) named [OF name(1)] name(2) show thesis by auto
  qed
qed

section \<open>The first block with an id\<close>

text \<open>
  What deleting, replacing and inserting mean on the tree, without paths: the first block with an id is
  replaced by a list of blocks where it stands, and all else stays.
\<close>

function replace_first :: "jstr \<Rightarrow> (block \<Rightarrow> block list) \<Rightarrow> block list \<Rightarrow> block list option" where
  "replace_first i f [] = None"
| "replace_first i f (b # bs) =
     (if block_id b = i then Some (f b @ bs)
      else case replace_first i f (block_children b) of
        Some k \<Rightarrow> Some (set_children k b # bs)
      | None \<Rightarrow> map_option (Cons b) (replace_first i f bs))"
  by pat_completeness auto
termination
proof (relation "measure (\<lambda>(i, f, bs). size_list size bs)")
  have "size_list size (block_children b) \<le> size b" for b
    by (cases b) (auto split: option.splits)
  then show "((i, f, block_children b), i, f, b # bs) \<in> measure (\<lambda>(i, f, bs). size_list size bs)" for i f b bs
    by (simp add: le_imp_less_Suc trans_le_add1)
qed auto

definition put_at :: "nat list \<Rightarrow> (block \<Rightarrow> block list) \<Rightarrow> block list \<Rightarrow> block list" where
  "put_at p f = edit_children (butlast p) (\<lambda>k. take (last p) k @ f (k ! last p) @ drop (Suc (last p)) k)"

lemma put_at_one [simp]: "put_at [n] f bs = take n bs @ f (bs ! n) @ drop (Suc n) bs"
  by (simp add: put_at_def)

lemma put_at_more: "q \<noteq> [] \<Longrightarrow> put_at (n # q) f bs = bs[n := set_children (put_at q f (block_children (bs ! n))) (bs ! n)]"
  by (simp add: put_at_def)

lemma replace_first_None: "replace_first i f bs = None \<longleftrightarrow> i \<notin># all_ids bs"
  by (induction i f bs rule: replace_first.induct) (auto split: option.splits)

lemma replace_first_Some:
  "findBlock i n bs = Some p \<Longrightarrow> \<exists>m q. p = (n + m) # q \<and> replace_first i f bs = Some (put_at (m # q) f bs)"
proof (induction i n bs arbitrary: p rule: findBlock.induct)
  case (2 i n b bs)
  show ?case
  proof (cases "block_id b = i")
    case True
    with 2(3) show ?thesis by (intro exI [of _ 0]) auto
  next
    case False
    show ?thesis
    proof (cases "findBlock i 0 (block_children b)")
      case (Some r)
      from 2(1) [OF False Some] obtain m q where "r = (0 + m) # q"
        "replace_first i f (block_children b) = Some (put_at (m # q) f (block_children b))" by blast
      with 2(3) False Some show ?thesis by (intro exI [of _ 0]) (auto simp: put_at_more)
    next
      case None
      with 2(3) False have "findBlock i (n + 1) bs = Some p" by simp
      from 2(2) [OF False None this] obtain m q where "p = (n + 1 + m) # q" "replace_first i f bs = Some (put_at (m # q) f bs)"
        by blast
      moreover have "put_at (Suc m # q) f (b # bs) = b # put_at (m # q) f bs"
        by (cases "q = []") (simp_all add: put_at_more)
      moreover have "replace_first i f (block_children b) = None" using None by (simp add: replace_first_None findBlock_None)
      ultimately show ?thesis using False by (intro exI [of _ "Suc m"]) simp
    qed
  qed
qed simp

lemma findBlock_put:
  assumes "findBlock i 0 d = Some p"
  shows "replace_first i f d = Some (put_at p f d)"
  using replace_first_Some [OF assms, of f] by auto

lemma delete_put: "edit_children (butlast p) (js_splice (last p) 1 []) = put_at p (\<lambda>_. [])"
  by (rule ext) (simp add: put_at_def js_splice_def [abs_def])

lemma edit_block_put:
  "block_at p d = Some b \<Longrightarrow> edit_block p f d = put_at p (\<lambda>c. [f c]) d"
proof (induction p d rule: block_at.induct)
  case (2 n p bs)
  then show ?case
    by (cases "p = []") (auto simp: edit_block_def put_at_more upd_conv_take_nth_drop split: if_splits)
qed simp

lemma edit_children_put:
  "block_at p d = Some b \<Longrightarrow> edit_children p g d = put_at p (\<lambda>c. [set_children (g (block_children c)) c]) d"
proof (induction p d rule: block_at.induct)
  case (2 n p bs)
  then show ?case
    by (cases "p = []") (auto simp: put_at_more upd_conv_take_nth_drop split: if_splits)
qed simp

section \<open>Properties\<close>

lemma apply_records_filter:
  "apply_records z choices rs d = apply_records z [] (filter (\<lambda>r. \<not> skipped choices (operation r)) rs) d"
proof (induction rs arbitrary: d)
  case (Cons r rs)
  have "\<not> skipped [] v" for v by (simp add: skipped_def split: jsval.splits)
  moreover have "apply_records z choices rs = apply_records z [] (filter (\<lambda>r. \<not> skipped choices (operation r)) rs)"
    using Cons.IH by (rule ext)
  ultimately show ?case by simp
qed simp

lemma conflictChoices_Nil [simp]: "conflictChoices [] = []"
  by (simp add: conflictChoices_def)

text \<open>C7: whatever a proposal does, the result is a document that satisfies every constraint of the schema,
  or the application fails.\<close>

theorem patch_result_valid:
  assumes "url_pure z" "applyPageProposalOperations z d records conflicts = Inr d'"
  shows "valid_document z d'"
  using assms(2) by (auto simp: applyPageProposalOperations_def res_simps intro: document_gives [OF assms(1)])

text \<open>
  What the reviewer decided on a block: the last of its conflicts that is not open and has a choice.
\<close>

definition decisive :: "jstr \<Rightarrow> merge_conflict \<Rightarrow> bool" where
  "decisive i c \<longleftrightarrow> targetBlockId c = Some i \<and> conflict_status c \<noteq> js ''open'' \<and> truthy (field_of (resolution c) ''choice'')"

definition declined :: "merge_conflict list \<Rightarrow> jsval \<Rightarrow> bool" where
  "declined conflicts v \<longleftrightarrow> (case v of
     JStr (u # us) \<Rightarrow> (case rev (filter (decisive (u # us)) conflicts) of
         [] \<Rightarrow> False
       | c # cs \<Rightarrow> field_of (resolution c) ''choice'' = JStr (js ''choose_current'') \<or>
           field_of (resolution c) ''choice'' = JStr (js ''dismiss''))
   | _ \<Rightarrow> False)"

lemma conflictChoices_last:
  assumes "i \<noteq> []"
  shows "map_of (conflictChoices_from m cs) i =
     (case rev (filter (decisive i) cs) of [] \<Rightarrow> map_of m i | c # _ \<Rightarrow> Some (field_of (resolution c) ''choice''))"
proof (induction cs arbitrary: m)
  case (Cons c cs)
  have step: "map_of (case truthy_str (targetBlockId c) of None \<Rightarrow> m
      | Some j \<Rightarrow> if conflict_status c = js ''open'' \<or> \<not> truthy (field_of (resolution c) ''choice'') then m
          else assoc_put j (field_of (resolution c) ''choice'') m) i =
      (if decisive i c then Some (field_of (resolution c) ''choice'') else map_of m i)"
    using assms by (auto simp: decisive_def truthy_str_def map_of_assoc_put split: option.splits list.splits)
  show ?case by (simp only: conflictChoices_from.simps Cons.IH step) (simp split: list.split)
qed simp

lemma skipped_iff: "skipped (conflictChoices conflicts) oper \<longleftrightarrow> declined conflicts (field_of (field_of oper ''target'') ''blockId'')"
  by (auto simp: skipped_def declined_def conflictChoices_def conflictChoices_last split: jsval.split list.split)

text \<open>C30: where the last settled conflict of a block has the choice to keep the current content, or to dismiss,
  the operations on that block have no effect: the result is that of the other operations alone, without
  conflicts. Open conflicts and other choices leave every operation in force.\<close>

theorem patch_respects_choices:
  "applyPageProposalOperations z d records conflicts =
   applyPageProposalOperations z d
     (filter (\<lambda>r. \<not> declined conflicts (field_of (field_of (operation r) ''target'') ''blockId'')) records) []"
  unfolding applyPageProposalOperations_def
  by (subst apply_records_filter) (simp add: filter_sort skipped_iff)

text \<open>The operations are applied in the order of their sequence numbers, in whatever order the records
  arrive.\<close>

theorem patch_arrival_order:
  assumes "mset records = mset records'" "inj_on sequence_no (set records)"
  shows "applyPageProposalOperations z d records conflicts = applyPageProposalOperations z d records' conflicts"
proof -
  have "sort_key sequence_no records = sort_key sequence_no records'"
    using assms by (intro sort_key_inj_key_eq) simp_all
  then show ?thesis by (simp add: applyPageProposalOperations_def)
qed

text \<open>C9: moving a block and inserting or retargeting a reference neither lose nor add blocks: the document
  has the same block ids, with the same multiplicity, before and after.\<close>

theorem move_keeps_blocks:
  assumes "applyOperation z oper d = Inr d'"
    and "oper_type oper \<in> js ` set (''move_block'' # insert_ops @ retarget_ops)"
  shows "all_ids d' = all_ids d"
  using assms(1)
proof (cases rule: oper_branches)
  case (1 p b)
  then show ?thesis using assms(2) by (simp add: insert_ops_def retarget_ops_def)
next
  case (2 p b)
  then show ?thesis using assms(2) by (simp add: insert_ops_def retarget_ops_def)
next
  case (3 b)
  then show ?thesis using assms(2) by (simp add: insert_ops_def retarget_ops_def)
qed

lemma delete_exact:
  assumes "oper_type oper = js ''delete_block''" "field_of (field_of oper ''target'') ''blockId'' = JStr i"
  shows "applyOperation z oper d = of_option (BlockMissing i) (replace_first i (\<lambda>_. []) d)"
proof (cases "findBlock i 0 d")
  case None
  then have "replace_first i (\<lambda>_. []) d = None" by (simp add: replace_first_None findBlock_None)
  with assms None show ?thesis
    by (simp add: applyOperation_def oper_type_def [symmetric] Let_def requireBlock_def of_option_def)
next
  case (Some p)
  with assms findBlock_put [OF Some, of "\<lambda>_. []"] delete_put [of p] show ?thesis
    by (simp add: applyOperation_def oper_type_def [symmetric] Let_def requireBlock_def of_option_def)
qed

text \<open>The container an insertion names, and the insertion on the tree.\<close>

definition insertion :: "jsval \<Rightarrow> nat \<Rightarrow> block \<Rightarrow> document \<Rightarrow> document option" where
  "insertion parent n b d = (case parent of
     JStr (c # cs) \<Rightarrow> replace_first (c # cs)
       (\<lambda>p. [set_children (take n (block_children p) @ b # drop n (block_children p)) p]) d
   | _ \<Rightarrow> Some (take n d @ b # drop n d))"

lemma insert_exact:
  assumes "insert_at z payload (\<lambda>_. mk) d = Inr d'"
  shows "\<exists>b n x. mk = Inr b \<and> field_of payload ''index'' = JNum x \<and> num_int x = Some (int n) \<and>
     insertion (payloadField payload ''parent_block_id'' ''parentBlockId'') n b d = Some d'"
proof -
  let ?v = "payloadField payload ''parent_block_id'' ''parentBlockId''"
  from assms obtain p n b where p: "findContainer ?v d = Inr p" and n: "integerIndex (field_of payload ''index'') (length (children_at p d)) True = Inr n"
    and b: "mk = Inr b" and d': "d' = edit_children p (js_splice n 0 [b]) d"
    by (auto simp: insert_at_def res_simps)
  from n obtain x where x: "field_of payload ''index'' = JNum x" "num_int x = Some (int n)"
    by (auto simp: integerIndex_def split: jsval.splits option.splits if_splits)
  have "insertion ?v n b d = Some d'"
  proof (cases "nullish ?v \<or> ?v = JStr []")
    case True
    then have "p = []" using p by (simp add: findContainer_def)
    then show ?thesis using True by (auto simp: insertion_def nullish_def d' js_splice_def)
  next
    case False
    with p obtain c cs where v: "?v = JStr (c # cs)" and f: "findBlock (c # cs) 0 d = Some p"
      by (auto simp: findContainer_def res_simps neq_Nil_conv split: jsval.splits option.splits if_splits)
    obtain q where "block_at p d = Some q" using findBlock_Some [OF f] by blast
    from edit_children_put [OF this, of "js_splice n 0 [b]"] findBlock_put [OF f] show ?thesis
      by (simp add: insertion_def v d' js_splice_def)
  qed
  with b x show ?thesis by blast
qed

text \<open>C28: deleting a block takes the first block with the id, with everything below it, out of the tree and
  leaves all else as it is, or fails when there is none; an insertion puts the parsed block, as it is, at the
  given index of the top level or of the first block with the parent's id, and leaves all else as it is.\<close>

theorem delete_insert_exact:
  "(oper_type oper = js ''delete_block'' \<and> field_of (field_of oper ''target'') ''blockId'' = JStr i \<longrightarrow>
      applyOperation z oper d = of_option (BlockMissing i) (replace_first i (\<lambda>_. []) d)) \<and>
    (oper_type oper = js ''insert_block'' \<and> applyOperation z oper d = Inr d' \<longrightarrow>
      (\<exists>b n x. parseBlock z (field_of (field_of oper ''payload'') ''block'') = Inr b \<and>
        field_of (field_of oper ''payload'') ''index'' = JNum x \<and> num_int x = Some (int n) \<and>
        insertion (payloadField (field_of oper ''payload'') ''parent_block_id'' ''parentBlockId'') n b d = Some d'))"
proof -
  have "insert_at z (field_of oper ''payload'') (\<lambda>_. parseBlock z (field_of (field_of oper ''payload'') ''block'')) d =
      applyOperation z oper d" if "oper_type oper = js ''insert_block''"
    using that by (simp add: applyOperation_def oper_type_def [symmetric] Let_def)
  then show ?thesis using delete_exact insert_exact by metis
qed

text \<open>A block cannot be moved below itself: where ids are distinct, a target inside the moved block is
  refused as a missing parent.\<close>

theorem move_below_itself_refused:
  assumes "oper_type oper = js ''move_block''" "field_of (field_of oper ''target'') ''blockId'' = JStr i"
    and "payloadField (field_of oper ''payload'') ''parent_block_id'' ''parentBlockId'' = JStr j" "j \<noteq> []"
    and "findBlock i 0 d = Some p" "block_at p d = Some b" "j \<in># all_ids [b]" "distinct (map block_id (all_blocks d))"
  shows "applyOperation z oper d = Inl (ParentMissing j)"
proof -
  let ?d = "edit_children (butlast p) (js_splice (last p) 1 []) d"
  have "count (all_ids d) j \<le> 1"
    using assms(8) by (simp add: all_ids_def distinct_count_atmost_1)
  moreover have "count (all_ids ?d) j + count (all_ids [b]) j = count (all_ids d) j"
    using arg_cong [OF all_ids_remove [OF assms(6)], of "\<lambda>M. count M j"] by (simp only: count_union)
  moreover have "count (all_ids [b]) j > 0" using assms(7) by (simp only: count_greater_zero_iff)
  ultimately have "count (all_ids ?d) j = 0" by linarith
  then have "findBlock j 0 ?d = None" by (simp add: findBlock_None count_eq_zero_iff)
  then show ?thesis
    unfolding applyOperation_def Let_def oper_type_def [symmetric] assms(1,2)
    using assms(3-6) by (simp add: requireBlock_def of_option_def insert_at_def findContainer_def nullish_def)
qed

text \<open>An operation of any other type is refused by name.\<close>

theorem other_operations_refused:
  assumes "oper_type oper \<notin> js ` set ([''replace_block'', ''delete_block'', ''insert_block'', ''move_block''] @
    insert_ops @ retarget_ops)"
  shows "applyOperation z oper d = Inl (UnsupportedOperation (oper_type oper))"
proof -
  have "oper_name (oper_type oper) names = None" if "oper_type oper \<notin> js ` set names" for names
    using that unfolding oper_name_def find_None_iff by (metis imageI)
  from this [of insert_ops] this [of retarget_ops] show ?thesis
    using assms by (simp add: applyOperation_def oper_type_def [symmetric] Let_def image_Un)
qed

section \<open>Witnesses\<close>

definition second_id :: jstr where
  "second_id = js ''01890a5d-ac96-774b-bcce-b302099a8058''"

definition sample_page_doc :: document where
  "sample_page_doc = [Quote sample_id [Divider second_id]]"

definition sample_op :: "string \<Rightarrow> jstr \<Rightarrow> fields \<Rightarrow> jsval" where
  "sample_op t target payload = JObj [(js ''operationType'', JStr (js t)),
     (js ''target'', JObj [(js ''blockId'', JStr target)]), (js ''payload'', JObj payload)]"

definition move_up :: jsval where
  "move_up = sample_op ''move_block'' second_id [(js ''index'', JNum (num_of_int 0))]"

lemma ids_differ [simp]: "sample_id \<noteq> second_id" "second_id \<noteq> sample_id"
  by (simp_all add: sample_id_def second_id_def)

lemma second_nonempty: "second_id \<noteq> []"
  by (simp add: second_id_def)

lemma oper_type_sample [simp]: "oper_type (sample_op t i fs) = js t"
  by (simp add: oper_type_def sample_op_def field_of_def nullish_def)

lemma move_up_result: "applyOperation sample_env move_up sample_page_doc = Inr [Divider second_id, Quote sample_id []]"
  unfolding applyOperation_def Let_def oper_type_def [symmetric] move_up_def oper_type_sample
  by (simp add: sample_op_def field_of_def sample_page_doc_def requireBlock_def of_option_def insert_at_def findContainer_def
      payloadField_def nullish_def integerIndex_def js_splice_def)

lemma patch_result_valid_witness: "valid_document sample_env [Divider second_id, Quote sample_id []]"
proof (rule patch_result_valid [OF sample_env_pure])
  have valid: "valid_document sample_env [Divider second_id, Quote sample_id []]"
    by (simp add: valid_document_def sample_env_def sample_id_def second_id_def)
  show "applyPageProposalOperations sample_env sample_page_doc [\<lparr>sequence_no = 1, operation = move_up\<rparr>] [] =
      Inr [Divider second_id, Quote sample_id []]"
    using document_complete [OF valid]
    by (simp add: applyPageProposalOperations_def skipped_def move_up_result of_option_def split: jsval.splits)
qed

lemma patch_arrival_order_witness:
  "applyPageProposalOperations sample_env sample_page_doc
     [\<lparr>sequence_no = 1, operation = move_up\<rparr>, \<lparr>sequence_no = 2, operation = JNull\<rparr>] [] =
   applyPageProposalOperations sample_env sample_page_doc
     [\<lparr>sequence_no = 2, operation = JNull\<rparr>, \<lparr>sequence_no = 1, operation = move_up\<rparr>] []"
  by (rule patch_arrival_order) simp_all

lemma move_keeps_blocks_witness: "all_ids [Divider second_id, Quote sample_id []] = all_ids sample_page_doc"
  by (rule move_keeps_blocks [OF move_up_result]) (simp add: move_up_def)

lemma delete_insert_exact_witness:
  "applyOperation sample_env (sample_op ''delete_block'' second_id []) sample_page_doc = Inr [Quote sample_id []]"
proof -
  let ?op = "sample_op ''delete_block'' second_id []"
  have "replace_first second_id (\<lambda>_. []) sample_page_doc = Some [Quote sample_id []]" by (simp add: sample_page_doc_def)
  moreover have "field_of (field_of ?op ''target'') ''blockId'' = JStr second_id" by (simp add: sample_op_def field_of_def)
  ultimately show ?thesis
    using delete_insert_exact [of ?op second_id sample_env sample_page_doc] by (simp add: of_option_def)
qed

lemma move_below_itself_refused_witness:
  "applyOperation sample_env (sample_op ''move_block'' sample_id [(js ''parent_block_id'', JStr second_id)]) sample_page_doc =
   Inl (ParentMissing second_id)"
  by (rule move_below_itself_refused [where i = sample_id and p = "[0]" and b = "Quote sample_id [Divider second_id]"])
    (simp_all add: sample_op_def field_of_def payloadField_def nullish_def sample_page_doc_def all_blocks_def preorder.simps
      oper_type_def second_nonempty)

lemma other_operations_refused_witness:
  "applyOperation sample_env (sample_op ''rename_block'' [] []) [] = Inl (UnsupportedOperation (js ''rename_block''))"
  using other_operations_refused [of "sample_op ''rename_block'' [] []" sample_env "[]"]
  by (simp add: insert_ops_def retarget_ops_def)

end
