(* ===== verification/ClientUuid.thy ===== *)
theory ClientUuid
  imports Serialize
begin

text \<open>
  \<open>lib/client-uuid.ts\<close>, and the readers of UUIDs in \<open>lib/collaboration/client.ts\<close> (\<open>isUUID\<close>,
  \<open>uuidBytes\<close>, \<open>equalBytes\<close>, \<open>bytesToBase64\<close>).

  A \<open>Uint8Array\<close> is a list of 8-bit words. \<open>uuid_host\<close> is what one call sees of the browser:
  \<open>crypto.randomUUID\<close> and \<open>crypto.getRandomValues\<close> where they exist, the bytes of
  \<open>Math.random\<close>, and \<open>Date.now()\<close>.
\<close>

type_synonym bytes = "8 word list"

record uuid_host =
  randomUUID :: "jstr option"
  getRandomValues :: "bytes option"
  random_bytes :: bytes
  date_now :: nat

definition set_uint32 :: "nat \<Rightarrow> 32 word \<Rightarrow> bytes \<Rightarrow> bytes" where
  "set_uint32 n w bs = bs[n := ucast (drop_bit 24 w), n + 1 := ucast (drop_bit 16 w),
     n + 2 := ucast (drop_bit 8 w), n + 3 := ucast w]"

text \<open>The bytes without Web Crypto, from the counter of the page.\<close>

definition fallback_bytes :: "uuid_host \<Rightarrow> nat \<Rightarrow> bytes" where
  "fallback_bytes h n = set_uint32 4 (of_nat n) (set_uint32 0 (of_nat (date_now h)) (take 16 (random_bytes h)))"

unbundle bit_operations_syntax

definition version4 :: "bytes \<Rightarrow> bytes" where
  "version4 bs = bs[6 := (bs ! 6 AND 0x0f) OR 0x40, 8 := (bs ! 8 AND 0x3f) OR 0x80]"

definition byte_hex :: "8 word \<Rightarrow> jstr" where
  "byte_hex b = [hex_cu (unat b div 16), hex_cu (unat b mod 16)]"

definition dashed :: "jstr \<Rightarrow> jstr" where
  "dashed hex = join (js ''-'') [slice 0 8 hex, slice 8 12 hex, slice 12 16 hex, slice 16 20 hex, drop 20 hex]"

definition clientUUID :: "uuid_host \<Rightarrow> nat \<Rightarrow> jstr \<times> nat" where
  "clientUUID h fallbackSequence =
     (case randomUUID h of
        Some u \<Rightarrow> (u, fallbackSequence)
      | None \<Rightarrow>
          let (bs, n) = (case getRandomValues h of
            Some bs \<Rightarrow> (bs, fallbackSequence)
          | None \<Rightarrow> let n = (fallbackSequence + 1) mod nat max_safe_integer in (fallback_bytes h n, n))
          in (dashed (concat (map byte_hex (version4 bs))), n))"

section \<open>Readers\<close>

definition is_hex :: "cu \<Rightarrow> bool" where
  "is_hex c \<longleftrightarrow> is_digit c \<or> 97 \<le> lower_cu c \<and> lower_cu c \<le> 102"

definition hex_val :: "cu \<Rightarrow> nat" where
  "hex_val c = (if is_digit c then unat c - 48 else unat (lower_cu c) - 87)"

text \<open>\<open>/^[0-9a-f]{8}-[0-9a-f]{4}-[1-8][0-9a-f]{3}-[89ab][0-9a-f]{3}-[0-9a-f]{12}$/i\<close>\<close>

definition isUUID :: "jstr \<Rightarrow> bool" where
  "isUUID s \<longleftrightarrow> length s = 36 \<and>
     list_all (\<lambda>i. if i \<in> {8, 13, 18, 23} then s ! i = 45 else is_hex (s ! i)) [0..<36] \<and>
     49 \<le> s ! 14 \<and> s ! 14 \<le> 56 \<and> lower_cu (s ! 19) \<in> {56, 57, 97, 98}"

fun hex_bytes :: "jstr \<Rightarrow> bytes" where
  "hex_bytes (a # b # s) = of_nat (hex_val a * 16 + hex_val b) # hex_bytes s"
| "hex_bytes _ = []"

text \<open>Nothing where the code throws.\<close>

definition uuidBytes :: "jstr \<Rightarrow> bytes option" where
  "uuidBytes s = (let hex = filter (\<lambda>c. c \<noteq> 45) s in
     if length hex = 32 \<and> list_all is_hex hex then Some (hex_bytes hex) else None)"

definition equalBytes :: "bytes \<Rightarrow> bytes \<Rightarrow> bool" where
  "equalBytes l r \<longleftrightarrow> length l = length r \<and> list_all (\<lambda>i. l ! i = r ! i) [0..<length l]"

lemma equalBytes_iff [simp]: "equalBytes l r \<longleftrightarrow> l = r"
  by (auto simp: equalBytes_def list_all_iff intro: nth_equalityI)

section \<open>Hexadecimal digits\<close>

lemma hex_cu_ok:
  assumes "d < 16"
  shows "is_hex (hex_cu d)" "hex_val (hex_cu d) = d" "hex_cu d \<noteq> 45"
proof -
  have "\<forall>d < 16. is_hex (hex_cu d) \<and> hex_val (hex_cu d) = d \<and> hex_cu d \<noteq> 45"
    by code_simp
  with assms show "is_hex (hex_cu d)" "hex_val (hex_cu d) = d" "hex_cu d \<noteq> 45" by blast+
qed

lemma unat_byte: "unat (b :: 8 word) div 16 < 16"
  using unsigned_less [of b, where 'a = nat] by simp

lemma byte_hex_hex: "c \<in> set (byte_hex b) \<Longrightarrow> is_hex c \<and> c \<noteq> 45"
  using hex_cu_ok unat_byte [of b] by (auto simp: byte_hex_def)

lemma hex_bytes_concat [simp]: "hex_bytes (concat (map byte_hex bs)) = bs"
proof (induction bs)
  case (Cons b bs)
  have "hex_val (hex_cu (unat b div 16)) * 16 + hex_val (hex_cu (unat b mod 16)) = unat b"
    using hex_cu_ok unat_byte [of b] by simp
  with Cons show ?case by (simp add: byte_hex_def)
qed simp

lemma length_hex [simp]: "length (concat (map byte_hex bs)) = 2 * length bs"
  by (induction bs) (simp_all add: byte_hex_def)

lemma slice_drop: "a \<le> b \<Longrightarrow> slice a b xs @ drop b xs = drop a xs"
  by (simp add: slice_def) (metis append_take_drop_id drop_drop le_add_diff_inverse2)

lemma filter_dashed: "list_all (\<lambda>c. c \<noteq> 45) hex \<Longrightarrow> filter (\<lambda>c. c \<noteq> 45) (dashed hex) = hex"
proof -
  assume "list_all (\<lambda>c. c \<noteq> 45) hex"
  then have f: "filter (\<lambda>c. c \<noteq> 45) xs = xs" if "set xs \<subseteq> set hex" for xs
    using that by (auto simp: list_all_iff intro: filter_True)
  have sub: "set (slice a b hex) \<subseteq> set hex" "set (drop a hex) \<subseteq> set hex" for a b
    by (auto simp: slice_def dest: in_set_takeD in_set_dropD)
  have "slice 0 8 hex @ slice 8 12 hex @ slice 12 16 hex @ slice 16 20 hex @ drop 20 hex = hex"
    using slice_drop [of 0 8 hex] slice_drop [of 8 12 hex] slice_drop [of 12 16 hex] slice_drop [of 16 20 hex] by simp
  then show ?thesis by (simp add: dashed_def f sub js_eval)
qed

lemma uuidBytes_dashed: "length bs = 16 \<Longrightarrow> uuidBytes (dashed (concat (map byte_hex bs))) = Some bs"
proof -
  assume l: "length bs = 16"
  have "list_all is_hex (concat (map byte_hex bs))" "list_all (\<lambda>c. c \<noteq> 45) (concat (map byte_hex bs))"
    using byte_hex_hex by (auto simp: list_all_iff simp del: set_concat) (auto dest: byte_hex_hex)
  with l show ?thesis by (simp add: uuidBytes_def Let_def filter_dashed)
qed

lemma byte_nat:
  assumes "list_all (\<lambda>n. P (of_nat n)) [0..<256]"
  shows "P (b :: 8 word)"
proof -
  have "unat b \<in> set [0..<256]" using unsigned_less [of b, where 'a = nat] by simp
  with assms have "P (of_nat (unat b))" unfolding list_all_iff by blast
  then show ?thesis by simp
qed

lemma version_byte: "unat ((b AND 0x0f) OR 0x40 :: 8 word) div 16 = 4"
  by (rule byte_nat [where P = "\<lambda>b. unat ((b AND 0x0f) OR 0x40 :: 8 word) div 16 = 4"]) code_simp

lemma variant_byte: "unat ((b AND 0x3f) OR 0x80 :: 8 word) div 16 \<in> {8, 9, 10, 11}"
  by (rule byte_nat [where P = "\<lambda>b. unat ((b AND 0x3f) OR 0x80 :: 8 word) div 16 \<in> {8, 9, 10, 11}"]) code_simp

lemma dashed_isUUID:
  assumes "length bs = 16"
  shows "isUUID (dashed (concat (map byte_hex (version4 bs)))) \<and> dashed (concat (map byte_hex (version4 bs))) ! 14 = 52"
proof -
  define vs where "vs = version4 bs"
  have l: "length vs = 16" using assms by (simp add: vs_def version4_def)
  have v6: "unat (vs ! 6) div 16 = 4" and v8: "unat (vs ! 8) div 16 \<in> {8, 9, 10, 11}"
    using assms version_byte [of "bs ! 6"] variant_byte [of "bs ! 8"] by (simp_all add: vs_def version4_def)
  have h: "is_hex (hex_cu (unat (b :: 8 word) div 16))" "is_hex (hex_cu (unat b mod 16))" for b
    using hex_cu_ok unat_byte by simp_all
  obtain b0 b1 b2 b3 b4 b5 b6 b7 b8 b9 b10 b11 b12 b13 b14 b15
    where vs: "vs = [b0, b1, b2, b3, b4, b5, b6, b7, b8, b9, b10, b11, b12, b13, b14, b15]"
    using l by (auto simp: numeral_eq_Suc length_Suc_conv)
  have six: "hex_cu (unat b6 div 16) = 52" using v6 by (simp add: vs hex_cu_def)
  have eight: "hex_cu (unat b8 div 16) \<in> {56, 57, 97, 98}" using v8 by (auto simp: vs hex_cu_def)
  have d: "dashed (concat (map byte_hex vs)) =
      concat (map byte_hex [b0, b1, b2, b3]) @ 45 # concat (map byte_hex [b4, b5]) @ 45 #
      concat (map byte_hex [b6, b7]) @ 45 # concat (map byte_hex [b8, b9]) @ 45 #
      concat (map byte_hex [b10, b11, b12, b13, b14, b15])"
    by (simp add: vs dashed_def slice_def byte_hex_def js_eval)
  have low: "lower_cu c = c" if "c \<in> {56, 57, 97, 98}" for c using that by (auto simp: lower_cu_def)
  have "list_all (\<lambda>i. if i \<in> {8, 13, 18, 23} then dashed (concat (map byte_hex vs)) ! i = 45
      else is_hex (dashed (concat (map byte_hex vs)) ! i)) [0..<36]"
    unfolding d by (simp add: upt_rec h byte_hex_def)
  moreover have "dashed (concat (map byte_hex vs)) ! 14 = 52" "length (dashed (concat (map byte_hex vs))) = 36"
    "dashed (concat (map byte_hex vs)) ! 19 = hex_cu (unat b8 div 16)"
    unfolding d by (simp_all add: byte_hex_def six)
  ultimately show ?thesis
    using low [OF eight] eight unfolding vs_def [symmetric] isUUID_def by simp
qed

section \<open>Properties\<close>

text \<open>The host hands out enough bytes.\<close>

definition host_ok :: "uuid_host \<Rightarrow> bool" where
  "host_ok h \<longleftrightarrow> randomUUID h = None \<and> (\<forall>bs. getRandomValues h = Some bs \<longrightarrow> length bs = 16) \<and>
     16 \<le> length (random_bytes h)"

text \<open>The sixteen bytes an ID is made of.\<close>

definition drawn_bytes :: "uuid_host \<Rightarrow> nat \<Rightarrow> bytes" where
  "drawn_bytes h n = (case getRandomValues h of
     Some bs \<Rightarrow> bs | None \<Rightarrow> fallback_bytes h ((n + 1) mod nat max_safe_integer))"


definition old_host :: uuid_host where
  "old_host = \<lparr>randomUUID = None, getRandomValues = None, random_bytes = replicate 16 255, date_now = 1\<rparr>"

lemma old_host_ok: "host_ok old_host"
  by (simp add: host_ok_def old_host_def)


lemma low_nibble: "unat ((b AND 0x0f) OR 0x40 :: 8 word) = 64 + unat b mod 16"
  by (rule byte_nat [where P = "\<lambda>b. unat ((b AND 0x0f) OR 0x40 :: 8 word) = 64 + unat b mod 16"]) code_simp

lemma fallback_bytes_low:
  assumes "16 \<le> length (random_bytes h)"
  shows "unat (version4 (fallback_bytes h x) ! 7) = x mod 256"
    "unat (version4 (fallback_bytes h x) ! 6) = 64 + x div 256 mod 16"
proof -
  have l: "length (fallback_bytes h x) = 16"
    using assms by (simp add: fallback_bytes_def set_uint32_def)
  have w: "fallback_bytes h x ! 7 = ucast (of_nat x :: 32 word)"
    "fallback_bytes h x ! 6 = ucast (drop_bit 8 (of_nat x :: 32 word))"
    using assms by (simp_all add: fallback_bytes_def set_uint32_def)
  show "unat (version4 (fallback_bytes h x) ! 7) = x mod 256"
    using l w(1) by (simp add: version4_def unsigned_ucast_eq take_bit_eq_mod unat_of_nat mod_mod_cancel)
  have "take_bit 4 (unat (ucast (drop_bit 8 (of_nat x :: 32 word)) :: 8 word)) = take_bit 4 (drop_bit 8 x)"
    by (simp add: unsigned_ucast_eq unat_drop_bit_eq unsigned_of_nat drop_bit_take_bit)
  then show "unat (version4 (fallback_bytes h x) ! 6) = 64 + x div 256 mod 16"
    using l unfolding version4_def by (simp add: w(2) low_nibble take_bit_eq_mod drop_bit_eq_div)
qed

lemma fallback_low:
  assumes "host_ok h" "getRandomValues h = None" "n + 1 < nat max_safe_integer"
  shows "\<exists>bs. uuidBytes (fst (clientUUID h n)) = Some bs \<and> unat (bs ! 7) = (n + 1) mod 256 \<and>
    unat (bs ! 6) = 64 + (n + 1) div 256 mod 16"
proof -
  let ?bs = "version4 (fallback_bytes h (n + 1))"
  have "length ?bs = 16" using assms(1) by (simp add: host_ok_def version4_def fallback_bytes_def set_uint32_def)
  moreover have "fst (clientUUID h n) = dashed (concat (map byte_hex ?bs))"
    using assms by (simp add: host_ok_def clientUUID_def Let_def)
  ultimately show ?thesis
    using fallback_bytes_low [of h "n + 1"] assms(1) uuidBytes_dashed [of ?bs] by (simp add: host_ok_def)
qed

text \<open>Without Web Crypto, two IDs of one page differ whatever \<open>Math.random\<close> and the clock give, as
  long as their calls are not a multiple of 4096 apart.\<close>

theorem fallback_distinct:
  assumes "host_ok h" "getRandomValues h = None" "host_ok h'" "getRandomValues h' = None"
    "n + 1 < nat max_safe_integer" "m + 1 < nat max_safe_integer" "n mod 4096 \<noteq> m mod 4096"
  shows "fst (clientUUID h n) \<noteq> fst (clientUUID h' m)"
proof
  assume "fst (clientUUID h n) = fst (clientUUID h' m)"
  then have "(n + 1) mod 256 = (m + 1) mod 256" "(n + 1) div 256 mod 16 = (m + 1) div 256 mod 16"
    using fallback_low [OF assms(1,2,5)] fallback_low [OF assms(3,4,6)] by auto
  then have "(n + 1) mod 4096 = (m + 1) mod 4096"
    using mod_mult2_eq [of "n + 1" 256 16] mod_mult2_eq [of "m + 1" 256 16] by simp
  moreover have "((k + 1) mod 4096 + 4095) mod 4096 = k mod 4096" for k :: nat
    unfolding mod_add_left_eq by simp
  ultimately have "n mod 4096 = m mod 4096" by metis
  with assms(7) show False ..
qed

lemma fallback_distinct_witness: "fst (clientUUID old_host 7) \<noteq> fst (clientUUID old_host 8)"
  by (rule fallback_distinct [OF old_host_ok _ old_host_ok]) (simp_all add: old_host_def max_safe_integer_def)

text \<open>The bits of the counter that the version overwrites do not count: IDs of calls 4096 apart are
  equal where the random bytes and the clock are.\<close>

theorem fallback_repeats: "fst (clientUUID old_host 0) = fst (clientUUID old_host 4096)"
proof -
  have "version4 (fallback_bytes old_host 1) = version4 (fallback_bytes old_host 4097)" by code_simp
  then show ?thesis by (simp add: clientUUID_def old_host_def max_safe_integer_def)
qed

end
