(* ===== verification/OfflineStore.thy ===== *)
theory OfflineStore
  imports ClientUuid Zod
begin

text \<open>
  \<open>lib/collaboration/offline-store.ts\<close>: the record of a page's working copy in IndexedDB.

  A stored value is a \<open>clone_val\<close>, what structured cloning keeps; the object store maps keys to
  values. \<open>load\<close> and \<open>save\<close> are the transactions: an error aborts, and leaves the store as it
  was. \<open>offline_env\<close> holds what Yjs and the browser give: the state of an empty document, the
  merge of two states, and the ID of a new client. Opening the database is not modelled.
  The document's ID is declared a string, and is whatever value the client has taken from the server.
\<close>

datatype clone_val = CUndef | CNull | CBool bool | CStr jstr | CNum jsnum | CBytes bytes | CArr "clone_val list"
  | CObj "(jstr \<times> clone_val) list"

record pending_update =
  pending_id :: bytes
  pending_bytes :: bytes

record offline_record =
  r_clientId :: jstr
  r_documentId :: "jsval option"
  r_sequence :: int
  r_state :: bytes
  r_pending :: "pending_update list"

record offline_env =
  empty_state :: bytes
  mergeUpdates :: "bytes \<Rightarrow> bytes \<Rightarrow> bytes"
  new_client_id :: jstr

type_synonym object_store = "jstr \<rightharpoonup> clone_val"

datatype offline_error = InvalidRecord | WorkingDocumentChanged

section \<open>The schema of a record\<close>

definition cfield :: "clone_val \<Rightarrow> string \<Rightarrow> clone_val" where
  "cfield v k = (case v of CObj fs \<Rightarrow> (case map_of fs (js k) of Some w \<Rightarrow> w | None \<Rightarrow> CUndef) | _ \<Rightarrow> CUndef)"

definition c_uuid :: "zenv \<Rightarrow> clone_val \<Rightarrow> jstr option" where
  "c_uuid z v = (case v of CStr s \<Rightarrow> if z_uuid z s then Some s else None | _ \<Rightarrow> None)"

definition bytesSchema :: "clone_val \<Rightarrow> bytes option" where
  "bytesSchema v = (case v of CBytes b \<Rightarrow> Some b | _ \<Rightarrow> None)"

definition pending_schema :: "clone_val \<Rightarrow> pending_update option" where
  "pending_schema v =
     (case (bytesSchema (cfield v ''id''), bytesSchema (cfield v ''update'')) of
        (Some i, Some u) \<Rightarrow> if length i = 16 then Some \<lparr>pending_id = i, pending_bytes = u\<rparr> else None
      | _ \<Rightarrow> None)"

definition c_sequence :: "clone_val \<Rightarrow> int option" where
  "c_sequence v = (case v of CNum n \<Rightarrow> (case safe_int n of Some i \<Rightarrow> if 0 \<le> i then Some i else None | None \<Rightarrow> None)
     | _ \<Rightarrow> None)"

definition c_nullable :: "(clone_val \<Rightarrow> 'a option) \<Rightarrow> clone_val \<Rightarrow> 'a option option" where
  "c_nullable S v = (if v = CNull then Some None else map_option Some (S v))"

definition c_array :: "(clone_val \<Rightarrow> 'a option) \<Rightarrow> clone_val \<Rightarrow> 'a list option" where
  "c_array S v = (case v of CArr vs \<Rightarrow> mapO S vs | _ \<Rightarrow> None)"

definition recordSchema :: "zenv \<Rightarrow> clone_val \<Rightarrow> offline_record option" where
  "recordSchema z v =
     (case (c_uuid z (cfield v ''clientId''), c_nullable (c_uuid z) (cfield v ''documentId''),
            c_sequence (cfield v ''sequence''), bytesSchema (cfield v ''state''),
            c_array pending_schema (cfield v ''pending'')) of
        (Some c, Some d, Some n, Some s, Some p) \<Rightarrow>
          Some \<lparr>r_clientId = c, r_documentId = map_option JStr d, r_sequence = n, r_state = s, r_pending = p\<rparr>
      | _ \<Rightarrow> None)"

text \<open>The structured clone of a value of JSON.\<close>

fun clone_js :: "jsval \<Rightarrow> clone_val" where
  "clone_js JUndef = CUndef"
| "clone_js JNull = CNull"
| "clone_js (JBool b) = CBool b"
| "clone_js (JNum n) = CNum n"
| "clone_js (JStr s) = CStr s"
| "clone_js (JArr vs) = CArr (map clone_js vs)"
| "clone_js (JObj fs) = CObj (map (\<lambda>(k, v). (k, clone_js v)) fs)"
| "clone_js (JOther t) = CObj []"

definition clone_pending :: "pending_update \<Rightarrow> clone_val" where
  "clone_pending p = CObj [(js ''id'', CBytes (pending_id p)), (js ''update'', CBytes (pending_bytes p))]"

definition clone_record :: "offline_record \<Rightarrow> clone_val" where
  "clone_record r = CObj [(js ''clientId'', CStr (r_clientId r)),
     (js ''documentId'', case r_documentId r of None \<Rightarrow> CNull | Some d \<Rightarrow> clone_js d),
     (js ''sequence'', CNum (num_of_int (r_sequence r))), (js ''state'', CBytes (r_state r)),
     (js ''pending'', CArr (map clone_pending (r_pending r)))]"

fun c_truthy :: "clone_val \<Rightarrow> bool" where
  "c_truthy CUndef \<longleftrightarrow> False"
| "c_truthy CNull \<longleftrightarrow> False"
| "c_truthy (CBool b) \<longleftrightarrow> b"
| "c_truthy (CStr s) \<longleftrightarrow> s \<noteq> []"
| "c_truthy (CNum n) \<longleftrightarrow> truthy (JNum n)"
| "c_truthy v \<longleftrightarrow> True"

section \<open>Operations\<close>

definition store_key :: "jstr \<Rightarrow> jstr \<Rightarrow> jstr" where
  "store_key actorId pageId = actorId @ js ''.'' @ pageId"

definition newOfflineRecord :: "offline_env \<Rightarrow> offline_record" where
  "newOfflineRecord env = \<lparr>r_clientId = new_client_id env, r_documentId = None, r_sequence = 0,
     r_state = empty_state env, r_pending = []\<rparr>"

text \<open>What is stored at the key: nothing, or the parsed record.\<close>

definition stored :: "zenv \<Rightarrow> jstr \<Rightarrow> object_store \<Rightarrow> offline_error + offline_record option" where
  "stored z k db = (case db k of
     None \<Rightarrow> Inr None
   | Some v \<Rightarrow> if c_truthy v then map_sum id Some (of_option InvalidRecord (recordSchema z v)) else Inr None)"

definition load :: "zenv \<Rightarrow> offline_env \<Rightarrow> jstr \<Rightarrow> object_store \<Rightarrow> offline_error + offline_record \<times> object_store" where
  "load z env k db = bindE (stored z k db) (\<lambda>r. case r of
     Some r \<Rightarrow> Inr (r, db)
   | None \<Rightarrow> let r = newOfflineRecord env in Inr (r, db(k \<mapsto> clone_record r)))"

definition sameId :: "bytes \<Rightarrow> bytes \<Rightarrow> bool" where
  "sameId l r \<longleftrightarrow> length l = length r \<and> list_all (\<lambda>i. l ! i = r ! i) [0..<length l]"

definition merge_pending :: "pending_update option \<Rightarrow> bytes option \<Rightarrow> pending_update list \<Rightarrow> pending_update list" where
  "merge_pending added acknowledged ps =
     (let ps = (case added of
          Some a \<Rightarrow> if list_ex (\<lambda>p. sameId (pending_id p) (pending_id a)) ps then ps else ps @ [a]
        | None \<Rightarrow> ps)
      in case acknowledged of Some i \<Rightarrow> filter (\<lambda>p. \<not> sameId (pending_id p) i) ps | None \<Rightarrow> ps)"

definition merge_record :: "offline_env \<Rightarrow> offline_record option \<Rightarrow> offline_record \<Rightarrow> pending_update option \<Rightarrow> bytes option \<Rightarrow>
    offline_record" where
  "merge_record env previous r added acknowledged =
     (case previous of
        None \<Rightarrow> r\<lparr>r_sequence := max 0 (r_sequence r), r_pending := merge_pending added acknowledged []\<rparr>
      | Some p \<Rightarrow> r\<lparr>r_clientId := r_clientId p, r_sequence := max (r_sequence p) (r_sequence r),
          r_state := mergeUpdates env (r_state p) (r_state r),
          r_pending := merge_pending added acknowledged (r_pending p)\<rparr>)"

definition save :: "zenv \<Rightarrow> offline_env \<Rightarrow> jstr \<Rightarrow> offline_record \<Rightarrow> pending_update option \<Rightarrow> bytes option \<Rightarrow> object_store \<Rightarrow>
    offline_error + object_store" where
  "save z env k r added acknowledged db =
     bindE (stored z k db) (\<lambda>previous.
       if (case previous of Some p \<Rightarrow> r_documentId p \<noteq> None \<and> r_documentId p \<noteq> Some (JStr []) \<and> r_documentId p \<noteq> r_documentId r
           | None \<Rightarrow> False)
       then Inl WorkingDocumentChanged
       else Inr (db(k \<mapsto> clone_record (merge_record env previous r added acknowledged))))"

section \<open>Records survive storing\<close>

lemma sameId_iff [simp]: "sameId l r \<longleftrightarrow> l = r"
  by (auto simp: sameId_def list_all_iff intro: nth_equalityI)

text \<open>The ID of a document as the schema wants it.\<close>

definition doc_fits :: "zenv \<Rightarrow> jsval option \<Rightarrow> bool" where
  "doc_fits z d \<longleftrightarrow> (case d of None \<Rightarrow> True | Some (JStr s) \<Rightarrow> z_uuid z s | _ \<Rightarrow> False)"

definition record_ok :: "zenv \<Rightarrow> offline_record \<Rightarrow> bool" where
  "record_ok z r \<longleftrightarrow> z_uuid z (r_clientId r) \<and> doc_fits z (r_documentId r) \<and>
     0 \<le> r_sequence r \<and> r_sequence r \<le> max_safe_integer \<and>
     list_all (\<lambda>p. length (pending_id p) = 16) (r_pending r)"

lemma pending_schema_clone: "length (pending_id p) = 16 \<Longrightarrow> pending_schema (clone_pending p) = Some p"
  by (simp add: pending_schema_def clone_pending_def cfield_def bytesSchema_def)

lemma recordSchema_clone: "record_ok z r \<Longrightarrow> recordSchema z (clone_record r) = Some r"
proof -
  assume ok: "record_ok z r"
  have p: "mapO pending_schema (map clone_pending (r_pending r)) = Some (r_pending r)"
    using ok pending_schema_clone by (intro mapO_map) (auto simp: record_ok_def list_all_iff)
  have s: "safe_int (num_of_int (r_sequence r)) = Some (r_sequence r)"
    using ok by (simp add: record_ok_def)
  show ?thesis
    using ok p s
    by (cases "r_documentId r")
      (simp_all add: record_ok_def recordSchema_def clone_record_def cfield_def c_uuid_def c_nullable_def
        c_sequence_def bytesSchema_def c_array_def doc_fits_def split: jsval.splits)
qed

lemma pending_schema_ok: "pending_schema v = Some p \<Longrightarrow> length (pending_id p) = 16"
  by (auto simp: pending_schema_def split: option.splits if_splits)

lemma recordSchema_ok:
  assumes "recordSchema z v = Some r"
  shows "record_ok z r"
proof -
  obtain c d n s p where f: "c_uuid z (cfield v ''clientId'') = Some c" "c_nullable (c_uuid z) (cfield v ''documentId'') = Some d"
    "c_sequence (cfield v ''sequence'') = Some n" "c_array pending_schema (cfield v ''pending'') = Some p"
    "r = \<lparr>r_clientId = c, r_documentId = map_option JStr d, r_sequence = n, r_state = s, r_pending = p\<rparr>"
    using assms by (auto simp: recordSchema_def split: option.splits)
  have "list_all (\<lambda>p. length (pending_id p) = 16) p"
    using f(4) mapO_SomeD pending_schema_ok by (fastforce simp: c_array_def list_all_iff split: clone_val.splits)
  moreover have "0 \<le> n \<and> n \<le> max_safe_integer"
    using f(3) by (auto simp: c_sequence_def safe_int_def split: clone_val.splits option.splits if_splits)
  moreover have "z_uuid z c" using f(1) by (auto simp: c_uuid_def split: clone_val.splits if_splits)
  moreover have "doc_fits z (map_option JStr d)"
    using f(2) by (auto simp: c_nullable_def c_uuid_def doc_fits_def split: clone_val.splits if_splits)
  ultimately show ?thesis by (simp add: f(5) record_ok_def)
qed

text \<open>An ID the schema refuses makes the stored record unreadable.\<close>

definition spoils :: "zenv \<Rightarrow> jsval option \<Rightarrow> bool" where
  "spoils z d \<longleftrightarrow> \<not> doc_fits z d \<and> d \<noteq> Some JNull"

lemma recordSchema_spoiled: "spoils z (r_documentId r) \<Longrightarrow> recordSchema z (clone_record r) = None"
  by (cases "the (r_documentId r)")
    (auto simp: spoils_def doc_fits_def recordSchema_def clone_record_def cfield_def c_uuid_def c_nullable_def js_eval
      split: option.splits)

lemma stored_spoiled: "spoils z (r_documentId r) \<Longrightarrow> stored z k (db(k \<mapsto> clone_record r)) = Inl InvalidRecord"
  by (simp add: stored_def recordSchema_spoiled of_option_def) (simp add: clone_record_def)

lemma save_spoiled:
  assumes "spoils z (r_documentId r)" "save z env k r added acknowledged db = Inr db'"
  shows "isl (stored z k db')"
proof -
  obtain previous where "db' = db(k \<mapsto> clone_record (merge_record env previous r added acknowledged))"
    using assms(2) by (auto simp: save_def res_simps split: if_splits option.splits)
  moreover have "r_documentId (merge_record env previous r added acknowledged) = r_documentId r"
    by (simp add: merge_record_def split: option.split)
  ultimately show ?thesis using assms(1) by (simp add: stored_spoiled)
qed

lemma stored_ok: "stored z k db = Inr (Some r) \<Longrightarrow> record_ok z r"
  by (auto simp: stored_def of_option_def recordSchema_ok split: option.splits if_splits)

lemma stored_clone: "record_ok z r \<Longrightarrow> stored z k (db(k \<mapsto> clone_record r)) = Inr (Some r)"
  by (simp add: stored_def recordSchema_clone of_option_def) (simp add: clone_record_def)

lemma stored_other: "j \<noteq> k \<Longrightarrow> stored z j (db(k \<mapsto> v)) = stored z j db"
  by (simp add: stored_def)

definition added_ok :: "pending_update option \<Rightarrow> bool" where
  "added_ok added \<longleftrightarrow> pred_option (\<lambda>p. length (pending_id p) = 16) added"

lemma merge_added_ids:
  "pending_id ` set (if list_ex (\<lambda>p. sameId (pending_id p) (pending_id a)) ps then ps else ps @ [a]) =
     pending_id ` insert a (set ps)"
  by (auto simp: list_ex_iff intro: rev_image_eqI)

lemma acknowledge_ids: "pending_id ` set (filter (\<lambda>p. \<not> sameId (pending_id p) i) ps) = pending_id ` set ps - {i}"
  by auto

lemma merge_pending_ids:
  "pending_id ` set (merge_pending added acknowledged ps) =
     pending_id ` (set_option added \<union> set ps) - set_option acknowledged"
  unfolding merge_pending_def Let_def
  by (cases added; cases acknowledged)
    (simp_all only: option.case acknowledge_ids merge_added_ids option.set Un_insert_left Un_empty_left Diff_empty)

lemma merge_pending_subset: "set (merge_pending added acknowledged ps) \<subseteq> set_option added \<union> set ps"
  by (auto simp: merge_pending_def split: option.splits if_splits)

lemma merge_pending_distinct:
  "distinct (map pending_id ps) \<Longrightarrow> distinct (map pending_id (merge_pending added acknowledged ps))"
  by (auto simp: merge_pending_def list_ex_iff distinct_map_filter split: option.splits)

lemma merge_pending_kept:
  "p \<in> set ps \<Longrightarrow> acknowledged \<noteq> Some (pending_id p) \<Longrightarrow> p \<in> set (merge_pending added acknowledged ps)"
  by (auto simp: merge_pending_def split: option.splits)

lemma merge_record_ok:
  assumes "record_ok z r" "pred_option (record_ok z) previous" "added_ok added"
  shows "record_ok z (merge_record env previous r added acknowledged)"
proof -
  have "list_all (\<lambda>p. length (pending_id p) = 16) (merge_pending added acknowledged ps)"
    if "list_all (\<lambda>p. length (pending_id p) = 16) ps" for ps
    using merge_pending_subset [of added acknowledged ps] that assms(3)
    by (fastforce simp: list_all_iff added_ok_def)
  then show ?thesis
    using assms by (auto simp: record_ok_def merge_record_def max_def split: option.splits)
qed

lemma save_stored:
  assumes "record_ok z r" "added_ok added" "save z env k r added acknowledged db = Inr db'"
  shows "\<exists>previous. stored z k db = Inr previous \<and>
    stored z k db' = Inr (Some (merge_record env previous r added acknowledged)) \<and>
    (\<forall>p d. previous = Some p \<longrightarrow> r_documentId p = Some (JStr d) \<longrightarrow> d \<noteq> [] \<longrightarrow> r_documentId r = Some (JStr d))"
proof -
  obtain previous where p: "stored z k db = Inr previous"
    "db' = db(k \<mapsto> clone_record (merge_record env previous r added acknowledged))"
    "\<forall>p d. previous = Some p \<longrightarrow> r_documentId p = Some (JStr d) \<longrightarrow> d \<noteq> [] \<longrightarrow> r_documentId r = Some (JStr d)"
    using assms(3) by (auto simp: save_def res_simps split: if_splits option.splits)
  have "record_ok z (merge_record env previous r added acknowledged)"
    using assms(1,2) stored_ok [of z k db] p(1) by (intro merge_record_ok) (auto simp: option.pred_set)
  with p show ?thesis by (simp add: stored_clone)
qed

section \<open>Properties\<close>

text \<open>C38: what a save stores is what the next load returns: the first client's ID, the larger sequence, the
  merged state, and as pending exactly the IDs that were pending or added and are not acknowledged.\<close>

theorem save_load:
  assumes "record_ok z r" "added_ok added" "save z env k r added acknowledged db = Inr db'"
    "stored z k db = Inr (Some previous)"
  shows "\<exists>m. load z env k db' = Inr (m, db') \<and> r_clientId m = r_clientId previous \<and>
     r_documentId m = r_documentId r \<and> r_sequence m = max (r_sequence previous) (r_sequence r) \<and>
     r_state m = mergeUpdates env (r_state previous) (r_state r) \<and>
     pending_id ` set (r_pending m) =
       pending_id ` (set_option added \<union> set (r_pending previous)) - set_option acknowledged"
proof -
  have "stored z k db' = Inr (Some (merge_record env (Some previous) r added acknowledged))"
    using save_stored [OF assms(1-3)] assms(4) by auto
  then show ?thesis
    by (intro exI [of _ "merge_record env (Some previous) r added acknowledged"])
      (simp add: load_def merge_record_def merge_pending_ids)
qed

definition sample_uuid :: jstr where
  "sample_uuid = js ''00000000-0000-4000-8000-000000000000''"

definition sample_zenv :: zenv where
  "sample_zenv = \<lparr>z_uuid = (\<lambda>s. s = sample_uuid), z_iso_date = (\<lambda>_. False), z_url = (\<lambda>_. None), parse_url = (\<lambda>_. None)\<rparr>"

definition sample_offline :: offline_env where
  "sample_offline = \<lparr>empty_state = [], mergeUpdates = (\<lambda>a b. a @ b), new_client_id = sample_uuid\<rparr>"

definition sample_pending :: pending_update where
  "sample_pending = \<lparr>pending_id = replicate 16 1, pending_bytes = [7]\<rparr>"

definition sample_record :: offline_record where
  "sample_record = \<lparr>r_clientId = sample_uuid, r_documentId = Some (JStr sample_uuid), r_sequence = 3, r_state = [1],
     r_pending = []\<rparr>"

lemma sample_record_ok: "record_ok sample_zenv sample_record" "added_ok (Some sample_pending)"
  by (simp_all add: record_ok_def sample_record_def sample_zenv_def max_safe_integer_def added_ok_def sample_pending_def doc_fits_def)

definition sample_db :: object_store where
  "sample_db = (\<lambda>_. Some (clone_record sample_record))"

lemma sample_stored: "stored sample_zenv k sample_db = Inr (Some sample_record)"
proof -
  have "sample_db = sample_db(k \<mapsto> clone_record sample_record)" by (auto simp: sample_db_def)
  with stored_clone [OF sample_record_ok(1), of k sample_db] show ?thesis by simp
qed

lemma save_load_witness:
  "\<exists>m. load sample_zenv sample_offline [] (sample_db([] \<mapsto> clone_record
         (merge_record sample_offline (Some sample_record) sample_record (Some sample_pending) None))) =
       Inr (m, sample_db([] \<mapsto> clone_record
         (merge_record sample_offline (Some sample_record) sample_record (Some sample_pending) None))) \<and>
     r_clientId m = r_clientId sample_record \<and> r_documentId m = r_documentId sample_record \<and>
     r_sequence m = max (r_sequence sample_record) (r_sequence sample_record) \<and>
     r_state m = mergeUpdates sample_offline (r_state sample_record) (r_state sample_record) \<and>
     pending_id ` set (r_pending m) = pending_id ` (set_option (Some sample_pending) \<union> set (r_pending sample_record)) - set_option None"
  by (rule save_load [OF sample_record_ok _ sample_stored]) (simp add: save_def sample_stored)

text \<open>A save that fails aborts its transaction.\<close>

definition transact :: "zenv \<Rightarrow> offline_env \<Rightarrow> jstr \<Rightarrow> offline_record \<times> pending_update option \<times> bytes option \<Rightarrow> object_store \<Rightarrow> object_store" where
  "transact z env k = (\<lambda>(r, added, acknowledged) db. case save z env k r added acknowledged db of Inl _ \<Rightarrow> db | Inr db' \<Rightarrow> db')"

definition request_ok :: "zenv \<Rightarrow> offline_record \<times> pending_update option \<times> bytes option \<Rightarrow> bool" where
  "request_ok z = (\<lambda>(r, added, acknowledged). record_ok z r \<and> added_ok added)"

lemma transact_stored:
  assumes "request_ok z (r, added, acknowledged)" "stored z k db = Inr (Some p)"
  shows "transact z env k (r, added, acknowledged) db = db \<or>
    stored z k (transact z env k (r, added, acknowledged) db) = Inr (Some (merge_record env (Some p) r added acknowledged)) \<and>
    (\<forall>d. r_documentId p = Some (JStr d) \<longrightarrow> d \<noteq> [] \<longrightarrow> r_documentId r = Some (JStr d))"
proof (cases "save z env k r added acknowledged db")
  case (Inr db')
  then show ?thesis
    using save_stored [OF _ _ Inr] assms by (auto simp: request_ok_def transact_def)
qed (simp add: transact_def)

text \<open>C11: an update once pending at a key survives every further save of any tab, whatever it adds and also
  where it fails, until its own ID is acknowledged; the client's ID and the document stay, and the
  sequence never goes back.\<close>

theorem pending_survives:
  assumes "stored z k db = Inr (Some r0)" "p \<in> set (r_pending r0)" "r_documentId r0 = Some (JStr d)" "d \<noteq> []"
    "list_all (request_ok z) reqs" "list_all (\<lambda>(r, added, acknowledged). acknowledged \<noteq> Some (pending_id p)) reqs"
  shows "\<exists>r. stored z k (fold (transact z env k) reqs db) = Inr (Some r) \<and> p \<in> set (r_pending r) \<and>
     r_clientId r = r_clientId r0 \<and> r_documentId r = Some (JStr d) \<and> r_sequence r0 \<le> r_sequence r"
  using assms(1-3,5,6)
proof (induction reqs arbitrary: db r0)
  case (Cons q reqs)
  obtain r added acknowledged where q: "q = (r, added, acknowledged)" by (cases q) auto
  have ok: "request_ok z (r, added, acknowledged)" "acknowledged \<noteq> Some (pending_id p)"
    using Cons.prems(4,5) by (simp_all add: q)
  let ?m = "merge_record env (Some r0) r added acknowledged"
  consider "transact z env k q db = db"
    | "stored z k (transact z env k q db) = Inr (Some ?m)" "r_documentId r = Some (JStr d)"
    using transact_stored [OF ok(1) Cons.prems(1)] Cons.prems(3) assms(4) by (auto simp: q)
  then show ?case
  proof cases
    case 1
    then show ?thesis using Cons.IH [OF Cons.prems(1-3)] Cons.prems(4,5) by simp
  next
    case 2
    have "p \<in> set (r_pending ?m)"
      using merge_pending_kept [OF Cons.prems(2) ok(2)] by (simp add: merge_record_def)
    moreover have "r_documentId ?m = Some (JStr d)" using 2(2) by (simp add: merge_record_def)
    ultimately obtain s where "stored z k (fold (transact z env k) reqs (transact z env k q db)) = Inr (Some s)"
      "p \<in> set (r_pending s)" "r_clientId s = r_clientId ?m" "r_documentId s = Some (JStr d)" "r_sequence ?m \<le> r_sequence s"
      using Cons.IH [OF 2(1)] Cons.prems(4,5) by auto
    then show ?thesis by (auto simp: merge_record_def)
  qed
qed auto

lemma pending_survives_witness:
  "\<exists>r. stored sample_zenv [] (fold (transact sample_zenv sample_offline []) [(sample_record, None, None)]
        (sample_db([] \<mapsto> clone_record (sample_record\<lparr>r_pending := [sample_pending]\<rparr>)))) = Inr (Some r) \<and>
     sample_pending \<in> set (r_pending r) \<and> r_clientId r = r_clientId (sample_record\<lparr>r_pending := [sample_pending]\<rparr>) \<and>
     r_documentId r = Some (JStr sample_uuid) \<and> r_sequence (sample_record\<lparr>r_pending := [sample_pending]\<rparr>) \<le> r_sequence r"
proof (rule pending_survives)
  have "record_ok sample_zenv (sample_record\<lparr>r_pending := [sample_pending]\<rparr>)"
    using sample_record_ok by (simp add: record_ok_def added_ok_def)
  then show "stored sample_zenv [] (sample_db([] \<mapsto> clone_record (sample_record\<lparr>r_pending := [sample_pending]\<rparr>))) =
      Inr (Some (sample_record\<lparr>r_pending := [sample_pending]\<rparr>))" by (rule stored_clone)
  show "list_all (request_ok sample_zenv) [(sample_record, None, None)]"
    using sample_record_ok by (simp add: request_ok_def added_ok_def)
qed (simp_all add: sample_record_def sample_uuid_def js_eval)

lemma split_first: "a @ x # p = a' @ x # p' \<Longrightarrow> x \<notin> set a \<Longrightarrow> x \<notin> set a' \<Longrightarrow> a = a' \<and> p = p'"
  by (induction a arbitrary: a') (auto simp: Cons_eq_append_conv)

text \<open>The record of one account and page is not touched by saves of another account or page: IDs of
  accounts hold no full stop.\<close>

theorem save_isolated:
  assumes "46 \<notin> set actor" "46 \<notin> set actor'" "(actor, page) \<noteq> (actor', page')"
  shows "stored z (store_key actor' page') (transact z env (store_key actor page) q db) =
     stored z (store_key actor' page') db"
proof -
  have "store_key actor' page' \<noteq> store_key actor page"
    using assms split_first [of actor' 46 page' actor page] by (auto simp: store_key_def js_eval)
  then show ?thesis
    by (auto simp: transact_def save_def stored_other res_simps split: sum.splits prod.splits if_splits)
qed

lemma save_isolated_witness:
  "stored sample_zenv (store_key sample_uuid []) (transact sample_zenv sample_offline (store_key sample_uuid [1])
      (sample_record, None, None) sample_db) = stored sample_zenv (store_key sample_uuid []) sample_db"
  by (rule save_isolated) (simp_all add: sample_uuid_def js_eval)

end
