(* ===== verification/YjsAst.thy ===== *)
theory YjsAst
  imports AstSchema
begin

text \<open>
  \<open>lib/collaboration/yjs-ast.ts\<close>: the working copy of a document as Yjs shared types, and the
  reconciliation of a working copy with a document.

  Yjs is not code of the repository. It is the record \<open>yapi\<close>, an argument of every function, over a
  type of shared values of its own. \<open>y_view\<close> is what \<open>instanceof\<close>, \<open>toString\<close>, \<open>toArray\<close>
  and \<open>entries\<close> show of a value; the other fields are the constructors and the methods the
  source calls, each giving the value after the call. A change to a value inside an array or a map is
  seen through its parent: \<open>array_child\<close> and \<open>map_child\<close> are the parent after its child became the
  given value. \<open>y_laws\<close> is the documented behaviour of these methods on one replica. A text method
  is only relied on at positions that do not separate the two halves of a surrogate pair.

  Keys that are members of \<open>Object.prototype\<close> are not covered by \<open>key in desired\<close>.
\<close>

datatype 'y yview = VText jstr | VArr "'y list" | VMap "(jstr \<times> 'y) list" | VScalar jsval

record 'y yapi =
  y_view :: "'y \<Rightarrow> 'y yview"
  y_depth :: "'y \<Rightarrow> nat"
  y_scalar :: "jsval \<Rightarrow> 'y"
  new_text :: 'y
  new_array :: 'y
  new_map :: 'y
  text_insert :: "nat \<Rightarrow> jstr \<Rightarrow> 'y \<Rightarrow> 'y"
  text_delete :: "nat \<Rightarrow> nat \<Rightarrow> 'y \<Rightarrow> 'y"
  array_insert :: "nat \<Rightarrow> 'y list \<Rightarrow> 'y \<Rightarrow> 'y"
  array_delete :: "nat \<Rightarrow> nat \<Rightarrow> 'y \<Rightarrow> 'y"
  array_child :: "nat \<Rightarrow> 'y \<Rightarrow> 'y \<Rightarrow> 'y"
  map_set :: "jstr \<Rightarrow> 'y \<Rightarrow> 'y \<Rightarrow> 'y"
  map_delete :: "jstr \<Rightarrow> 'y \<Rightarrow> 'y"
  map_child :: "jstr \<Rightarrow> 'y \<Rightarrow> 'y \<Rightarrow> 'y"

section \<open>Values\<close>

definition collaborative_text_fields :: "string list" where
  "collaborative_text_fields = [''text'', ''display_text'', ''content'']"

definition is_collaborative :: "jstr option \<Rightarrow> bool" where
  "is_collaborative k \<longleftrightarrow> (case k of None \<Rightarrow> False | Some k \<Rightarrow> k \<in> js ` set collaborative_text_fields)"

fun toYValue :: "'y yapi \<Rightarrow> jsval \<Rightarrow> jstr option \<Rightarrow> 'y" where
  "toYValue api (JStr s) k =
     (if is_collaborative k then text_insert api 0 s (new_text api) else y_scalar api (JStr s))"
| "toYValue api (JArr vs) k = array_insert api 0 (map (\<lambda>v. toYValue api v None) vs) (new_array api)"
| "toYValue api (JObj fs) k = fold (\<lambda>p m. map_set api (fst p) (toYValue api (snd p) (Some (fst p))) m) fs (new_map api)"
| "toYValue api v k = y_scalar api v"

text \<open>A shared value is a finite tree, so its depth bounds the recursion.\<close>

fun from_depth :: "'y yapi \<Rightarrow> nat \<Rightarrow> 'y \<Rightarrow> jsval" where
  "from_depth api n y =
     (case y_view api y of
        VText s \<Rightarrow> JStr s
      | VArr ys \<Rightarrow> JArr (case n of 0 \<Rightarrow> [] | Suc m \<Rightarrow> map (from_depth api m) ys)
      | VMap kvs \<Rightarrow> JObj (case n of 0 \<Rightarrow> [] | Suc m \<Rightarrow> map (\<lambda>p. (fst p, from_depth api m (snd p))) kvs)
      | VScalar v \<Rightarrow> v)"

declare from_depth.simps [simp del]

definition fromYValue :: "'y yapi \<Rightarrow> 'y \<Rightarrow> jsval" where
  "fromYValue api y = from_depth api (y_depth api y) y"

section \<open>Texts\<close>

fun common_prefix :: "jstr \<Rightarrow> jstr \<Rightarrow> nat" where
  "common_prefix (a # as) (b # bs) = (if a = b then Suc (common_prefix as bs) else 0)"
| "common_prefix _ _ = 0"

text \<open>The edit: where it starts, how much it deletes and what it inserts.\<close>

definition text_edit :: "jstr \<Rightarrow> jstr \<Rightarrow> nat \<times> nat \<times> jstr" where
  "text_edit current desired =
     (let prefix = common_prefix current desired;
          suffix = common_prefix (rev (drop prefix current)) (rev (drop prefix desired))
      in (prefix, length current - prefix - suffix, slice prefix (length desired - suffix) desired))"

definition reconcileText :: "'y yapi \<Rightarrow> 'y \<Rightarrow> jstr \<Rightarrow> jstr \<Rightarrow> 'y" where
  "reconcileText api target current desired =
     (if current = desired then target
      else (case text_edit current desired of (prefix, deleted, inserted) \<Rightarrow>
        let t = (if deleted > 0 then text_delete api prefix deleted target else target)
        in if inserted \<noteq> [] then text_insert api prefix inserted t else t))"

section \<open>Reconciliation\<close>

datatype yjs_error = MoveOutOfBounds

definition elements :: "'y yapi \<Rightarrow> 'y \<Rightarrow> 'y list" where
  "elements api y = (case y_view api y of VArr ys \<Rightarrow> ys | _ \<Rightarrow> [])"

definition entries :: "'y yapi \<Rightarrow> 'y \<Rightarrow> (jstr \<times> 'y) list" where
  "entries api y = (case y_view api y of VMap kvs \<Rightarrow> kvs | _ \<Rightarrow> [])"

definition moveYjsArrayItem :: "'y yapi \<Rightarrow> nat \<Rightarrow> nat \<Rightarrow> 'y \<Rightarrow> yjs_error + 'y" where
  "moveYjsArrayItem api from_i to_i arr =
     (if from_i \<ge> length (elements api arr) \<or> to_i \<ge> length (elements api arr) then Inl MoveOutOfBounds
      else if from_i = to_i then Inr arr
      else Inr (array_insert api to_i [toYValue api (fromYValue api (elements api arr ! from_i)) None]
                  (array_delete api from_i 1 arr)))"

definition block_id_of :: "'y yapi \<Rightarrow> 'y \<Rightarrow> jstr option" where
  "block_id_of api y =
     (case map_of (entries api y) (js ''id'') of
        Some c \<Rightarrow> (case y_view api c of VScalar (JStr s) \<Rightarrow> Some s | _ \<Rightarrow> None)
      | None \<Rightarrow> None)"

fun find_index :: "('a \<Rightarrow> bool) \<Rightarrow> 'a list \<Rightarrow> nat option" where
  "find_index P [] = None"
| "find_index P (x # xs) = (if P x then Some 0 else map_option Suc (find_index P xs))"

definition findBlockIndex :: "'y yapi \<Rightarrow> jstr \<Rightarrow> 'y \<Rightarrow> nat option" where
  "findBlockIndex api i arr = find_index (\<lambda>y. block_id_of api y = Some i) (elements api arr)"

definition value_id :: "jsval \<Rightarrow> jstr option" where
  "value_id v = (case v of JObj fs \<Rightarrow> (case getp fs (js ''id'') of JStr s \<Rightarrow> Some s | _ \<Rightarrow> None) | _ \<Rightarrow> None)"

definition isBlockArray :: "jsval list \<Rightarrow> bool" where
  "isBlockArray vs \<longleftrightarrow> list_all (\<lambda>v. value_id v \<noteq> None) vs"

text \<open>
  \<open>rec c v k\<close> is \<open>reconcileValue\<close>: nothing where it returns false, and the changed value where it
  returns true.
\<close>

type_synonym 'y reconciler = "'y \<Rightarrow> jsval \<Rightarrow> jstr option \<Rightarrow> yjs_error + 'y option"

fun reconcile_fields :: "'y yapi \<Rightarrow> 'y reconciler \<Rightarrow> fields \<Rightarrow> 'y \<Rightarrow> yjs_error + 'y" where
  "reconcile_fields api rec [] t = Inr t"
| "reconcile_fields api rec (p # fs) t =
     (case map_of (entries api t) (fst p) of
        Some c \<Rightarrow> bindE (rec c (snd p) (Some (fst p))) (\<lambda>r. reconcile_fields api rec fs
          (case r of Some c' \<Rightarrow> map_child api (fst p) c' t
           | None \<Rightarrow> map_set api (fst p) (toYValue api (snd p) (Some (fst p))) t))
      | None \<Rightarrow> reconcile_fields api rec fs
          (if snd p = JUndef then t else map_set api (fst p) (toYValue api (snd p) (Some (fst p))) t))"

definition drop_keys :: "'y yapi \<Rightarrow> fields \<Rightarrow> 'y \<Rightarrow> 'y" where
  "drop_keys api fs t = fold (\<lambda>k t. if k \<in> fst ` set fs then t else map_delete api k t) (map fst (entries api t)) t"

definition reconcileMap_with :: "'y yapi \<Rightarrow> 'y reconciler \<Rightarrow> fields \<Rightarrow> 'y \<Rightarrow> yjs_error + 'y" where
  "reconcileMap_with api rec fs t = reconcile_fields api rec fs (drop_keys api fs t)"

definition truncate_array :: "'y yapi \<Rightarrow> nat \<Rightarrow> 'y \<Rightarrow> 'y" where
  "truncate_array api n t =
     (let len = length (elements api t) in if len > n then array_delete api n (len - n) t else t)"

fun reconcile_items :: "'y yapi \<Rightarrow> 'y reconciler \<Rightarrow> nat \<Rightarrow> jsval list \<Rightarrow> 'y \<Rightarrow> yjs_error + 'y" where
  "reconcile_items api rec i [] t = Inr t"
| "reconcile_items api rec i (v # vs) t =
     (if i \<ge> length (elements api t) then reconcile_items api rec (Suc i) vs (array_insert api i [toYValue api v None] t)
      else bindE (rec (elements api t ! i) v None) (\<lambda>r. reconcile_items api rec (Suc i) vs
        (case r of Some c \<Rightarrow> array_child api i c t
         | None \<Rightarrow> array_insert api i [toYValue api v None] (array_delete api i 1 t))))"

text \<open>The call \<open>reconcileMap(current, block)\<close> is \<open>rec current block None\<close> on a map.\<close>

fun reconcile_blocks :: "'y yapi \<Rightarrow> 'y reconciler \<Rightarrow> nat \<Rightarrow> jsval list \<Rightarrow> 'y \<Rightarrow> yjs_error + 'y" where
  "reconcile_blocks api rec i [] t = Inr t"
| "reconcile_blocks api rec i (v # vs) t =
     bindE (case findBlockIndex api (the (value_id v)) t of
        None \<Rightarrow> Inr (array_insert api i [toYValue api v None] t)
      | Some j \<Rightarrow> if j \<noteq> i then moveYjsArrayItem api j i t else Inr t)
     (\<lambda>t. case y_view api (elements api t ! i) of
        VMap _ \<Rightarrow> bindE (rec (elements api t ! i) v None) (\<lambda>r. reconcile_blocks api rec (Suc i) vs
          (case r of Some c \<Rightarrow> array_child api i c t | None \<Rightarrow> t))
      | _ \<Rightarrow> reconcile_blocks api rec (Suc i) vs t)"

definition reconcileArray_with :: "'y yapi \<Rightarrow> 'y reconciler \<Rightarrow> jsval list \<Rightarrow> 'y \<Rightarrow> yjs_error + 'y" where
  "reconcileArray_with api rec vs t =
     bindE (if isBlockArray vs then reconcile_blocks api rec 0 vs t else reconcile_items api rec 0 vs t)
       (\<lambda>t. Inr (truncate_array api (length vs) t))"

text \<open>\<open>Object.is\<close> on a scalar; an object or array is never the same as a stored value.\<close>

definition same_value :: "'y yapi \<Rightarrow> 'y \<Rightarrow> jsval \<Rightarrow> bool" where
  "same_value api c v \<longleftrightarrow> (case v of JObj _ \<Rightarrow> False | JArr _ \<Rightarrow> False
     | _ \<Rightarrow> (case y_view api c of VScalar w \<Rightarrow> w = v | _ \<Rightarrow> False))"

definition reconcile_step :: "'y yapi \<Rightarrow> 'y reconciler \<Rightarrow> 'y reconciler" where
  "reconcile_step api rec c v k =
     (case (v, y_view api c) of
        (JArr vs, VArr _) \<Rightarrow> map_sum id Some (reconcileArray_with api rec vs c)
      | (JObj fs, VMap _) \<Rightarrow> map_sum id Some (reconcileMap_with api rec fs c)
      | (JStr s, VText t) \<Rightarrow> if is_collaborative k then Inr (Some (reconcileText api c t s)) else Inr None
      | _ \<Rightarrow> Inr (if same_value api c v then Some c else None))"


lemma size_fields_less: "p \<in> set fs \<Longrightarrow> size (snd p) < size (JObj fs)"
  by (induction fs) (auto split: prod.splits)

lemma size_items_less: "v \<in> set vs \<Longrightarrow> size v < size (JArr vs)"
  by (induction vs) auto

lemma reconcile_fields_cong:
  "(\<And>p c. p \<in> set fs \<Longrightarrow> rec c (snd p) (Some (fst p)) = rec' c (snd p) (Some (fst p))) \<Longrightarrow>
   reconcile_fields api rec fs t = reconcile_fields api rec' fs t"
proof (induction fs arbitrary: t)
  case (Cons p fs)
  then have "reconcile_fields api rec fs t = reconcile_fields api rec' fs t" for t by simp
  moreover have "rec c (snd p) (Some (fst p)) = rec' c (snd p) (Some (fst p))" for c
    using Cons.prems by simp
  ultimately show ?case by (simp only: reconcile_fields.simps)
qed simp

lemma reconcile_items_cong:
  "(\<And>v c. v \<in> set vs \<Longrightarrow> rec c v None = rec' c v None) \<Longrightarrow>
   reconcile_items api rec i vs t = reconcile_items api rec' i vs t"
  by (induction vs arbitrary: i t) simp_all

lemma reconcile_blocks_cong:
  "(\<And>v c. v \<in> set vs \<Longrightarrow> rec c v None = rec' c v None) \<Longrightarrow>
   reconcile_blocks api rec i vs t = reconcile_blocks api rec' i vs t"
  by (induction vs arbitrary: i t) (simp_all cong: yview.case_cong)

lemma reconcile_step_cong [fundef_cong]:
  assumes "api = api'" "c = c'" "v = v'" "k = k'"
    and "\<And>d w j. size w < size v' \<Longrightarrow> rec d w j = rec' d w j"
  shows "reconcile_step api rec c v k = reconcile_step api' rec' c' v' k'"
proof (cases v')
  case (JArr vs)
  then have e: "rec d w j = rec' d w j" if "w \<in> set vs" for d w j
    using assms(5) size_items_less [OF that] by simp
  show ?thesis
    by (simp add: assms JArr reconcile_step_def reconcileArray_with_def e
        reconcile_items_cong [of vs rec rec'] reconcile_blocks_cong [of vs rec rec'] split: yview.split)
next
  case (JObj fs)
  then have e: "rec d (snd p) j = rec' d (snd p) j" if "p \<in> set fs" for d p j
    using assms(5) size_fields_less [OF that] by simp
  show ?thesis
    by (simp add: assms JObj reconcile_step_def reconcileMap_with_def e
        reconcile_fields_cong [of fs rec rec'] split: yview.split)
qed (simp_all add: assms reconcile_step_def split: yview.split)

function reconcileValue :: "'y yapi \<Rightarrow> 'y reconciler" where
  "reconcileValue api c v k = reconcile_step api (reconcileValue api) c v k"
  by pat_completeness auto
termination by (relation "measure (\<lambda>(api, c, v, k). size v)") auto

declare reconcileValue.simps [simp del]

definition reconcileMap :: "'y yapi \<Rightarrow> fields \<Rightarrow> 'y \<Rightarrow> yjs_error + 'y" where
  "reconcileMap api fs t = reconcileMap_with api (reconcileValue api) fs t"

definition reconcileArray :: "'y yapi \<Rightarrow> jsval list \<Rightarrow> 'y \<Rightarrow> yjs_error + 'y" where
  "reconcileArray api vs t = reconcileArray_with api (reconcileValue api) vs t"

section \<open>Documents\<close>

text \<open>A shared document is the value of its root map \<open>getMap("ast")\<close>.\<close>

definition syncYjsAst :: "'y yapi \<Rightarrow> fields \<Rightarrow> 'y \<Rightarrow> yjs_error + 'y" where
  "syncYjsAst api document root = reconcileMap api document root"

definition createYjsAstDocument :: "'y yapi \<Rightarrow> fields \<Rightarrow> yjs_error + 'y" where
  "createYjsAstDocument api document = syncYjsAst api document (new_map api)"

definition materializeYjsAst :: "zenv \<Rightarrow> 'y yapi \<Rightarrow> 'y \<Rightarrow> document option" where
  "materializeYjsAst env api root = parseDocument env (fromYValue api root)"

end
