(* ===== verification/YjsSync.thy ===== *)
theory YjsSync
  imports YjsAst "HOL-Library.AList"
begin

text \<open>
  Reconciling a working copy with a document: under the documented behaviour of Yjs on one
  replica, the working copy then represents exactly the document, whatever it held before.

  \<open>represents api y v k\<close> says how a value stands in the working copy: texts of the collaborative
  fields as shared texts (or as the equal string), everything else as a scalar, an array or a map
  of what its parts are.
\<close>

section \<open>Texts\<close>

lemma common_prefix_le: "common_prefix a b \<le> length a" "common_prefix a b \<le> length b"
  by (induction a b rule: common_prefix.induct) auto

lemma common_prefix_take: "take (common_prefix a b) a = take (common_prefix a b) b"
  by (induction a b rule: common_prefix.induct) auto

lemma common_suffix_drop:
  assumes "n = common_prefix (rev a) (rev b)"
  shows "n \<le> length a \<and> n \<le> length b \<and> drop (length a - n) a = drop (length b - n) b"
proof -
  have "take n (rev a) = take n (rev b)" unfolding assms by (rule common_prefix_take)
  then have "drop (length a - n) a = drop (length b - n) b" by (simp add: take_rev)
  moreover have "n \<le> length a" "n \<le> length b"
    using common_prefix_le [of "rev a" "rev b"] by (simp_all add: assms)
  ultimately show ?thesis by simp
qed

lemma common_prefix_stop:
  "common_prefix a b < length a \<Longrightarrow> common_prefix a b < length b \<Longrightarrow> a ! common_prefix a b \<noteq> b ! common_prefix a b"
  by (induction a b rule: common_prefix.induct) auto

lemma common_prefix_all: "common_prefix a a = length a"
  by (induction a) auto

text \<open>
  The edit turns the current text into the desired one. It keeps the longest common prefix, so it
  neither deletes nor inserts what both texts start with.
\<close>

lemma text_edit_apply:
  assumes "text_edit current desired = (p, n, ins)"
  shows "p + n \<le> length current" "take p current @ ins @ drop (p + n) current = desired"
    "take p current = take p desired" "drop (p + n) current = drop (p + length ins) desired"
    "set ins \<subseteq> set desired"
proof -
  define s where "s = common_prefix (rev (drop p current)) (rev (drop p desired))"
  have p: "p = common_prefix current desired" and n: "n = length current - p - s"
    and i: "ins = slice p (length desired - s) desired"
    using assms by (auto simp: text_edit_def Let_def s_def)
  note le = common_prefix_le [of current desired, folded p]
  show pre: "take p current = take p desired" unfolding p by (rule common_prefix_take)
  have suf: "s \<le> length current - p" "s \<le> length desired - p"
    "drop (length current - p - s) (drop p current) = drop (length desired - p - s) (drop p desired)"
    using common_suffix_drop [OF s_def] by auto
  have ln: "length ins = length desired - p - s" using suf le by (simp add: i slice_def)
  show "p + n \<le> length current" using suf le by (simp add: n)
  show tail: "drop (p + n) current = drop (p + length ins) desired"
    using suf(3) by (simp add: n ln add.commute)
  have ins: "ins = take (length ins) (drop p desired)"
    using suf le by (simp add: ln, simp add: i slice_def add.commute)
  have "take p current @ ins @ drop (p + n) current
      = take p desired @ take (length ins) (drop p desired) @ drop (length ins) (drop p desired)"
    using pre tail ins by (simp add: add.commute)
  also have "\<dots> = take p desired @ drop p desired" by (simp only: append_take_drop_id)
  finally show "take p current @ ins @ drop (p + n) current = desired" by (simp only: append_take_drop_id)
  show "set ins \<subseteq> set desired" using ins by (metis set_drop_subset set_take_subset subset_trans)
qed

section \<open>The documented behaviour of Yjs\<close>

text \<open>
  A code unit of a surrogate pair, and the positions that do not lie between the two halves of one.
\<close>

definition surrogate :: "cu \<Rightarrow> bool" where
  "surrogate c \<longleftrightarrow> 0xD800 \<le> c \<and> c \<le> 0xDFFF"

definition plain :: "jstr \<Rightarrow> bool" where
  "plain s \<longleftrightarrow> list_all (\<lambda>c. \<not> surrogate c) s"

definition ok_pos :: "jstr \<Rightarrow> nat \<Rightarrow> bool" where
  "ok_pos s p \<longleftrightarrow> p \<le> length s \<and>
     (0 < p \<longrightarrow> p < length s \<longrightarrow> \<not> (surrogate (s ! (p - 1)) \<and> surrogate (s ! p)))"

definition scalar :: "jsval \<Rightarrow> bool" where
  "scalar v \<longleftrightarrow> (case v of JArr _ \<Rightarrow> False | JObj _ \<Rightarrow> False | _ \<Rightarrow> True)"

text \<open>The value \<open>y\<close> is a map whose entries are those of \<open>m\<close>.\<close>

definition views_map :: "'y yapi \<Rightarrow> 'y \<Rightarrow> (jstr \<rightharpoonup> 'y) \<Rightarrow> bool" where
  "views_map api y m \<longleftrightarrow> (\<exists>kvs. y_view api y = VMap kvs \<and> distinct (map fst kvs) \<and> map_of kvs = m)"

definition new_laws :: "'y yapi \<Rightarrow> bool" where
  "new_laws api \<longleftrightarrow> (\<forall>v. scalar v \<longrightarrow> y_view api (y_scalar api v) = VScalar v) \<and>
     y_view api (new_text api) = VText [] \<and> y_view api (new_array api) = VArr [] \<and>
     y_view api (new_map api) = VMap []"

definition tree_laws :: "'y yapi \<Rightarrow> bool" where
  "tree_laws api \<longleftrightarrow>
     (\<forall>y ys c. y_view api y = VArr ys \<longrightarrow> c \<in> set ys \<longrightarrow> y_depth api c < y_depth api y) \<and>
     (\<forall>y kvs. y_view api y = VMap kvs \<longrightarrow>
        distinct (map fst kvs) \<and> (\<forall>c \<in> snd ` set kvs. y_depth api c < y_depth api y))"

definition text_laws :: "'y yapi \<Rightarrow> bool" where
  "text_laws api \<longleftrightarrow> (\<forall>y s p n ins. y_view api y = VText s \<longrightarrow> ok_pos s p \<longrightarrow>
     (plain ins \<longrightarrow> y_view api (text_insert api p ins y) = VText (take p s @ ins @ drop p s)) \<and>
     (ok_pos s (p + n) \<longrightarrow> y_view api (text_delete api p n y) = VText (take p s @ drop (p + n) s)))"

definition array_laws :: "'y yapi \<Rightarrow> bool" where
  "array_laws api \<longleftrightarrow> (\<forall>y xs ys c p n. y_view api y = VArr xs \<longrightarrow>
     (p \<le> length xs \<longrightarrow> y_view api (array_insert api p ys y) = VArr (take p xs @ ys @ drop p xs)) \<and>
     (p + n \<le> length xs \<longrightarrow> y_view api (array_delete api p n y) = VArr (take p xs @ drop (p + n) xs)) \<and>
     (p < length xs \<longrightarrow> y_view api (array_child api p c y) = VArr (xs[p := c])))"

definition map_laws :: "'y yapi \<Rightarrow> bool" where
  "map_laws api \<longleftrightarrow> (\<forall>y m k c. views_map api y m \<longrightarrow>
     views_map api (map_set api k c y) (m(k \<mapsto> c)) \<and>
     views_map api (map_delete api k y) (m(k := None)) \<and>
     (k \<in> dom m \<longrightarrow> views_map api (map_child api k c y) (m(k \<mapsto> c))))"

definition y_laws :: "'y yapi \<Rightarrow> bool" where
  "y_laws api \<longleftrightarrow> new_laws api \<and> tree_laws api \<and> text_laws api \<and> array_laws api \<and> map_laws api"

lemma y_view_new:
  assumes "y_laws api"
  shows "scalar v \<Longrightarrow> y_view api (y_scalar api v) = VScalar v" "y_view api (new_text api) = VText []"
    "y_view api (new_array api) = VArr []" "y_view api (new_map api) = VMap []"
  using assms by (simp_all add: y_laws_def new_laws_def)

lemma y_view_array:
  assumes "y_laws api" "y_view api y = VArr xs"
  shows "p \<le> length xs \<Longrightarrow> y_view api (array_insert api p ys y) = VArr (take p xs @ ys @ drop p xs)"
    "p + n \<le> length xs \<Longrightarrow> y_view api (array_delete api p n y) = VArr (take p xs @ drop (p + n) xs)"
    "p < length xs \<Longrightarrow> y_view api (array_child api p c y) = VArr (xs[p := c])"
    "c \<in> set xs \<Longrightarrow> y_depth api c < y_depth api y"
  using assms by (simp_all add: y_laws_def array_laws_def tree_laws_def)

lemma y_view_text:
  assumes "y_laws api" "y_view api y = VText s" "ok_pos s p"
  shows "plain ins \<Longrightarrow> y_view api (text_insert api p ins y) = VText (take p s @ ins @ drop p s)"
    "ok_pos s (p + n) \<Longrightarrow> y_view api (text_delete api p n y) = VText (take p s @ drop (p + n) s)"
  using assms by (simp_all add: y_laws_def text_laws_def)

lemma y_view_map:
  assumes "y_laws api" "views_map api y m"
  shows "views_map api (map_set api k c y) (m(k \<mapsto> c))"
    "views_map api (map_delete api k y) (m(k := None))"
    "k \<in> dom m \<Longrightarrow> views_map api (map_child api k c y) (m(k \<mapsto> c))"
  using assms by (simp_all add: y_laws_def map_laws_def)

lemma y_view_VMap:
  assumes "y_laws api" "y_view api y = VMap kvs"
  shows "views_map api y (map_of kvs)" "distinct (map fst kvs)" "p \<in> set kvs \<Longrightarrow> y_depth api (snd p) < y_depth api y"
  using assms by (auto simp: y_laws_def tree_laws_def views_map_def)

lemma views_map_D:
  assumes "views_map api y m"
  obtains kvs where "y_view api y = VMap kvs" "distinct (map fst kvs)" "map_of kvs = m" "map_of (entries api y) = m"
  using assms by (auto simp: views_map_def entries_def)

section \<open>Reading a value\<close>

lemma from_depth_mono:
  assumes "y_laws api"
  shows "y_depth api y \<le> n \<Longrightarrow> y_depth api y \<le> m \<Longrightarrow> from_depth api n y = from_depth api m y"
proof (induction n arbitrary: m y)
  case 0
  show ?case
  proof (cases "y_view api y")
    case (VArr ys)
    then have "ys = []" using y_view_array(4) [OF assms VArr] 0 by (cases ys) force+
    then show ?thesis by (simp add: from_depth.simps VArr split: nat.split)
  next
    case (VMap kvs)
    then have "kvs = []" using y_view_VMap(3) [OF assms VMap] 0 by (cases kvs) force+
    then show ?thesis by (simp add: from_depth.simps VMap split: nat.split)
  qed (simp_all add: from_depth.simps)
next
  case (Suc n)
  show ?case
  proof (cases "y_view api y")
    case (VArr ys)
    have "from_depth api n c = from_depth api k c" if "c \<in> set ys" "m = Suc k" for c k
      using Suc.IH [of c k] y_view_array(4) [OF assms VArr that(1)] Suc.prems that(2) by simp
    moreover have "ys = []" if "m = 0"
      using y_view_array(4) [OF assms VArr] Suc.prems that by (cases ys) force+
    ultimately show ?thesis by (auto simp: from_depth.simps VArr split: nat.split)
  next
    case (VMap kvs)
    have "from_depth api n (snd p) = from_depth api k (snd p)" if "p \<in> set kvs" "m = Suc k" for p k
      using Suc.IH [of "snd p" k] y_view_VMap(3) [OF assms VMap that(1)] Suc.prems that(2) by simp
    moreover have "kvs = []" if "m = 0"
      using y_view_VMap(3) [OF assms VMap] Suc.prems that by (cases kvs) force+
    ultimately show ?thesis by (auto simp: from_depth.simps VMap split: nat.split)
  qed (simp_all add: from_depth.simps)
qed

lemma fromYValue_view:
  assumes "y_laws api"
  shows "fromYValue api y = (case y_view api y of
     VText s \<Rightarrow> JStr s | VArr ys \<Rightarrow> JArr (map (fromYValue api) ys)
   | VMap kvs \<Rightarrow> JObj (map (\<lambda>p. (fst p, fromYValue api (snd p))) kvs) | VScalar v \<Rightarrow> v)"
proof -
  have e: "fromYValue api y = from_depth api (Suc (y_depth api y)) y"
    unfolding fromYValue_def by (rule from_depth_mono [OF assms]) simp_all
  have c: "from_depth api (y_depth api y) c = fromYValue api c" if "y_depth api c < y_depth api y" for c
    unfolding fromYValue_def by (rule from_depth_mono [OF assms]) (use that in simp_all)
  show ?thesis
    unfolding e from_depth.simps [of api "Suc (y_depth api y)"]
    using y_view_array(4) [OF assms] y_view_VMap(3) [OF assms] by (auto simp: c split: yview.split)
qed

section \<open>What a working copy represents\<close>

inductive represents :: "'y yapi \<Rightarrow> 'y \<Rightarrow> jsval \<Rightarrow> jstr option \<Rightarrow> bool" for api where
  rep_text: "y_view api y = VText s \<Longrightarrow> is_collaborative k \<Longrightarrow> represents api y (JStr s) k"
| rep_scalar: "y_view api y = VScalar v \<Longrightarrow> scalar v \<Longrightarrow> represents api y v k"
| rep_array: "y_view api y = VArr ys \<Longrightarrow> list_all2 (\<lambda>c v. represents api c v None) ys vs \<Longrightarrow>
     represents api y (JArr vs) k"
| rep_map: "views_map api y m \<Longrightarrow> distinct (map fst fs) \<Longrightarrow> dom m = fst ` set fs \<Longrightarrow>
     (\<And>p. p \<in> set fs \<Longrightarrow> \<exists>c. m (fst p) = Some c \<and> represents api c (snd p) (Some (fst p))) \<Longrightarrow>
     represents api y (JObj fs) k"

inductive_cases represents_arr: "represents api y (JArr vs) k"
inductive_cases represents_obj: "represents api y (JObj fs) k"
inductive_cases represents_str: "represents api y (JStr s) k"

lemma represents_normal:
  assumes "y_laws api" "represents api y v k"
  shows "normal (fromYValue api y) = normal v"
  using assms(2)
proof (induction rule: represents.induct)
  case (rep_array y ys vs k)
  then have "map (normal \<circ> fromYValue api) ys = map normal vs"
    by (intro list.rel_eq [THEN fun_cong, THEN fun_cong, THEN iffD1])
      (simp add: list.rel_map list_all2_mono)
  with rep_array(1) show ?case by (simp add: fromYValue_view [OF assms(1)])
next
  case (rep_map y m fs k)
  obtain kvs where kvs: "y_view api y = VMap kvs" "distinct (map fst kvs)" "map_of kvs = m"
    using views_map_D [OF rep_map(1)] by metis
  let ?gs = "map (\<lambda>p. (fst p, fromYValue api (snd p))) kvs"
  have g: "getp ?gs j = (case m j of None \<Rightarrow> JUndef | Some c \<Rightarrow> fromYValue api c)" for j
    using kvs(3) by (auto simp: getp_def map_of_map [where f = "fromYValue api", unfolded case_prod_unfold] split: option.split
        simp del: map_of_map) (simp_all add: comp_def)
  have "normal (JObj ?gs) = normal (JObj fs)"
  proof (rule live_fields_getp)
    show "distinct (map fst ?gs)" using kvs(2) by (simp add: comp_def)
    show "distinct (map fst fs)" by fact
    show "normal (getp ?gs j) = normal (getp fs j)" for j
    proof (cases "map_of fs j")
      case None
      then have "j \<notin> dom m" using rep_map(3) by (simp add: map_of_eq_None_iff)
      then have "m j = None" by (simp add: domIff)
      with None show ?thesis by (simp add: g) (simp add: getp_def)
    next
      case (Some w)
      with rep_map(4) [of "(j, w)"] obtain c where "m j = Some c" "normal (fromYValue api c) = normal w"
        by (auto dest: map_of_SomeD)
      with Some show ?thesis by (simp add: g) (simp add: getp_def)
    qed
  qed
  with kvs(1) show ?case by (simp add: fromYValue_view [OF assms(1)])
qed (simp_all add: fromYValue_view [OF assms(1)])

section \<open>Documents the working copy can hold\<close>

text \<open>
  JSON with distinct keys, collaborative texts without surrogates, and block arrays whose blocks
  have distinct IDs.
\<close>

fun shareable :: "jstr option \<Rightarrow> jsval \<Rightarrow> bool" where
  "shareable k (JStr s) \<longleftrightarrow> (is_collaborative k \<longrightarrow> plain s)"
| "shareable k (JArr vs) \<longleftrightarrow>
     list_all (shareable None) vs \<and> (isBlockArray vs \<longrightarrow> distinct (map value_id vs))"
| "shareable k (JObj fs) \<longleftrightarrow> distinct (map fst fs) \<and> list_all (\<lambda>p. shareable (Some (fst p)) (snd p)) fs"
| "shareable k JUndef \<longleftrightarrow> False"
| "shareable k (JOther s) \<longleftrightarrow> False"
| "shareable k v \<longleftrightarrow> True"

lemma fold_map_set:
  assumes "y_laws api" "views_map api t m"
  shows "views_map api (fold (\<lambda>p m. map_set api (fst p) (f p) m) fs t) (fold (\<lambda>p m. m(fst p \<mapsto> f p)) fs m)"
  using assms(2) by (induction fs arbitrary: t m) (auto intro: y_view_map(1) [OF assms(1)])

lemma fold_upd_other: "j \<notin> fst ` set fs \<Longrightarrow> fold (\<lambda>p m. m(fst p \<mapsto> f p)) fs m j = m j"
  by (induction fs arbitrary: m) auto

lemma fold_upd_key:
  "distinct (map fst fs) \<Longrightarrow> p \<in> set fs \<Longrightarrow> fold (\<lambda>p m. m(fst p \<mapsto> f p)) fs m (fst p) = Some (f p)"
  by (induction fs arbitrary: m) (auto simp: fold_upd_other)

lemma toYValue_represents:
  "y_laws api \<Longrightarrow> shareable k v \<Longrightarrow> represents api (toYValue api v k) v k"
proof (induction api v k rule: toYValue.induct)
  case (1 api s k)
  note new = y_view_new [OF 1(1)]
  show ?case
  proof (cases "is_collaborative k")
    case True
    then have "y_view api (text_insert api 0 s (new_text api)) = VText s"
      using y_view_text(1) [OF 1(1) new(2), of 0 s] 1(2) by (simp add: ok_pos_def)
    with True show ?thesis by (auto intro: rep_text)
  next
    case False
    then show ?thesis by (auto intro!: rep_scalar simp: new scalar_def)
  qed
next
  case (2 api vs k)
  have "y_view api (array_insert api 0 (map (\<lambda>v. toYValue api v None) vs) (new_array api))
      = VArr (map (\<lambda>v. toYValue api v None) vs)"
    using y_view_array(1) [OF 2(2) y_view_new(3) [OF 2(2)]] by simp
  moreover have "list_all2 (\<lambda>c v. represents api c v None) (map (\<lambda>v. toYValue api v None) vs) vs"
    using 2 by (auto simp: list_all2_map1 list_all_iff intro: list.rel_refl_strong)
  ultimately show ?case by (auto intro: rep_array)
next
  case (3 api fs k)
  have d: "distinct (map fst fs)" using 3(3) by simp
  let ?f = "\<lambda>p. toYValue api (snd p) (Some (fst p))"
  let ?m = "fold (\<lambda>p m. m(fst p \<mapsto> ?f p)) fs Map.empty"
  have "views_map api (new_map api) Map.empty"
    using y_view_new(4) [OF 3(2)] by (simp add: views_map_def)
  then have "views_map api (toYValue api (JObj fs) k) ?m"
    using fold_map_set [OF 3(2)] by simp
  then show ?case
  proof (rule rep_map)
    show "dom ?m = fst ` set fs"
    proof (intro set_eqI iffI)
      show "j \<in> fst ` set fs" if "j \<in> dom ?m" for j
        by (rule ccontr) (use that fold_upd_other [of j fs ?f Map.empty] in \<open>simp add: domIff\<close>)
      show "j \<in> dom ?m" if "j \<in> fst ` set fs" for j
        using that fold_upd_key [OF d, of _ ?f Map.empty] by (auto simp: domIff)
    qed
    show "\<exists>c. ?m (fst p) = Some c \<and> represents api c (snd p) (Some (fst p))" if "p \<in> set fs" for p
      using fold_upd_key [OF d that, of ?f Map.empty] 3 that by (auto simp: list_all_iff)
  qed (rule d)
qed (auto intro!: rep_scalar simp: y_view_new scalar_def)

section \<open>Reconciliation\<close>

text \<open>
  What \<open>reconcileValue\<close> has to do: end, and where it returns true leave a value that represents
  the desired one.
\<close>

definition reconciles :: "'y yapi \<Rightarrow> 'y reconciler \<Rightarrow> jsval \<Rightarrow> jstr option \<Rightarrow> bool" where
  "reconciles api rec v k \<longleftrightarrow> (\<forall>c. \<exists>r. rec c v k = Inr r \<and>
     (\<forall>d. r = Some d \<longrightarrow> represents api d v k) \<and>
     (\<forall>fs kvs. v = JObj fs \<longrightarrow> y_view api c = VMap kvs \<longrightarrow> r \<noteq> None))"

lemma reconcilesE:
  assumes "reconciles api rec v k"
  obtains "rec c v k = Inr None" | d where "rec c v k = Inr (Some d)" "represents api d v k"
  using assms unfolding reconciles_def by (metis option.exhaust)

lemma reconciles_mapE:
  assumes "reconciles api rec (JObj fs) k" "y_view api c = VMap kvs"
  obtains d where "rec c (JObj fs) k = Inr (Some d)" "represents api d (JObj fs) k"
  using assms unfolding reconciles_def by (metis option.exhaust)

lemma reconcileText_view:
  assumes "y_laws api" "y_view api y = VText t" "plain s"
  shows "y_view api (reconcileText api y t s) = VText s"
proof (cases "t = s")
  case False
  obtain p n ins where e: "text_edit t s = (p, n, ins)" by (cases "text_edit t s") auto
  note edit = text_edit_apply [OF e]
  have pl: "\<not> surrogate (s ! i)" if "i < length s" for i
    using assms(3) that by (simp add: plain_def list_all_length)
  have le: "p \<le> length t" "p \<le> length s"
    using edit(1) arg_cong [OF edit(3), of length] by auto
  have pre: "\<not> surrogate (t ! (p - 1))" if "0 < p"
  proof -
    have "t ! (p - 1) = s ! (p - 1)" using arg_cong [OF edit(3), of "\<lambda>x. x ! (p - 1)"] that by simp
    with pl [of "p - 1"] that le show ?thesis by simp
  qed
  have ok: "ok_pos t p" using pre le by (simp add: ok_pos_def)
  have ok2: "ok_pos t (p + n)"
  proof -
    have "\<not> surrogate (t ! (p + n))" if "p + n < length t"
    proof -
      have "p + length ins < length s" using arg_cong [OF edit(4), of length] that by simp
      moreover have "t ! (p + n) = s ! (p + length ins)"
        using arg_cong [OF edit(4), of hd] that calculation by (simp add: hd_drop_conv_nth)
      ultimately show ?thesis using pl by simp
    qed
    with edit(1) show ?thesis by (simp add: ok_pos_def)
  qed
  have i: "plain ins" using edit(5) assms(3) by (auto simp: plain_def list_all_iff)
  define t' where "t' = (if n > 0 then text_delete api p n y else y)"
  have v: "y_view api t' = VText (take p t @ drop (p + n) t)"
    using y_view_text(2) [OF assms(1,2) ok ok2] assms(2) by (simp add: t'_def)
  have ok3: "ok_pos (take p t @ drop (p + n) t) p" using pre le by (simp add: ok_pos_def nth_append)
  have "y_view api (if ins \<noteq> [] then text_insert api p ins t' else t') = VText (take p t @ ins @ drop (p + n) t)"
    using y_view_text(1) [OF assms(1) v ok3 i] v edit(1) by simp
  then show ?thesis using False edit(2) by (simp add: reconcileText_def e t'_def [symmetric] Let_def del: if_split split: if_split_asm)
qed (use assms in \<open>simp add: reconcileText_def\<close>)

lemma reconcile_fields_represents:
  assumes "y_laws api" "\<And>p. p \<in> set fs \<Longrightarrow> reconciles api rec (snd p) (Some (fst p))"
    "\<And>p. p \<in> set fs \<Longrightarrow> shareable (Some (fst p)) (snd p)" "views_map api t m" "distinct (map fst fs)"
  shows "\<exists>t' m'. reconcile_fields api rec fs t = Inr t' \<and> views_map api t' m' \<and>
     dom m' = dom m \<union> fst ` set fs \<and> (\<forall>j. j \<notin> fst ` set fs \<longrightarrow> m' j = m j) \<and>
     (\<forall>p \<in> set fs. \<exists>c. m' (fst p) = Some c \<and> represents api c (snd p) (Some (fst p)))"
  using assms(2-)
proof (induction fs arbitrary: t m)
  case (Cons p fs)
  note IH = Cons.IH [OF Cons.prems(1,2)]
  obtain kvs where e: "map_of (entries api t) = m" using views_map_D [OF Cons.prems(3)] by metis
  have "shareable (Some (fst p)) (snd p)" using Cons.prems(2) by simp
  then have new: "represents api (toYValue api (snd p) (Some (fst p))) (snd p) (Some (fst p))"
    and "snd p \<noteq> JUndef"
    using toYValue_represents [OF assms(1)] by auto
  have step: "\<exists>c t1. reconcile_fields api rec (p # fs) t = reconcile_fields api rec fs t1 \<and>
      represents api c (snd p) (Some (fst p)) \<and> views_map api t1 (m(fst p \<mapsto> c))"
  proof (cases "m (fst p)")
    case None
    then show ?thesis
      using new y_view_map(1) [OF assms(1) Cons.prems(3)] \<open>snd p \<noteq> JUndef\<close> by (auto simp: e)
  next
    case (Some c)
    from Cons.prems(1) have "reconciles api rec (snd p) (Some (fst p))" by simp
    then consider "rec c (snd p) (Some (fst p)) = Inr None"
      | d where "rec c (snd p) (Some (fst p)) = Inr (Some d)" "represents api d (snd p) (Some (fst p))"
      by (rule reconcilesE)
    then show ?thesis
    proof cases
      case 1
      then show ?thesis using new Some y_view_map(1) [OF assms(1) Cons.prems(3)] by (auto simp: e)
    next
      case 2
      moreover have "views_map api (map_child api (fst p) d t) (m(fst p \<mapsto> d))"
        using Some y_view_map(3) [OF assms(1) Cons.prems(3)] by (simp add: domIff)
      ultimately show ?thesis using Some by (intro exI conjI) (simp_all add: e)
    qed
  qed
  then obtain c t1 where t1: "reconcile_fields api rec (p # fs) t = reconcile_fields api rec fs t1"
    "represents api c (snd p) (Some (fst p))" "views_map api t1 (m(fst p \<mapsto> c))" by blast
  have "distinct (map fst fs)" "fst p \<notin> fst ` set fs" using Cons.prems(4) by simp_all
  from IH [OF _ _ t1(3) this(1)] obtain t' m' where r: "reconcile_fields api rec fs t1 = Inr t'" "views_map api t' m'"
    "dom m' = dom (m(fst p \<mapsto> c)) \<union> fst ` set fs" "\<forall>j. j \<notin> fst ` set fs \<longrightarrow> m' j = (m(fst p \<mapsto> c)) j"
    "\<forall>p \<in> set fs. \<exists>c. m' (fst p) = Some c \<and> represents api c (snd p) (Some (fst p))"
    by (metis list.set_intros(2))
  have "m' (fst p) = Some c" using r(4) \<open>fst p \<notin> fst ` set fs\<close> by simp
  moreover have "dom m' = dom m \<union> fst ` set (p # fs)" using r(3) by auto
  moreover have "\<forall>j. j \<notin> fst ` set (p # fs) \<longrightarrow> m' j = m j" using r(4) by simp
  ultimately show ?case using r(1,2,5) t1(1,2)
    by (intro exI [of _ t'] exI [of _ m']) (simp del: reconcile_fields.simps)
qed auto

lemma drop_keys_views:
  assumes "y_laws api" "views_map api t m"
  shows "views_map api (drop_keys api fs t) (m |` (fst ` set fs))"
proof -
  have "views_map api (fold (\<lambda>k t. if k \<in> fst ` set fs then t else map_delete api k t) ks t)
      (m |` (- (set ks - fst ` set fs)))" if "views_map api t m" for ks t and m :: "jstr \<rightharpoonup> 'a"
    using that
  proof (induction ks arbitrary: t m)
    case (Cons k ks)
    show ?case
    proof (cases "k \<in> fst ` set fs")
      case True
      with Cons show ?thesis by simp
    next
      case False
      have "(m(k := None)) |` (- (set ks - fst ` set fs)) = m |` (- (set (k # ks) - fst ` set fs))"
        using False by (auto simp: restrict_map_def)
      with Cons.IH [OF y_view_map(2) [OF assms(1) Cons.prems, of k]] False show ?thesis
        by (simp del: fun_upd_apply restrict_fun_upd)
    qed
  qed (simp add: restrict_map_def)
  note * = this [OF assms(2), of "map fst (entries api t)"]
  obtain kvs where "map_of (entries api t) = m" using views_map_D [OF assms(2)] by metis
  with dom_map_of_conv_image_fst [of "entries api t"] have d: "set (map fst (entries api t)) = dom m" by simp
  have "m |` (- (dom m - fst ` set fs)) = m |` (fst ` set fs)"
    by (auto simp: restrict_map_def domIff)
  with * show ?thesis unfolding d drop_keys_def by simp
qed

lemma reconcileMap_represents:
  assumes "y_laws api" "\<And>p. p \<in> set fs \<Longrightarrow> reconciles api rec (snd p) (Some (fst p))"
    "shareable k (JObj fs)" "y_view api t = VMap kvs"
  shows "\<exists>t'. reconcileMap_with api rec fs t = Inr t' \<and> represents api t' (JObj fs) k"
proof -
  have s: "\<And>p. p \<in> set fs \<Longrightarrow> shareable (Some (fst p)) (snd p)" and d: "distinct (map fst fs)"
    using assms(3) by (auto simp: list_all_iff)
  obtain t' m' where "reconcileMap_with api rec fs t = Inr t'" "views_map api t' m'"
    "dom m' = dom (map_of kvs |` (fst ` set fs)) \<union> fst ` set fs"
    "\<forall>p \<in> set fs. \<exists>c. m' (fst p) = Some c \<and> represents api c (snd p) (Some (fst p))"
    using reconcile_fields_represents [OF assms(1,2) s drop_keys_views [OF assms(1) y_view_VMap(1) [OF assms(1,4)]] d]
    unfolding reconcileMap_with_def by metis
  then show ?thesis using d by (auto intro!: rep_map)
qed

lemma elements_VArr [simp]: "y_view api y = VArr ys \<Longrightarrow> elements api y = ys"
  by (simp add: elements_def)

text \<open>The array \<open>y\<close> starts with values that represent \<open>vs\<close>.\<close>

definition starts_as :: "'y yapi \<Rightarrow> 'y \<Rightarrow> jsval list \<Rightarrow> bool" where
  "starts_as api y vs \<longleftrightarrow> (\<exists>ys. y_view api y = VArr ys \<and> length vs \<le> length ys \<and>
     list_all2 (\<lambda>c v. represents api c v None) (take (length vs) ys) vs)"

lemma starts_as_snoc:
  assumes "y_view api y = VArr ys" "list_all2 (\<lambda>c v. represents api c v None) (take (length vs) ys) vs"
    "length vs < length ys" "represents api (ys ! length vs) v None"
  shows "starts_as api y (vs @ [v])"
  unfolding starts_as_def using assms
  by (intro exI [of _ ys]) (simp add: take_Suc_conv_app_nth list_all2_appendI)

lemma truncate_represents:
  assumes "y_laws api" "starts_as api y vs"
  shows "represents api (truncate_array api (length vs) y) (JArr vs) k"
proof -
  obtain ys where ys: "y_view api y = VArr ys" "length vs \<le> length ys"
    "list_all2 (\<lambda>c v. represents api c v None) (take (length vs) ys) vs"
    using assms(2) by (auto simp: starts_as_def)
  have "y_view api (truncate_array api (length vs) y) = VArr (take (length vs) ys)"
    using ys(1,2) y_view_array(2) [OF assms(1) ys(1), of "length vs" "length ys - length vs"]
    by (auto simp: truncate_array_def Let_def)
  with ys(3) show ?thesis by (rule rep_array [rotated])
qed

lemma reconcile_items_starts:
  assumes "y_laws api" "\<And>v. v \<in> set vs \<Longrightarrow> reconciles api rec v None" "list_all (shareable None) vs"
    "starts_as api t us"
  shows "\<exists>t'. reconcile_items api rec (length us) vs t = Inr t' \<and> starts_as api t' (us @ vs)"
  using assms(2-)
proof (induction vs arbitrary: us t)
  case (Cons v vs)
  obtain ys where ys: "y_view api t = VArr ys" "length us \<le> length ys"
    "list_all2 (\<lambda>c v. represents api c v None) (take (length us) ys) us"
    using Cons.prems(3) by (auto simp: starts_as_def)
  have new: "represents api (toYValue api v None) v None"
    using toYValue_represents [OF assms(1)] Cons.prems(2) by simp
  have "\<exists>t1. reconcile_items api rec (length us) (v # vs) t = reconcile_items api rec (Suc (length us)) vs t1 \<and>
      starts_as api t1 (us @ [v])"
  proof (cases "length ys \<le> length us")
    case True
    then show ?thesis
      using ys new y_view_array(1) [OF assms(1) ys(1), of "length us" "[toYValue api v None]"]
      by (intro exI [of _ "array_insert api (length us) [toYValue api v None] t"])
        (auto intro!: starts_as_snoc simp: nth_append)
  next
    case False
    have "reconciles api rec v None" using Cons.prems(1) by simp
    then consider "rec (ys ! length us) v None = Inr None"
      | d where "rec (ys ! length us) v None = Inr (Some d)" "represents api d v None"
      by (rule reconcilesE)
    then show ?thesis
    proof cases
      case 1
      define t0 where "t0 = array_delete api (length us) 1 t"
      have v0: "y_view api t0 = VArr (take (length us) ys @ drop (length us + 1) ys)"
        unfolding t0_def using False y_view_array(2) [OF assms(1) ys(1), of "length us" 1] by simp
      then have "y_view api (array_insert api (length us) [toYValue api v None] t0)
          = VArr (take (length us) ys @ toYValue api v None # drop (length us + 1) ys)"
        using False y_view_array(1) [OF assms(1) v0, of "length us" "[toYValue api v None]"] by simp
      then have "starts_as api (array_insert api (length us) [toYValue api v None] t0) (us @ [v])"
        using ys(3) new False by (auto intro!: starts_as_snoc simp: nth_append)
      with 1 False ys(1) show ?thesis by (auto simp: t0_def)
    next
      case 2
      have "y_view api (array_child api (length us) d t) = VArr (ys[length us := d])"
        using False y_view_array(3) [OF assms(1) ys(1)] by simp
      then have "starts_as api (array_child api (length us) d t) (us @ [v])"
        using ys(3) 2 False by (auto intro!: starts_as_snoc)
      with 2 False ys(1) show ?thesis by auto
    qed
  qed
  then obtain t1 where t1: "reconcile_items api rec (length us) (v # vs) t = reconcile_items api rec (Suc (length us)) vs t1"
    "starts_as api t1 (us @ [v])" by blast
  have "\<exists>t'. reconcile_items api rec (length (us @ [v])) vs t1 = Inr t' \<and> starts_as api t' ((us @ [v]) @ vs)"
    using Cons.prems by (intro Cons.IH t1(2)) auto
  with t1(1) show ?case by simp
qed simp

text \<open>A block's ID is a scalar of the working copy, and is found there.\<close>

lemma represents_block_id:
  assumes "represents api y v k" "value_id v = Some i" "distinct (map fst fs)" "v = JObj fs"
  shows "block_id_of api y = Some i"
proof -
  have "getp fs (js ''id'') = JStr i" using assms(2,4) by (auto simp: value_id_def split: jsval.splits)
  then have m: "(js ''id'', JStr i) \<in> set fs" using getp_mem by fastforce
  obtain m where v: "views_map api y m"
    and f: "\<And>p. p \<in> set fs \<Longrightarrow> \<exists>c. m (fst p) = Some c \<and> represents api c (snd p) (Some (fst p))"
    using assms(1,4) by (auto elim: represents_obj simp: scalar_def)
  from f [OF m] obtain c where c: "m (js ''id'') = Some c" "represents api c (JStr i) (Some (js ''id''))" by auto
  have "\<not> is_collaborative (Some (js ''id''))" by (simp add: is_collaborative_def collaborative_text_fields_def)
  with c(2) have "y_view api c = VScalar (JStr i)" by (auto elim: represents_str)
  moreover obtain kvs where "map_of (entries api y) = m" using views_map_D [OF v] by metis
  ultimately show ?thesis using c(1) by (simp add: block_id_of_def)
qed

lemma find_index_Some:
  "find_index P xs = Some j \<Longrightarrow> j < length xs \<and> P (xs ! j)"
  by (induction xs arbitrary: j) (auto split: if_splits)

lemma find_index_skip:
  assumes "find_index P xs = Some j" "\<And>i. i < n \<Longrightarrow> \<not> P (xs ! i)"
  shows "n \<le> j"
  using find_index_Some [OF assms(1)] assms(2) [of j] by (cases "j < n") auto

lemma block_id_map: "block_id_of api y = Some i \<Longrightarrow> \<exists>kvs. y_view api y = VMap kvs"
  by (auto simp: block_id_of_def entries_def split: yview.splits option.splits)

lemma moved_is_map:
  assumes "y_laws api" "y_view api c = VMap kvs"
  shows "\<exists>kvs'. y_view api (toYValue api (fromYValue api c) None) = VMap kvs'"
proof -
  have "views_map api (new_map api) Map.empty" using y_view_new(4) [OF assms(1)] by (simp add: views_map_def)
  from fold_map_set [OF assms(1) this] fromYValue_view [OF assms(1), of c] assms(2)
  show ?thesis by (fastforce simp: views_map_def)
qed

lemma represents_map_view:
  "represents api y (JObj fs) k \<Longrightarrow> \<exists>kvs. y_view api y = VMap kvs"
  by (auto elim!: represents_obj simp: scalar_def views_map_def)

text \<open>Where the block of position \<open>length us\<close> comes from: it is inserted, or moved there from behind.\<close>

lemma place_block:
  assumes "y_laws api" "y_view api t = VArr ys" "length us \<le> length ys"
    "list_all2 (\<lambda>c v. represents api c v None) (take (length us) ys) us"
    "\<And>u. u \<in> set us \<Longrightarrow> value_id u \<noteq> Some i" "isBlockArray us" "list_all (shareable None) us"
    "represents api (toYValue api (JObj fs) None) (JObj fs) None"
  shows "\<exists>t1 zs c kvs. (case findBlockIndex api i t of
        None \<Rightarrow> Inr (array_insert api (length us) [toYValue api (JObj fs) None] t)
      | Some j \<Rightarrow> if j \<noteq> length us then moveYjsArrayItem api j (length us) t else Inr t) = Inr t1 \<and>
      y_view api t1 = VArr (take (length us) ys @ c # zs) \<and> y_view api c = VMap kvs"
proof (cases "findBlockIndex api i t")
  case None
  then show ?thesis
    using represents_map_view [OF assms(8)] y_view_array(1) [OF assms(1,2,3), of "[toYValue api (JObj fs) None]"]
    by auto
next
  case (Some j)
  then have fi: "find_index (\<lambda>y. block_id_of api y = Some i) ys = Some j"
    using assms(2) by (simp add: findBlockIndex_def)
  then have j: "j < length ys" "block_id_of api (ys ! j) = Some i"
    using find_index_Some by blast+
  have "\<not> block_id_of api (ys ! n) = Some i" if n: "n < length us" for n
  proof -
    have r: "represents api (ys ! n) (us ! n) None"
      using list_all2_nthD [OF assms(4)] n assms(3) by simp
    have "value_id (us ! n) \<noteq> None" "shareable None (us ! n)"
      using assms(6,7) n by (auto simp: isBlockArray_def list_all_length)
    then obtain gs k where "us ! n = JObj gs" "value_id (us ! n) = Some k" "distinct (map fst gs)"
      by (cases "us ! n") (auto simp: value_id_def)
    moreover have "us ! n \<in> set us" using n by simp
    moreover have "block_id_of api (ys ! n) = Some k"
      using represents_block_id [OF r calculation(2,3,1)] .
    ultimately show ?thesis using assms(5) [of "us ! n"] by auto
  qed
  then have le: "length us \<le> j" by (rule find_index_skip [OF fi])
  obtain kvs where kvs: "y_view api (ys ! j) = VMap kvs" using block_id_map [OF j(2)] by blast
  show ?thesis
  proof (cases "j = length us")
    case True
    have "y_view api t = VArr (take (length us) ys @ ys ! j # drop (Suc j) ys)"
      using assms(2) id_take_nth_drop [OF j(1)] True by simp
    with True Some kvs show ?thesis by simp
  next
    case False
    let ?c = "toYValue api (fromYValue api (ys ! j)) None"
    have v: "y_view api (array_delete api j 1 t) = VArr (take j ys @ drop (j + 1) ys)"
      using j(1) y_view_array(2) [OF assms(1,2), of j 1] by simp
    have "y_view api (array_insert api (length us) [?c] (array_delete api j 1 t)) =
        VArr (take (length us) ys @ ?c # drop (length us) (take j ys @ drop (j + 1) ys))"
      using y_view_array(1) [OF assms(1) v, of "length us" "[?c]"] le j(1) by (simp add: min_def)
    moreover have "moveYjsArrayItem api j (length us) t =
        Inr (array_insert api (length us) [?c] (array_delete api j 1 t))"
      using False j(1) le assms(2) by (simp add: moveYjsArrayItem_def)
    ultimately show ?thesis using moved_is_map [OF assms(1) kvs] Some False by auto
  qed
qed

lemma reconcile_blocks_starts:
  assumes "y_laws api" "\<And>v. v \<in> set vs \<Longrightarrow> reconciles api rec v None" "list_all (shareable None) (us @ vs)"
    "isBlockArray (us @ vs)" "distinct (map value_id (us @ vs))" "starts_as api t us"
  shows "\<exists>t'. reconcile_blocks api rec (length us) vs t = Inr t' \<and> starts_as api t' (us @ vs)"
  using assms(2-)
proof (induction vs arbitrary: us t)
  case (Cons v vs)
  obtain ys where ys: "y_view api t = VArr ys" "length us \<le> length ys"
    "list_all2 (\<lambda>c v. represents api c v None) (take (length us) ys) us"
    using Cons.prems(5) by (auto simp: starts_as_def)
  obtain i fs where v: "value_id v = Some i" "v = JObj fs"
    using Cons.prems(3) by (cases v) (auto simp: isBlockArray_def value_id_def)
  have new: "represents api (toYValue api (JObj fs) None) (JObj fs) None"
    using Cons.prems(2) v(2) by (intro toYValue_represents [OF assms(1)]) simp
  have us: "\<And>u. u \<in> set us \<Longrightarrow> value_id u \<noteq> Some i" "isBlockArray us" "list_all (shareable None) us"
    using Cons.prems(2-4) v(1) by (force simp: isBlockArray_def)+
  obtain t1 zs c kvs where t1: "(case findBlockIndex api i t of
        None \<Rightarrow> Inr (array_insert api (length us) [toYValue api (JObj fs) None] t)
      | Some j \<Rightarrow> if j \<noteq> length us then moveYjsArrayItem api j (length us) t else Inr t) = Inr t1"
    "y_view api t1 = VArr (take (length us) ys @ c # zs)" "y_view api c = VMap kvs"
    using place_block [OF assms(1) ys us new] by blast
  have nth: "elements api t1 ! length us = c" using t1(2) ys(2) by (simp add: nth_append min_def)
  have "reconciles api rec v None" using Cons.prems(1) by simp
  then obtain d where d: "rec c v None = Inr (Some d)" "represents api d v None"
    using v(2) t1(3) by (auto elim!: reconciles_mapE)
  have "y_view api (array_child api (length us) d t1) = VArr (take (length us) ys @ d # zs)"
    using y_view_array(3) [OF assms(1) t1(2), of "length us" d] ys(2) by (simp add: list_update_append min_def)
  then have s: "starts_as api (array_child api (length us) d t1) (us @ [v])"
    using ys(2,3) d(2) by (auto intro!: starts_as_snoc simp: nth_append min_def)
  have step: "reconcile_blocks api rec (length us) (v # vs) t =
      reconcile_blocks api rec (length (us @ [v])) vs (array_child api (length us) d t1)"
    using t1 d(1) nth v by simp
  have "\<exists>t'. reconcile_blocks api rec (length (us @ [v])) vs (array_child api (length us) d t1) = Inr t' \<and>
      starts_as api t' ((us @ [v]) @ vs)"
    using Cons.prems by (intro Cons.IH s) auto
  with step show ?case by simp
qed simp

lemma reconcileArray_represents:
  assumes "y_laws api" "\<And>v. v \<in> set vs \<Longrightarrow> reconciles api rec v None" "shareable k (JArr vs)" "y_view api t = VArr ys"
  shows "\<exists>t'. reconcileArray_with api rec vs t = Inr t' \<and> represents api t' (JArr vs) k"
proof -
  have s: "starts_as api t []" using assms(4) by (simp add: starts_as_def)
  have "\<exists>t'. (if isBlockArray vs then reconcile_blocks api rec 0 vs t else reconcile_items api rec 0 vs t) = Inr t' \<and>
      starts_as api t' vs"
    using reconcile_blocks_starts [OF assms(1,2) _ _ _ s] reconcile_items_starts [OF assms(1,2) _ s] assms(3) by simp
  then show ?thesis using truncate_represents [OF assms(1)] by (auto simp: reconcileArray_with_def)
qed

lemma reconcileValue_reconciles:
  assumes "y_laws api"
  shows "shareable k v \<Longrightarrow> reconciles api (reconcileValue api) v k"
proof (induction "size v" arbitrary: v k rule: less_induct)
  case less
  have "\<exists>r. reconcile_step api (reconcileValue api) c v k = Inr r \<and> (\<forall>d. r = Some d \<longrightarrow> represents api d v k) \<and>
     (\<forall>fs kvs. v = JObj fs \<longrightarrow> y_view api c = VMap kvs \<longrightarrow> r \<noteq> None)" for c
  proof (cases v)
    case (JArr vs)
    have IH: "reconciles api (reconcileValue api) w None" if "w \<in> set vs" for w
      using less that size_items_less [OF that] by (simp add: JArr list_all_iff)
    show ?thesis
      using reconcileArray_represents [OF assms IH less(2) [unfolded JArr]]
      by (auto simp: reconcile_step_def JArr same_value_def split: yview.split) fastforce
  next
    case (JObj fs)
    have IH: "reconciles api (reconcileValue api) (snd p) (Some (fst p))" if "p \<in> set fs" for p
      using less that size_fields_less [OF that] by (simp add: JObj list_all_iff)
    show ?thesis
      using reconcileMap_represents [OF assms IH less(2) [unfolded JObj]]
      by (auto simp: reconcile_step_def JObj same_value_def split: yview.split) fastforce
  next
    case (JStr s)
    show ?thesis
      using less(2) reconcileText_view [OF assms]
      by (auto simp: reconcile_step_def JStr same_value_def scalar_def split: yview.split
          intro: rep_text rep_scalar)
  qed (auto simp: reconcile_step_def same_value_def scalar_def split: yview.split intro: rep_scalar)
  then show ?case unfolding reconciles_def by (simp add: reconcileValue.simps)
qed

lemma sync_represents:
  assumes "y_laws api" "y_view api root = VMap kvs" "shareable None (JObj doc)"
  shows "\<exists>root'. syncYjsAst api doc root = Inr root' \<and> represents api root' (JObj doc) None"
proof -
  have "reconciles api (reconcileValue api) (snd p) (Some (fst p))" if "p \<in> set doc" for p
    using assms(3) that by (intro reconcileValue_reconciles [OF assms(1)]) (simp add: list_all_iff)
  from reconcileMap_represents [OF assms(1) this assms(3,2)]
  show ?thesis by (simp add: syncYjsAst_def reconcileMap_def)
qed

text \<open>The list with the item of one position taken out and put at another.\<close>

definition move_at :: "nat \<Rightarrow> nat \<Rightarrow> 'a list \<Rightarrow> 'a list" where
  "move_at from_i to_i xs =
     (let rest = take from_i xs @ drop (Suc from_i) xs in take to_i rest @ xs ! from_i # drop to_i rest)"

section \<open>An instance of the laws\<close>

datatype ytree = YText jstr | YArr "ytree list" | YMap "(jstr \<times> ytree) list" | YScalar jsval

fun tree_view :: "ytree \<Rightarrow> ytree yview" where
  "tree_view (YText s) = VText s"
| "tree_view (YArr ys) = VArr ys"
| "tree_view (YMap kvs) = VMap (AList.clearjunk kvs)"
| "tree_view (YScalar v) = VScalar v"

fun on_text :: "(jstr \<Rightarrow> jstr) \<Rightarrow> ytree \<Rightarrow> ytree" where
  "on_text f (YText s) = YText (f s)"
| "on_text f y = y"

fun on_array :: "(ytree list \<Rightarrow> ytree list) \<Rightarrow> ytree \<Rightarrow> ytree" where
  "on_array f (YArr ys) = YArr (f ys)"
| "on_array f y = y"

fun on_map :: "((jstr \<times> ytree) list \<Rightarrow> (jstr \<times> ytree) list) \<Rightarrow> ytree \<Rightarrow> ytree" where
  "on_map f (YMap kvs) = YMap (f kvs)"
| "on_map f y = y"

definition tree_api :: "ytree yapi" where
  "tree_api = \<lparr>y_view = tree_view, y_depth = size, y_scalar = YScalar,
     new_text = YText [], new_array = YArr [], new_map = YMap [],
     text_insert = (\<lambda>p s. on_text (\<lambda>t. take p t @ s @ drop p t)),
     text_delete = (\<lambda>p n. on_text (\<lambda>t. take p t @ drop (p + n) t)),
     array_insert = (\<lambda>p ys. on_array (\<lambda>xs. take p xs @ ys @ drop p xs)),
     array_delete = (\<lambda>p n. on_array (\<lambda>xs. take p xs @ drop (p + n) xs)),
     array_child = (\<lambda>p c. on_array (\<lambda>xs. xs[p := c])),
     map_set = (\<lambda>k c. on_map (AList.update k c)),
     map_delete = (\<lambda>k. on_map (AList.delete k)),
     map_child = (\<lambda>k c. on_map (AList.update k c))\<rparr>"

lemma tree_view_iff:
  "tree_view y = VText s \<longleftrightarrow> y = YText s" "tree_view y = VArr ys \<longleftrightarrow> y = YArr ys"
  "tree_view y = VMap kvs \<longleftrightarrow> (\<exists>l. y = YMap l \<and> AList.clearjunk l = kvs)"
  by (cases y; auto)+

lemma tree_size_array: "c \<in> set ys \<Longrightarrow> size c < size (YArr ys)"
  by (induction ys) auto

lemma tree_size_map: "p \<in> set kvs \<Longrightarrow> size (snd p) < size (YMap kvs)"
  by (induction kvs) (auto split: prod.splits)

lemma clearjunk_mem: "p \<in> set (AList.clearjunk kvs) \<Longrightarrow> p \<in> set kvs"
  by (metis distinct_clearjunk map_of_SomeD map_of_clearjunk map_of_eq_Some_iff prod.collapse)

lemma tree_laws: "y_laws tree_api"
proof -
  have "new_laws tree_api" by (simp add: new_laws_def tree_api_def)
  moreover have "tree_laws tree_api"
    using tree_size_array tree_size_map [OF clearjunk_mem]
    by (auto simp: tree_laws_def tree_api_def tree_view_iff distinct_clearjunk)
  moreover have "text_laws tree_api" by (auto simp: text_laws_def tree_api_def tree_view_iff)
  moreover have "array_laws tree_api" by (auto simp: array_laws_def tree_api_def tree_view_iff)
  moreover have "map_laws tree_api"
    by (auto simp: map_laws_def tree_api_def tree_view_iff views_map_def map_of_clearjunk distinct_clearjunk
        update_conv' delete_conv')
  ultimately show ?thesis by (simp add: y_laws_def)
qed

section \<open>Properties\<close>

lemma hash_normal: "normal v = normal w \<Longrightarrow> contentHash sha v = contentHash sha w"
  using writeCanonical_normal by (metis contentHash_def canonicalJson_def)


definition sample_fields :: "string \<Rightarrow> fields" where
  "sample_fields s = [(js ''children'', JArr
     [JObj [(js ''id'', JStr (js ''b'')), (js ''content'', JStr (js s))],
      JObj [(js ''id'', JStr (js ''a'')), (js ''level'', JNum (Dec False 2 0)), (js ''content'', JArr [])]])]"

definition sample_root :: ytree where
  "sample_root = YMap [(js ''old'', YScalar JNull), (js ''children'',
     YArr [YMap [(js ''id'', YScalar (JStr (js ''a'')))], YScalar JNull, YMap [(js ''id'', YScalar (JStr (js ''b'')))]])]"

lemma sample_shareable: "shareable None (JObj (sample_fields ''x''))"
  by code_simp


text \<open>C36: the edit a text is reconciled with turns it into the desired text and touches only what
  differs: what both texts start with and what both end with is neither deleted nor inserted, and
  what is deleted and what is inserted begin and end differently.\<close>

theorem text_edit_minimal:
  assumes "text_edit current desired = (p, n, ins)"
  shows "take p current @ ins @ drop (p + n) current = desired \<and>
    (n \<noteq> 0 \<and> ins \<noteq> [] \<longrightarrow> current ! p \<noteq> hd ins \<and> current ! (p + n - 1) \<noteq> last ins)"
proof (intro conjI impI)
  show "take p current @ ins @ drop (p + n) current = desired" by (rule text_edit_apply [OF assms])
  assume ne: "n \<noteq> 0 \<and> ins \<noteq> []"
  define s where "s = common_prefix (rev (drop p current)) (rev (drop p desired))"
  have p: "p = common_prefix current desired" and n: "n = length current - p - s"
    and i: "ins = take (length desired - s - p) (drop p desired)"
    using assms by (auto simp: text_edit_def Let_def s_def slice_def)
  have lt: "p < length current - s" "p < length desired - s" using ne n i by auto
  show "current ! p \<noteq> hd ins"
    using common_prefix_stop [of current desired, folded p] lt by (simp add: i hd_drop_conv_nth)
  have "rev (drop p current) ! s \<noteq> rev (drop p desired) ! s"
    using common_prefix_stop [of "rev (drop p current)" "rev (drop p desired)", folded s_def] lt by simp
  then have "current ! (length current - Suc s) \<noteq> desired ! (length desired - Suc s)"
    using lt by (simp add: rev_nth)
  moreover have "last ins = desired ! (length desired - Suc s)"
    using lt by (subst last_conv_nth) (auto simp: i nth_append)
  moreover have "p + n - 1 = length current - Suc s" using lt by (simp add: n)
  ultimately show "current ! (p + n - 1) \<noteq> last ins" by simp
qed

lemma text_edit_minimal_witness:
  "text_edit (js ''abc'') (js ''axyc'') = (1, 1, js ''xy'') \<and>
   take 1 (js ''abc'') @ js ''xy'' @ drop (1 + 1) (js ''abc'') = js ''axyc''"
proof -
  have e: "text_edit (js ''abc'') (js ''axyc'') = (1, 1, js ''xy'')" by code_simp
  with text_edit_minimal [OF e] show ?thesis by blast
qed

text \<open>Moving an item of a shared array throws exactly when an index is outside the array, and otherwise
  takes the item from its place and puts it at its new one, with its content and IDs.\<close>

theorem move_item:
  assumes "y_laws api" "y_view api arr = VArr ys"
    "from_i < length ys \<Longrightarrow> shareable None (fromYValue api (ys ! from_i))"
  shows "case moveYjsArrayItem api from_i to_i arr of
     Inl e \<Rightarrow> from_i \<ge> length ys \<or> to_i \<ge> length ys
   | Inr arr' \<Rightarrow> from_i < length ys \<and> to_i < length ys \<and>
       map (normal \<circ> fromYValue api) (elements api arr') = map (normal \<circ> fromYValue api) (move_at from_i to_i ys)"
proof (cases "from_i < length ys \<and> to_i < length ys \<and> from_i \<noteq> to_i")
  case True
  let ?c = "toYValue api (fromYValue api (ys ! from_i)) None"
  have c: "normal (fromYValue api ?c) = normal (fromYValue api (ys ! from_i))"
    using toYValue_represents [OF assms(1)] assms(3) True by (intro represents_normal [OF assms(1)]) simp
  have v: "y_view api (array_delete api from_i 1 arr) = VArr (take from_i ys @ drop (Suc from_i) ys)"
    using True y_view_array(2) [OF assms(1,2), of from_i 1] by simp
  have "y_view api (array_insert api to_i [?c] (array_delete api from_i 1 arr)) =
      VArr (take to_i (take from_i ys @ drop (Suc from_i) ys) @ ?c # drop to_i (take from_i ys @ drop (Suc from_i) ys))"
    using True y_view_array(1) [OF assms(1) v, of to_i "[?c]"] by fastforce
  then show ?thesis using True assms(2) c by (simp add: moveYjsArrayItem_def move_at_def)
next
  case False
  then show ?thesis
    using assms(2) arg_cong [OF id_take_nth_drop [of from_i ys], of "map (normal \<circ> fromYValue api)"]
    by (auto simp: moveYjsArrayItem_def move_at_def)
qed

lemma move_item_witness:
  "case moveYjsArrayItem tree_api 0 1 (YArr [YText [], YArr []]) of
     Inl e \<Rightarrow> 0 \<ge> length [YText [], YArr []] \<or> 1 \<ge> length [YText [], YArr []]
   | Inr arr' \<Rightarrow> 0 < length [YText [], YArr []] \<and> 1 < length [YText [], YArr []] \<and>
       map (normal \<circ> fromYValue tree_api) (elements tree_api arr') =
       map (normal \<circ> fromYValue tree_api) (move_at 0 1 [YText [], YArr []])"
proof (rule move_item [OF tree_laws])
  show "y_view tree_api (YArr [YText [], YArr []]) = VArr [YText [], YArr []]" by code_simp
  show "shareable None (fromYValue tree_api ([YText [], YArr []] ! 0))" by code_simp
qed

definition twins :: "string \<Rightarrow> string \<Rightarrow> document" where
  "twins s t = [Equation sample_id (js s) None, Equation sample_id (js t) None]"

definition twin_fields :: fields where
  "twin_fields = [(js ''type'', JStr (js ''document'')), (js ''schema_version'', encode_int 1),
     (js ''children'', JArr (map encode_block (twins ''x'' ''y'')))]"

lemma twins_valid: "valid_document sample_env (twins s t) \<longleftrightarrow> s \<noteq> [] \<and> t \<noteq> []"
  by (cases s; cases t) (auto simp: valid_document_def twins_def sample_env_def sample_id_def)

text \<open>Two sibling blocks with one ID, which the schema accepts: the first synchronisation stores both,
  and repeating it with the same document overwrites the first with the second.\<close>

theorem twins_overwritten:
  "parseDocument sample_env (JObj twin_fields) = Some (twins ''x'' ''y'') \<and>
   map_sum id (fromYValue tree_api) (createYjsAstDocument tree_api twin_fields) = Inr (JObj twin_fields) \<and>
   map_sum id (materializeYjsAst sample_env tree_api)
     (bindE (createYjsAstDocument tree_api twin_fields) (syncYjsAst tree_api twin_fields)) =
     Inr (Some (twins ''y'' ''y''))"
proof (intro conjI)
  have p: "parseDocument sample_env (encode_document (twins s t)) = Some (twins s t)" if "s \<noteq> []" "t \<noteq> []" for s t
    using that by (intro document_complete) (simp add: twins_valid)
  have e: "JObj twin_fields = encode_document (twins ''x'' ''y'')"
    by (simp add: twin_fields_def encode_document_def twins_def)
  show "parseDocument sample_env (JObj twin_fields) = Some (twins ''x'' ''y'')" unfolding e by (rule p) simp_all
  show "map_sum id (fromYValue tree_api) (createYjsAstDocument tree_api twin_fields) = Inr (JObj twin_fields)"
    by code_simp
  have "map_sum id (fromYValue tree_api)
     (bindE (createYjsAstDocument tree_api twin_fields) (syncYjsAst tree_api twin_fields)) =
     Inr (encode_document (twins ''y'' ''y''))" by code_simp
  then show "map_sum id (materializeYjsAst sample_env tree_api)
     (bindE (createYjsAstDocument tree_api twin_fields) (syncYjsAst tree_api twin_fields)) =
     Inr (Some (twins ''y'' ''y''))"
    using p [of "''y''" "''y''"]
    by (cases "bindE (createYjsAstDocument tree_api twin_fields) (syncYjsAst tree_api twin_fields)")
      (simp_all add: materializeYjsAst_def)
qed

text \<open>Two sibling blocks with one ID reconciled with an array that has no blocks: the second block is
  moved beyond the end of the array, and the synchronisation throws.\<close>

theorem twins_throw:
  "syncYjsAst tree_api twin_fields (YMap [(js ''children'', YArr [])]) = Inl MoveOutOfBounds"
  by code_simp

text \<open>Where two emoji share their first half, the edit starts between the halves of a pair.\<close>

theorem edit_splits_emoji:
  "text_edit [0xD83D, 0xDE00] [0xD83D, 0xDE01] = (1, 1, [0xDE01]) \<and> \<not> ok_pos [0xD83D, 0xDE00] 1"
  by code_simp

end
