(* ===== verification/Presence.thy ===== *)
theory Presence
  imports YjsSync
begin

text \<open>
  \<open>lib/collaboration/presence.ts\<close>: cursors as positions in blocks, and as positions relative to
  shared texts.

  \<open>rel_api\<close> stands for Yjs' relative positions with their base64 form: \<open>rel_encode t i\<close> is the
  position at index \<open>i\<close> of the text \<open>t\<close>, and \<open>rel_decode root s\<close> is nothing where decoding throws,
  and otherwise the absolute position, if there still is one. Shared values are compared by
  identity in the source; here they are their identity.
\<close>

record 'y rel_api =
  rel_encode :: "'y \<Rightarrow> int \<Rightarrow> jstr"
  rel_decode :: "'y \<Rightarrow> jstr \<Rightarrow> ('y \<times> int) option option"

record editor_position =
  pos_blockId :: jstr
  pos_offset :: int

record editor_cursor =
  cur_anchor :: editor_position
  cur_head :: editor_position

record presence_position = editor_position +
  pos_relative :: "jstr option"

section \<open>The schema of a cursor\<close>

definition z_object :: "(fields \<Rightarrow> 'a option) \<Rightarrow> 'a schema" where
  "z_object f v = (case v of JObj fs \<Rightarrow> f fs | _ \<Rightarrow> None)"

definition positionSchema :: "zenv \<Rightarrow> presence_position schema" where
  "positionSchema z = z_object (\<lambda>fs.
     case (req fs ''block_id'' (z_refine (z_uuid z) z_string),
           req fs ''offset'' (int_max 1048576 (int_min 0 z_int)),
           opt fs ''relative_position'' (str_max 344 z_string)) of
       (Some b, Some n, Some r) \<Rightarrow> Some \<lparr>pos_blockId = b, pos_offset = n, pos_relative = r\<rparr>
     | _ \<Rightarrow> None)"

definition cursorSchema :: "zenv \<Rightarrow> (presence_position \<times> presence_position) schema" where
  "cursorSchema z = z_object (\<lambda>fs.
     case (req fs ''version'' (z_literal_int 1), req fs ''anchor'' (positionSchema z), req fs ''head'' (positionSchema z)) of
       (Some _, Some a, Some h) \<Rightarrow> Some (a, h)
     | _ \<Rightarrow> None)"

section \<open>Blocks and their content\<close>

fun first_some :: "('a \<Rightarrow> 'b option) \<Rightarrow> 'a list \<Rightarrow> 'b option" where
  "first_some f [] = None"
| "first_some f (x # xs) = (case f x of Some y \<Rightarrow> Some y | None \<Rightarrow> first_some f xs)"

lemma first_some_cong [fundef_cong]:
  "xs = ys \<Longrightarrow> (\<And>x. x \<in> set ys \<Longrightarrow> f x = g x) \<Longrightarrow> first_some f xs = first_some g ys"
  by (induction xs arbitrary: ys) (auto split: option.split)

text \<open>The depth of the shared value bounds the recursion.\<close>

fun findBlock_depth :: "'y yapi \<Rightarrow> jstr \<Rightarrow> nat \<Rightarrow> 'y \<Rightarrow> 'y option" where
  "findBlock_depth api i n y =
     (case y_view api y of
        VMap kvs \<Rightarrow> if block_id_of api y = Some i then Some y
          else (case map_of kvs (js ''children'') of
              Some c \<Rightarrow> (case n of Suc m \<Rightarrow> findBlock_depth api i m c | 0 \<Rightarrow> None)
            | None \<Rightarrow> None)
      | VArr ys \<Rightarrow> (case n of Suc m \<Rightarrow> first_some (findBlock_depth api i m) ys | 0 \<Rightarrow> None)
      | _ \<Rightarrow> None)"

declare findBlock_depth.simps [simp del]

definition findYBlock :: "'y yapi \<Rightarrow> 'y \<Rightarrow> jstr \<Rightarrow> 'y option" where
  "findYBlock api y i = findBlock_depth api i (y_depth api y) y"

datatype 'y run = TextRun 'y | Atom

definition y_nullish :: "'y yapi \<Rightarrow> 'y option \<Rightarrow> bool" where
  "y_nullish api v \<longleftrightarrow> (case v of None \<Rightarrow> True
     | Some y \<Rightarrow> (case y_view api y of VScalar w \<Rightarrow> w = JUndef \<or> w = JNull | _ \<Rightarrow> False))"

definition is_text :: "'y yapi \<Rightarrow> 'y \<Rightarrow> bool" where
  "is_text api y \<longleftrightarrow> (case y_view api y of VText _ \<Rightarrow> True | _ \<Rightarrow> False)"

definition inline_run :: "'y yapi \<Rightarrow> 'y \<Rightarrow> 'y run" where
  "inline_run api y =
     (case y_view api y of
        VMap kvs \<Rightarrow>
          (let is_type = (\<lambda>s. (case map_of kvs (js ''type'') of
                 Some t \<Rightarrow> (case y_view api t of VScalar w \<Rightarrow> w = JStr (js s) | _ \<Rightarrow> False) | None \<Rightarrow> False));
               text = map_of kvs (js (if is_type ''external_link'' then ''display_text'' else ''text''))
           in case text of
                Some t \<Rightarrow> if (is_type ''text'' \<or> is_type ''inline_code'' \<or> is_type ''external_link'') \<and> is_text api t
                  then TextRun t else Atom
              | None \<Rightarrow> Atom)
      | _ \<Rightarrow> Atom)"

definition runs :: "'y yapi \<Rightarrow> 'y \<Rightarrow> 'y run list" where
  "runs api block =
     (let kvs = entries api block;
          content = (if y_nullish api (map_of kvs (js ''content'')) then map_of kvs (js ''text'')
            else map_of kvs (js ''content''))
      in case content of
           None \<Rightarrow> []
         | Some c \<Rightarrow> (case y_view api c of VText _ \<Rightarrow> [TextRun c] | VArr ys \<Rightarrow> map (inline_run api) ys | _ \<Rightarrow> []))"

definition text_len :: "'y yapi \<Rightarrow> 'y \<Rightarrow> int" where
  "text_len api y = (case y_view api y of VText s \<Rightarrow> int (length s) | _ \<Rightarrow> 0)"

fun run_len :: "'y yapi \<Rightarrow> 'y run \<Rightarrow> int" where
  "run_len api (TextRun t) = text_len api t"
| "run_len api Atom = 1"

section \<open>Positions\<close>

fun encode_runs :: "'y yapi \<Rightarrow> 'y rel_api \<Rightarrow> 'y run list \<Rightarrow> int \<Rightarrow> jstr option" where
  "encode_runs api rel [] off = None"
| "encode_runs api rel (TextRun t # rs) off =
     (if off \<le> text_len api t then Some (rel_encode rel t off) else encode_runs api rel rs (off - text_len api t))"
| "encode_runs api rel (Atom # rs) off = encode_runs api rel rs (off - 1)"

definition encodePresencePosition :: "'y yapi \<Rightarrow> 'y rel_api \<Rightarrow> 'y \<Rightarrow> editor_position \<Rightarrow> presence_position" where
  "encodePresencePosition api rel root p =
     \<lparr>pos_blockId = pos_blockId p, pos_offset = pos_offset p,
      pos_relative = (case findYBlock api root (pos_blockId p) of
          None \<Rightarrow> None | Some b \<Rightarrow> encode_runs api rel (runs api b) (pos_offset p))\<rparr>"

fun locate_run :: "'y yapi \<Rightarrow> 'y run list \<Rightarrow> 'y \<Rightarrow> int \<Rightarrow> int \<Rightarrow> int option" where
  "locate_run api [] t i off = None"
| "locate_run api (r # rs) t i off =
     (if r = TextRun t then Some (off + i) else locate_run api rs t i (off + run_len api r))"

definition resolve_position :: "'y yapi \<Rightarrow> 'y rel_api \<Rightarrow> 'y \<Rightarrow> presence_position \<Rightarrow> editor_position option" where
  "resolve_position api rel root p =
     (case findYBlock api root (pos_blockId p) of
        None \<Rightarrow> None
      | Some b \<Rightarrow>
          (case pos_relative p of
             Some s \<Rightarrow> if s = [] then
                 Some \<lparr>pos_blockId = pos_blockId p, pos_offset = min (pos_offset p) (sum_list (map (run_len api) (runs api b)))\<rparr>
               else (case rel_decode rel root s of
                   Some (Some (t, i)) \<Rightarrow> map_option (\<lambda>off. \<lparr>pos_blockId = pos_blockId p, pos_offset = off\<rparr>)
                     (locate_run api (runs api b) t i 0)
                 | _ \<Rightarrow> None)
           | None \<Rightarrow> Some \<lparr>pos_blockId = pos_blockId p,
               pos_offset = min (pos_offset p) (sum_list (map (run_len api) (runs api b)))\<rparr>))"

definition resolvePresencePosition :: "zenv \<Rightarrow> 'y yapi \<Rightarrow> 'y rel_api \<Rightarrow> 'y \<Rightarrow> jsval \<Rightarrow> editor_cursor option" where
  "resolvePresencePosition z api rel root cursor =
     (case cursorSchema z cursor of
        None \<Rightarrow> None
      | Some (a, h) \<Rightarrow>
          (case (resolve_position api rel root a, resolve_position api rel root h) of
             (Some a', Some h') \<Rightarrow> Some \<lparr>cur_anchor = a', cur_head = h'\<rparr>
           | _ \<Rightarrow> None))"

text \<open>\<open>presenceCursor\<close> of \<open>lib/collaboration/client.ts\<close>: the cursor as it is sent.\<close>

definition position_json :: "presence_position \<Rightarrow> jsval" where
  "position_json p = JObj ([(js ''block_id'', JStr (pos_blockId p)), (js ''offset'', JNum (num_of_int (pos_offset p)))] @
     optf ''relative_position'' JStr (pos_relative p))"

definition presenceCursor :: "'y yapi \<Rightarrow> 'y rel_api \<Rightarrow> 'y \<Rightarrow> editor_cursor \<Rightarrow> jsval" where
  "presenceCursor api rel root c = JObj
     [(js ''version'', JNum (num_of_int 1)), (js ''block_id'', JStr (pos_blockId (cur_head c))),
      (js ''selection'', JStr (js ''text'')),
      (js ''anchor'', position_json (encodePresencePosition api rel root (cur_anchor c))),
      (js ''head'', position_json (encodePresencePosition api rel root (cur_head c)))]"

section \<open>Positions come back\<close>

text \<open>
  \<open>negative_index\<close>: the encoding would ask for an index below zero, because the position lies
  before an atom that a text follows.
\<close>

fun negative_index :: "'y yapi \<Rightarrow> 'y run list \<Rightarrow> int \<Rightarrow> bool" where
  "negative_index api [] off \<longleftrightarrow> False"
| "negative_index api (TextRun t # rs) off \<longleftrightarrow>
     (if off \<le> text_len api t then off < 0 else negative_index api rs (off - text_len api t))"
| "negative_index api (Atom # rs) off \<longleftrightarrow> negative_index api rs (off - 1)"

lemma encode_locate:
  assumes "encode_runs api rel rs off = Some s" "\<not> negative_index api rs off" "distinct (filter (\<lambda>r. r \<noteq> Atom) rs)"
  shows "\<exists>t i. s = rel_encode rel t i \<and> TextRun t \<in> set rs \<and> 0 \<le> i \<and> i \<le> text_len api t \<and>
     locate_run api rs t i acc = Some (acc + off)"
  using assms
proof (induction api rel rs off arbitrary: acc rule: encode_runs.induct)
  case (2 api rel t rs off)
  show ?case
  proof (cases "off \<le> text_len api t")
    case False
    then obtain u i where u: "s = rel_encode rel u i" "TextRun u \<in> set rs" "0 \<le> i" "i \<le> text_len api u"
      "locate_run api rs u i (acc + text_len api t) = Some (acc + text_len api t + (off - text_len api t))"
      using 2 by fastforce
    moreover have "u \<noteq> t" using 2(4) u(2) by auto
    ultimately show ?thesis by (intro exI [of _ u] exI [of _ i]) simp
  next
    case True
    with 2 show ?thesis by (intro exI [of _ t] exI [of _ off]) simp
  qed
next
  case (3 api rel rs off)
  from 3(1) [of "acc + 1"] 3(2-4) obtain u i where "s = rel_encode rel u i" "TextRun u \<in> set rs" "0 \<le> i" "i \<le> text_len api u"
      "locate_run api rs u i (acc + 1) = Some (acc + 1 + (off - 1))"
    by auto
  then show ?case by (intro exI [of _ u] exI [of _ i]) simp
qed simp

text \<open>What the theorem needs of a position, and of Yjs at the texts of its block.\<close>

definition position_ok :: "zenv \<Rightarrow> 'y yapi \<Rightarrow> 'y rel_api \<Rightarrow> 'y \<Rightarrow> editor_position \<Rightarrow> bool" where
  "position_ok z api rel root p \<longleftrightarrow> z_uuid z (pos_blockId p) \<and> 0 \<le> pos_offset p \<and> pos_offset p \<le> 1048576 \<and>
     (case findYBlock api root (pos_blockId p) of None \<Rightarrow> False
      | Some b \<Rightarrow> pos_offset p \<le> sum_list (map (run_len api) (runs api b)) \<and>
          \<not> negative_index api (runs api b) (pos_offset p) \<and> distinct (filter (\<lambda>r. r \<noteq> Atom) (runs api b)) \<and>
          (\<forall>t i. TextRun t \<in> set (runs api b) \<longrightarrow> 0 \<le> i \<longrightarrow> i \<le> text_len api t \<longrightarrow>
             rel_decode rel root (rel_encode rel t i) = Some (Some (t, i)) \<and>
             rel_encode rel t i \<noteq> [] \<and> length (rel_encode rel t i) \<le> 344))"

lemma resolve_encode:
  assumes "position_ok z api rel root p"
  shows "resolve_position api rel root (encodePresencePosition api rel root p) = Some p \<and>
    positionSchema z (position_json (encodePresencePosition api rel root p)) =
      Some (encodePresencePosition api rel root p)"
proof -
  obtain b where b: "findYBlock api root (pos_blockId p) = Some b" using assms by (auto simp: position_ok_def split: option.splits)
  note ok = assms [unfolded position_ok_def b option.case]
  let ?e = "encode_runs api rel (runs api b) (pos_offset p)"
  have int: "z_int (JNum (num_of_int (pos_offset p))) = Some (pos_offset p)"
    using ok by (simp add: max_safe_integer_def)
  show ?thesis
  proof (cases ?e)
    case None
    then show ?thesis
      using ok b int by (simp add: resolve_position_def encodePresencePosition_def position_json_def positionSchema_def
          z_object_def req_def opt_def z_refine_def int_min_def int_max_def z_optional_def)
  next
    case (Some s)
    obtain t i where s: "s = rel_encode rel t i" "TextRun t \<in> set (runs api b)" "0 \<le> i" "i \<le> text_len api t"
      "locate_run api (runs api b) t i 0 = Some (pos_offset p)"
      using encode_locate [OF Some, of 0] ok by auto
    then have r: "rel_decode rel root s = Some (Some (t, i))" "s \<noteq> []" "length s \<le> 344" using ok by auto
    then show ?thesis
      using ok b int s(5) by (simp add: Some resolve_position_def encodePresencePosition_def position_json_def
          positionSchema_def z_object_def req_def opt_def z_refine_def int_min_def int_max_def z_optional_def str_max_def)
  qed
qed

section \<open>Properties\<close>

text \<open>A cursor that is sent and resolved on the same working copy comes back unchanged, wherever it stands
  in the content of its block except directly before an atom that a text follows.\<close>

theorem presence_roundtrip:
  assumes "position_ok z api rel root (cur_anchor c)" "position_ok z api rel root (cur_head c)"
  shows "resolvePresencePosition z api rel root (presenceCursor api rel root c) = Some c"
  using resolve_encode [OF assms(1)] resolve_encode [OF assms(2)]
  by (simp add: resolvePresencePosition_def cursorSchema_def presenceCursor_def z_object_def req_def z_literal_int_def num_of_int_1)

text \<open>A caret directly before an atom that a text follows is encoded at index -1 of that text.\<close>

theorem caret_before_atom:
  assumes "findYBlock api root i = Some b" "runs api b = Atom # TextRun t # rs"
  shows "pos_relative (encodePresencePosition api rel root \<lparr>pos_blockId = i, pos_offset = 0\<rparr>) = Some (rel_encode rel t (- 1))"
  using assms by (simp add: encodePresencePosition_def text_len_def split: yview.split)

definition sample_block :: ytree where
  "sample_block = YMap [(js ''id'', YScalar (JStr sample_id)), (js ''content'', YArr
     [YMap [(js ''type'', YScalar (JStr (js ''mention'')))],
      YMap [(js ''type'', YScalar (JStr (js ''text''))), (js ''text'', YText (js ''ab''))]])]"

definition sample_yroot :: ytree where
  "sample_yroot = YMap [(js ''children'', YArr [YScalar JNull, sample_block])]"

definition sample_rel :: "ytree rel_api" where
  "sample_rel = \<lparr>rel_encode = (\<lambda>t i. int_str i),
     rel_decode = (\<lambda>root s. Some (Some (YText (js ''ab''), int (str_val s))))\<rparr>"

lemma sample_found: "findYBlock tree_api sample_yroot sample_id = Some sample_block"
  by code_simp

lemma sample_runs: "runs tree_api sample_block = [Atom, TextRun (YText (js ''ab''))]"
  by code_simp

lemma caret_before_atom_witness:
  "pos_relative (encodePresencePosition tree_api sample_rel sample_yroot \<lparr>pos_blockId = sample_id, pos_offset = 0\<rparr>) =
     Some (rel_encode sample_rel (YText (js ''ab'')) (- 1))"
  by (rule caret_before_atom [OF sample_found sample_runs])

lemma sample_rel_ok:
  assumes "i \<in> {0, 1, 2}"
  shows "rel_decode sample_rel root (rel_encode sample_rel (YText (js ''ab'')) i) = Some (Some (YText (js ''ab''), i)) \<and>
    rel_encode sample_rel (YText (js ''ab'')) i \<noteq> [] \<and> length (rel_encode sample_rel (YText (js ''ab'')) i) \<le> 344"
proof -
  have "length (int_str 0) = 1" "length (int_str 1) = 1" "length (int_str 2) = 1" by code_simp+
  then have "length (int_str i) = 1" using assms by blast
  moreover have "int (str_val (int_str i)) = i" using assms by (auto simp only: int_str_def str_val_nat_str) auto
  ultimately show ?thesis by (auto simp: sample_rel_def)
qed

lemma sample_position_ok:
  assumes "i \<in> {1, 2, 3}"
  shows "position_ok sample_env tree_api sample_rel sample_yroot \<lparr>pos_blockId = sample_id, pos_offset = i\<rparr>"
proof -
  have l: "text_len tree_api (YText (js ''ab'')) = 2" by (simp add: text_len_def tree_api_def)
  have u: "z_uuid sample_env sample_id" by (simp add: sample_env_def sample_id_def)
  have "0 \<le> i" "i \<le> 1048576" "i \<le> 3" "\<not> i - 1 < 0" using assms by auto
  moreover have "rel_decode sample_rel sample_yroot (rel_encode sample_rel t j) = Some (Some (t, j)) \<and>
      rel_encode sample_rel t j \<noteq> [] \<and> length (rel_encode sample_rel t j) \<le> 344"
    if "TextRun t \<in> set [Atom, TextRun (YText (js ''ab''))]" "0 \<le> j" "j \<le> text_len tree_api t" for t j
  proof -
    have t: "t = YText (js ''ab'')" using that(1) by simp
    have "j \<in> {0, 1, 2}" using that(2,3) unfolding t l by auto
    then show ?thesis unfolding t by (rule sample_rel_ok)
  qed
  ultimately show ?thesis
    unfolding position_ok_def editor_position.simps sample_found option.case sample_runs by (simp add: u l)
qed

lemma presence_roundtrip_witness:
  "resolvePresencePosition sample_env tree_api sample_rel sample_yroot (presenceCursor tree_api sample_rel sample_yroot
     \<lparr>cur_anchor = \<lparr>pos_blockId = sample_id, pos_offset = 1\<rparr>, cur_head = \<lparr>pos_blockId = sample_id, pos_offset = 3\<rparr>\<rparr>) =
   Some \<lparr>cur_anchor = \<lparr>pos_blockId = sample_id, pos_offset = 1\<rparr>, cur_head = \<lparr>pos_blockId = sample_id, pos_offset = 3\<rparr>\<rparr>"
  by (rule presence_roundtrip) (simp_all add: sample_position_ok)

end
