(* ===== verification/CollabClient.thy ===== *)
theory CollabClient
  imports OfflineStore Presence HttpUrl
begin

text \<open>
  \<open>lib/collaboration/client.ts\<close>: the client of the collaboration protocol.

  The fields of \<open>CollaborationClient\<close> are the record \<open>client\<close>. Everything that waits is explicit:
  \<open>connecting\<close> says where \<open>connect\<close> is suspended, \<open>persistenceQueue\<close> and \<open>receiveQueue\<close> are the
  chained promises as lists of jobs, \<open>db\<close> is the IndexedDB store, and \<open>effects\<close> records what the
  client did to the outside, newest first. An event is one callback or one resumption; \<open>handle\<close>
  is the code that runs until it next waits.

  \<open>client_env\<close> holds the options and what is not code of the repository: Yjs updates, JSON texts,
  the IDs \<open>clientUUID()\<close> hands out and the address of the page. \<open>sync_throws\<close> is what a working
  copy is when a reconciliation throws: Yjs does not roll a transaction back. Sending on an open
  socket does not throw, and callbacks of the options do not call the client. A promise chained with
  \<open>then\<close> and \<open>catch\<close> is rejected when the last handler throws: \<open>receiveRejected\<close> says that of the
  receive queue, whose next message is then not received at all.
\<close>

datatype status = SConnecting | SSyncing | SOnline | SOffline | SForbidden | SClosed

datatype effect = OnStatus status
  | OnAst document "editor_cursor option"
  | OnPresence jsval jsval "jstr option" "jstr option" fields
  | OnStorageError
  | FetchPage
  | OpenSocket nat jstr
  | CloseSocket nat nat
  | SendUpdate nat bytes
  | SendPresence nat jsval
  | SendSnapshot nat int bytes

datatype ready_state = Connecting | Open | Closing

datatype connect_phase = Idle | AwaitRestored | AwaitPage

datatype job = SaveJob offline_record "pending_update option" "bytes option" | FlushJob

datatype message = TextMessage jstr | BinaryMessage bytes

record 'y client_env =
  ce_z :: zenv
  ce_api :: "'y yapi"
  ce_rel :: "'y rel_api"
  ce_offline :: offline_env
  ce_actor :: jstr
  ce_page :: jstr
  ce_initial :: fields
  ce_origin :: "jstr \<times> jstr"
  ce_uuid :: "nat \<Rightarrow> jstr"
  stringify :: "jsval \<Rightarrow> jstr"
  json_parse :: "jstr \<Rightarrow> jsval option"
  applyUpdate :: "bytes \<Rightarrow> 'y \<Rightarrow> 'y option"
  encodeState :: "'y \<Rightarrow> bytes"
  update_between :: "'y \<Rightarrow> 'y \<Rightarrow> bytes option"
  sync_throws :: "fields \<Rightarrow> 'y \<Rightarrow> 'y"

record 'y client =
  ydoc :: 'y
  clientId :: jstr
  restored :: bool
  persistenceQueue :: "job list"
  storageFailed :: bool
  socket :: "nat option"
  readyState :: ready_state
  ready :: bool
  closed :: bool
  connecting :: connect_phase
  latestSequence :: int
  reconnectAttempts :: nat
  reconnectTimer :: "nat option"
  receiveQueue :: "(nat \<times> message) list"
  receiveRejected :: bool
  pendingAst :: "fields option"
  pendingUpdates :: "pending_update list"
  documentId :: "jsval option"
  renderedAstJSON :: jstr
  lastPresence :: "editor_cursor option"
  lastSnapshotSequence :: int
  snapshotInFlight :: bool
  recoveredOffline :: bool
  sockets :: nat
  uuids :: nat
  db :: object_store
  effects :: "effect list"

type_synonym 'y act = "'y client \<Rightarrow> bool \<times> 'y client"

text \<open>An action ends normally (true) or throws (false), in a changed state either way.\<close>

definition andThen :: "'y act \<Rightarrow> 'y act \<Rightarrow> 'y act" where
  "andThen a b s = (case a s of (True, s') \<Rightarrow> b s' | (False, s') \<Rightarrow> (False, s'))"

definition upd :: "('y client \<Rightarrow> 'y client) \<Rightarrow> 'y act" where
  "upd f s = (True, f s)"

definition emit :: "effect \<Rightarrow> 'y client \<Rightarrow> 'y client" where
  "emit e s = s\<lparr>effects := e # effects s\<rparr>"

definition hasWorkingState :: "'y client_env \<Rightarrow> 'y client \<Rightarrow> bool" where
  "hasWorkingState env s \<longleftrightarrow> entries (ce_api env) (ydoc s) \<noteq> []"

definition hasPendingUpdates :: "'y client \<Rightarrow> bool" where
  "hasPendingUpdates s \<longleftrightarrow> length (pendingUpdates s) > 0"

section \<open>Constants and helpers\<close>

definition INITIAL_RECONNECT_DELAY_MS :: nat where "INITIAL_RECONNECT_DELAY_MS = 500"
definition MAX_RECONNECT_DELAY_MS :: nat where "MAX_RECONNECT_DELAY_MS = 10000"
definition SNAPSHOT_UPDATE_INTERVAL :: int where "SNAPSHOT_UPDATE_INTERVAL = 100"
definition MAX_SNAPSHOT_BYTES :: nat where "MAX_SNAPSHOT_BYTES = 16777216"

text \<open>
  For a client ID that is a UUID, which form encoding leaves as it is. Nothing where
  \<open>encodeURIComponent\<close> throws.
\<close>

definition collaborationURL :: "'y client_env \<Rightarrow> jstr \<Rightarrow> int \<Rightarrow> jstr option" where
  "collaborationURL env client lastSequence = map_option (\<lambda>page.
     (if fst (ce_origin env) = js ''https:'' then js ''wss:'' else js ''ws:'') @ js ''//'' @ snd (ce_origin env) @
     js ''/api/v1/pages/'' @ page @ js ''/collaboration?client_id='' @ client @
     js ''&last_sequence='' @ int_str lastSequence) (encodeURIComponent (ce_page env))"

definition cleanPresenceLabel :: "jsval \<Rightarrow> jstr option" where
  "cleanPresenceLabel v = (case v of JStr s \<Rightarrow> if js_trim s \<noteq> [] then Some (js_trim s) else None | _ \<Rightarrow> None)"

definition isRecord :: "jsval \<Rightarrow> bool" where
  "isRecord v \<longleftrightarrow> (case v of JObj _ \<Rightarrow> True | _ \<Rightarrow> False)"

definition is_open :: "'y client \<Rightarrow> bool" where
  "is_open s \<longleftrightarrow> socket s \<noteq> None \<and> readyState s = Open"

definition big_endian :: "bytes \<Rightarrow> nat" where
  "big_endian bs = fold (\<lambda>b n. n * 256 + unat b) bs 0"

section \<open>Persistence\<close>

definition current_record :: "'y client_env \<Rightarrow> 'y client \<Rightarrow> offline_record" where
  "current_record env s = \<lparr>r_clientId = clientId s, r_documentId = documentId s, r_sequence = latestSequence s,
     r_state = encodeState env (ydoc s), r_pending = []\<rparr>"

definition persist :: "'y client_env \<Rightarrow> pending_update option \<Rightarrow> bytes option \<Rightarrow> 'y client \<Rightarrow> 'y client" where
  "persist env added acknowledged s =
     s\<lparr>persistenceQueue := persistenceQueue s @ [SaveJob (current_record env s) added acknowledged]\<rparr>"

definition reportStorageError :: "'y client \<Rightarrow> 'y client" where
  "reportStorageError s = (if storageFailed s then s else emit OnStorageError (s\<lparr>storageFailed := True\<rparr>))"

definition sendPendingUpdate :: "pending_update \<Rightarrow> 'y client \<Rightarrow> 'y client" where
  "sendPendingUpdate p s =
     (if \<not> ready s \<or> \<not> is_open s then s else emit (SendUpdate (the (socket s)) (pending_id p @ pending_bytes p)) s)"

definition flushPendingUpdates :: "'y client \<Rightarrow> 'y client" where
  "flushPendingUpdates s = s\<lparr>persistenceQueue := persistenceQueue s @ [FlushJob]\<rparr>"

definition run_job :: "'y client_env \<Rightarrow> bool \<Rightarrow> job \<Rightarrow> 'y client \<Rightarrow> 'y client" where
  "run_job env fails j s = (case j of
     FlushJob \<Rightarrow> fold sendPendingUpdate (pendingUpdates s) s
   | SaveJob r added acknowledged \<Rightarrow>
       let s' = (case save (ce_z env) (ce_offline env) (store_key (ce_actor env) (ce_page env)) r added acknowledged (db s) of
           Inr d \<Rightarrow> if fails then reportStorageError s else s\<lparr>db := d\<rparr>
         | Inl _ \<Rightarrow> reportStorageError s)
       in case added of Some p \<Rightarrow> sendPendingUpdate p s' | None \<Rightarrow> s')"

section \<open>The working copy\<close>

definition emitAstIfChanged :: "'y client_env \<Rightarrow> 'y act" where
  "emitAstIfChanged env s = (case materializeYjsAst (ce_z env) (ce_api env) (ydoc s) of
     None \<Rightarrow> (False, s)
   | Some d \<Rightarrow>
       let json = stringify env (encode_document d)
       in (True, if json = renderedAstJSON s then s
                 else emit (OnAst d (lastPresence s)) (s\<lparr>renderedAstJSON := json\<rparr>)))"

text \<open>The observer of local updates; \<open>uuidBytes\<close> throws on what is not a UUID.\<close>

definition onDocumentUpdate :: "'y client_env \<Rightarrow> bytes \<Rightarrow> 'y act" where
  "onDocumentUpdate env update s =
     (let s' = s\<lparr>uuids := Suc (uuids s)\<rparr> in
      case uuidBytes (ce_uuid env (uuids s)) of
        None \<Rightarrow> (False, s')
      | Some i \<Rightarrow>
          let p = \<lparr>pending_id = i, pending_bytes = update\<rparr>
          in (True, persist env (Some p) None (s'\<lparr>pendingUpdates := pendingUpdates s' @ [p]\<rparr>)))"

definition change_document :: "'y client_env \<Rightarrow> 'y \<Rightarrow> 'y act" where
  "change_document env y s =
     (let s' = s\<lparr>ydoc := y\<rparr> in
      case update_between env (ydoc s) y of None \<Rightarrow> (True, s') | Some u \<Rightarrow> onDocumentUpdate env u s')"

text \<open>\<open>syncYjsAst(this.ydoc, ast, origin)\<close> with a local origin.\<close>

definition local_sync :: "'y client_env \<Rightarrow> fields \<Rightarrow> 'y act" where
  "local_sync env ast s = (case syncYjsAst (ce_api env) ast (ydoc s) of
     Inr y \<Rightarrow> change_document env y s
   | Inl _ \<Rightarrow> andThen (change_document env (sync_throws env ast (ydoc s))) (\<lambda>s. (False, s)) s)"

section \<open>Closing, presence and snapshots\<close>

text \<open>
  \<open>WebSocket.close(code)\<close>: it throws for every code other than 1000 and those from 3000 to 4999.
\<close>

definition closable :: "nat \<Rightarrow> bool" where
  "closable code \<longleftrightarrow> code = 1000 \<or> 3000 \<le> code \<and> code \<le> 4999"

definition close_socket :: "nat \<Rightarrow> nat \<Rightarrow> 'y act" where
  "close_socket n code s =
     (if closable code then (True, emit (CloseSocket n code) (s\<lparr>readyState := Closing\<rparr>)) else (False, s))"

definition close :: "'y client \<Rightarrow> 'y client" where
  "close s =
     (if closed s then s
      else
        let s1 = s\<lparr>closed := True, ready := False, reconnectTimer := None\<rparr>;
            s2 = (case socket s1 of Some n \<Rightarrow> (snd (close_socket n 1000 s1))\<lparr>socket := None\<rparr> | None \<Rightarrow> s1)
        in emit (OnStatus SClosed) s2)"

definition denyAccess :: "'y client \<Rightarrow> 'y client" where
  "denyAccess s = emit (OnStatus SForbidden) ((close s)\<lparr>pendingAst := None, pendingUpdates := []\<rparr>)"

definition transmitPresence :: "'y client_env \<Rightarrow> 'y client \<Rightarrow> 'y client" where
  "transmitPresence env s = (case lastPresence s of
     None \<Rightarrow> s
   | Some c \<Rightarrow> if \<not> ready s \<or> \<not> is_open s then s
       else emit (SendPresence (the (socket s)) (presenceCursor (ce_api env) (ce_rel env) (ydoc s) c)) s)"

definition sendPresence :: "'y client_env \<Rightarrow> editor_cursor \<Rightarrow> 'y client \<Rightarrow> 'y client" where
  "sendPresence env c s = transmitPresence env (s\<lparr>lastPresence := Some c\<rparr>)"

definition maybeSaveSnapshot :: "'y client_env \<Rightarrow> 'y client \<Rightarrow> 'y client" where
  "maybeSaveSnapshot env s =
     (if \<not> ready s \<or> snapshotInFlight s \<or> length (pendingUpdates s) > 0 \<or>
         latestSequence s - lastSnapshotSequence s < SNAPSHOT_UPDATE_INTERVAL \<or> \<not> is_open s
      then s
      else
        let state = encodeState env (ydoc s)
        in if length state = 0 \<or> length state > MAX_SNAPSHOT_BYTES then s
           else emit (SendSnapshot (the (socket s)) (latestSequence s) state) (s\<lparr>snapshotInFlight := True\<rparr>))"

section \<open>Connecting\<close>

definition connect :: "'y client \<Rightarrow> 'y client" where
  "connect s =
     (if closed s \<or> socket s \<noteq> None \<or> connecting s \<noteq> Idle then s
      else emit (OnStatus SConnecting) (s\<lparr>connecting := AwaitRestored\<rparr>))"

definition scheduleReconnect :: "'y client \<Rightarrow> 'y client" where
  "scheduleReconnect s =
     (if closed s \<or> reconnectTimer s \<noteq> None then s
      else s\<lparr>reconnectAttempts := reconnectAttempts s + 1,
        reconnectTimer := Some (min (INITIAL_RECONNECT_DELAY_MS * 2 ^ reconnectAttempts s) MAX_RECONNECT_DELAY_MS)\<rparr>)"

definition refresh :: "'y act" where
  "refresh s =
     (if closed s then (True, s)
      else let s' = s\<lparr>ready := False\<rparr> in
        case socket s' of
          Some n \<Rightarrow> close_socket n 1012 s'
        | None \<Rightarrow> (True, connect s'))"

text \<open>After \<open>await this.restored\<close>, and after the page has been asked for.\<close>

definition resume_restored :: "'y client \<Rightarrow> 'y client" where
  "resume_restored s = (if closed s then s\<lparr>connecting := Idle\<rparr> else emit FetchPage (s\<lparr>connecting := AwaitPage\<rparr>))"

datatype page_result = PageFound bool | HttpError nat | FetchFailed

definition resume_page :: "'y client_env \<Rightarrow> page_result \<Rightarrow> 'y client \<Rightarrow> 'y client" where
  "resume_page env r s =
     (if closed s then s\<lparr>connecting := Idle\<rparr>
      else case r of
        PageFound canEdit \<Rightarrow>
          if \<not> canEdit then (denyAccess s)\<lparr>connecting := Idle\<rparr>
          else (case collaborationURL env (clientId s) (latestSequence s) of
              None \<Rightarrow> s\<lparr>connecting := Idle\<rparr>
            | Some url \<Rightarrow> emit (OpenSocket (sockets s) url)
                (s\<lparr>connecting := Idle, socket := Some (sockets s), readyState := Connecting, sockets := Suc (sockets s)\<rparr>))
      | HttpError code \<Rightarrow>
          if code \<in> {401, 403, 404, 410} then (denyAccess s)\<lparr>connecting := Idle\<rparr>
          else (scheduleReconnect (emit (OnStatus SOffline) s))\<lparr>connecting := Idle\<rparr>
      | FetchFailed \<Rightarrow> (scheduleReconnect (emit (OnStatus SOffline) s))\<lparr>connecting := Idle\<rparr>)"

definition socket_closed :: "nat \<Rightarrow> nat \<Rightarrow> 'y client \<Rightarrow> 'y client" where
  "socket_closed n code s =
     (if socket s \<noteq> Some n then s
      else let s' = s\<lparr>socket := None, ready := False, snapshotInFlight := False\<rparr> in
        if closed s' then s'
        else if code = 1008 then denyAccess s'
        else scheduleReconnect (emit (OnStatus SOffline) s'))"

section \<open>Messages\<close>

definition mfield :: "jsval \<Rightarrow> string \<Rightarrow> jsval" where
  "mfield m k = (case m of JObj fs \<Rightarrow> getp fs (js k) | _ \<Rightarrow> JUndef)"

text \<open>
  A value that is there and whose string is a UUID, as it came: \<open>RegExp.prototype.test\<close> converts its
  argument, or throws.
\<close>

definition uuid_field :: "jsval \<Rightarrow> string \<Rightarrow> jsval option" where
  "uuid_field m k =
     (let v = mfield m k in
      if \<not> truthy v then None
      else case js_String v of Some s \<Rightarrow> if isUUID s then Some v else None | None \<Rightarrow> None)"

text \<open>\<open>===\<close> on an ID and one of a new message: an array of the message is no value seen before.\<close>

definition same_id :: "jsval \<Rightarrow> jsval \<Rightarrow> bool" where
  "same_id d v \<longleftrightarrow> (case (d, v) of (JStr a, JStr b) \<Rightarrow> a = b | _ \<Rightarrow> False)"

text \<open>A safe integer that is not negative.\<close>

definition sequence_field :: "jsval \<Rightarrow> string \<Rightarrow> int option" where
  "sequence_field m k = (case mfield m k of
     JNum n \<Rightarrow> (case safe_int n of Some i \<Rightarrow> if 0 \<le> i then Some i else None | None \<Rightarrow> None) | _ \<Rightarrow> None)"

definition receive_hello :: "jsval \<Rightarrow> 'y act" where
  "receive_hello m s = (case uuid_field m ''document_id'' of
     None \<Rightarrow> (False, s)
   | Some d \<Rightarrow>
       if (case documentId s of Some e \<Rightarrow> truthy e \<and> \<not> same_id e d | None \<Rightarrow> False)
       then (True, denyAccess (emit OnStorageError s))
       else (True, s\<lparr>documentId := Some d\<rparr>))"

definition receive_presence :: "jsval \<Rightarrow> 'y act" where
  "receive_presence m s = (case (uuid_field m ''actor_id'', mfield m ''cursor'') of
     (Some a, JObj cursor) \<Rightarrow>
       let client = (if nullish (mfield m ''client_id'') then a else mfield m ''client_id'')
       in (True, emit (OnPresence a client (cleanPresenceLabel (mfield m ''actor_username''))
            (cleanPresenceLabel (mfield m ''actor_display_name'')) cursor) s)
   | _ \<Rightarrow> (False, s))"

definition receive_snapshot_saved :: "jsval \<Rightarrow> 'y act" where
  "receive_snapshot_saved m s = (case sequence_field m ''up_to_sequence'' of
     None \<Rightarrow> (False, s)
   | Some n \<Rightarrow> (True, s\<lparr>lastSnapshotSequence := max (lastSnapshotSequence s) n, snapshotInFlight := False\<rparr>))"

definition receive_ready :: "'y client_env \<Rightarrow> jsval \<Rightarrow> 'y act" where
  "receive_ready env m s = (case sequence_field m ''latest_sequence'' of
     None \<Rightarrow> (False, s)
   | Some n \<Rightarrow>
       let s1 = s\<lparr>latestSequence := max (latestSequence s) n, ready := True, reconnectAttempts := 0\<rparr>;
           hasRecoveredState = hasWorkingState env s1 \<or> latestSequence s1 > 0;
           pending = pendingAst s1;
           s2 = flushPendingUpdates (s1\<lparr>pendingAst := None\<rparr>)
       in andThen
         (if \<not> hasRecoveredState then local_sync env (case pending of Some a \<Rightarrow> a | None \<Rightarrow> ce_initial env)
          else case pending of Some a \<Rightarrow> if \<not> recoveredOffline s2 then local_sync env a else upd id | None \<Rightarrow> upd id)
         (andThen (upd (\<lambda>s. maybeSaveSnapshot env (transmitPresence env s)))
         (andThen (if hasRecoveredState \<or> pending \<noteq> None then emitAstIfChanged env else upd id)
            (upd (\<lambda>s. persist env None None (emit (OnStatus SOnline) s))))) s2)"

definition receiveJSON :: "'y client_env \<Rightarrow> jstr \<Rightarrow> 'y act" where
  "receiveJSON env text s = (case json_parse env text of
     None \<Rightarrow> (False, s)
   | Some m \<Rightarrow>
       if m = JNull then (False, s)
       else if mfield m ''type'' = JStr (js ''hello'') then receive_hello m s
       else if mfield m ''type'' = JStr (js ''presence'') then receive_presence m s
       else if mfield m ''type'' = JStr (js ''snapshot_saved'') then receive_snapshot_saved m s
       else if mfield m ''type'' = JStr (js ''ready'') then receive_ready env m s
       else (True, s))"

definition acknowledgePendingUpdate :: "'y client_env \<Rightarrow> bytes \<Rightarrow> 'y client \<Rightarrow> 'y client" where
  "acknowledgePendingUpdate env update s =
     (case find_index (\<lambda>p. equalBytes (pending_bytes p) update) (pendingUpdates s) of
        None \<Rightarrow> s
      | Some i \<Rightarrow> persist env None (Some (pending_id (pendingUpdates s ! i)))
          (s\<lparr>pendingUpdates := take i (pendingUpdates s) @ drop (Suc i) (pendingUpdates s)\<rparr>))"

text \<open>The cursor is carried over the update as a relative position.\<close>

definition apply_remote :: "'y client_env \<Rightarrow> bytes \<Rightarrow> 'y act" where
  "apply_remote env update s = (case applyUpdate env update (ydoc s) of
     None \<Rightarrow> (False, s)
   | Some y \<Rightarrow> (True, s\<lparr>ydoc := y, lastPresence := (case lastPresence s of None \<Rightarrow> None
       | Some c \<Rightarrow> resolvePresencePosition (ce_z env) (ce_api env) (ce_rel env) y
           (presenceCursor (ce_api env) (ce_rel env) (ydoc s) c))\<rparr>))"

definition receiveBinary :: "'y client_env \<Rightarrow> bytes \<Rightarrow> 'y act" where
  "receiveBinary env frame s =
     (if closed s then (True, s)
      else if length frame \<le> 9 \<or> (frame ! 0 \<noteq> 1 \<and> frame ! 0 \<noteq> 2) then (False, s)
      else
        let sequence = int (big_endian (slice 1 9 frame)); update = drop 9 frame in
        if sequence > max_safe_integer then (False, s)
        else if ready s \<and> frame ! 0 = 2 \<and> sequence > latestSequence s + 1 then refresh s
        else
          let s1 = (if frame ! 0 = 1 then s\<lparr>lastSnapshotSequence := max (lastSnapshotSequence s) sequence\<rparr>
                    else acknowledgePendingUpdate env update s)
          in andThen (apply_remote env update)
            (andThen (upd (\<lambda>s. persist env None None (s\<lparr>latestSequence := max (latestSequence s) sequence\<rparr>)))
              (\<lambda>s. if ready s then andThen (emitAstIfChanged env) (upd (maybeSaveSnapshot env)) s else (True, s))) s1)"

definition receive :: "'y client_env \<Rightarrow> message \<Rightarrow> 'y act" where
  "receive env m = (case m of TextMessage t \<Rightarrow> receiveJSON env t | BinaryMessage b \<Rightarrow> receiveBinary env b)"

text \<open>
  One link of the receive queue. A rejected queue skips the message; what throws, and a skipped
  message, goes to the handler, which closes the socket the message came from while it is the client's.
  The handler itself throws there, so the queue is rejected.
\<close>

definition process_message :: "'y client_env \<Rightarrow> nat \<Rightarrow> message \<Rightarrow> 'y client \<Rightarrow> 'y client" where
  "process_message env n m s =
     (let (ok, s1) = (if receiveRejected s then (False, s)
                      else if \<not> closed s \<and> socket s = Some n then receive env m s else (True, s));
          (ok, s2) = (if \<not> ok \<and> socket s1 = Some n then close_socket n 1002 s1 else (True, s1))
      in s2\<lparr>receiveRejected := \<not> ok\<rparr>)"

section \<open>The editor's calls\<close>

definition syncAst :: "'y client_env \<Rightarrow> fields \<Rightarrow> 'y act" where
  "syncAst env ast s =
     (if closed s then (True, s)
      else let s' = s\<lparr>renderedAstJSON := stringify env (JObj ast)\<rparr> in
        if \<not> ready s' \<and> \<not> hasWorkingState env s' then (True, s'\<lparr>pendingAst := Some ast\<rparr>)
        else local_sync env ast s')"

datatype prepare_error = NotReady | SyncError yjs_error

text \<open>The update is prepared on a clone: the client does not change.\<close>

definition prepareAstUpdate :: "'y client_env \<Rightarrow> fields \<Rightarrow> 'y client \<Rightarrow> prepare_error + int \<times> bytes option" where
  "prepareAstUpdate env ast s =
     (if \<not> ready s then Inl NotReady
      else case syncYjsAst (ce_api env) ast (ydoc s) of
        Inl e \<Rightarrow> Inl (SyncError e) | Inr y \<Rightarrow> Inr (latestSequence s, update_between env (ydoc s) y))"

section \<open>Restoring from the offline store\<close>

definition valid_state :: "'y client_env \<Rightarrow> bytes \<Rightarrow> bool" where
  "valid_state env state = (case applyUpdate env state (new_map (ce_api env)) of
     None \<Rightarrow> False
   | Some y \<Rightarrow> entries (ce_api env) y = [] \<or> materializeYjsAst (ce_z env) (ce_api env) y \<noteq> None)"

definition adopt_record :: "'y client_env \<Rightarrow> offline_record \<Rightarrow> 'y act" where
  "adopt_record env r s =
     (let s1 = s\<lparr>clientId := r_clientId r, documentId := r_documentId r, latestSequence := r_sequence r\<rparr> in
      case applyUpdate env (r_state r) (ydoc s1) of
        None \<Rightarrow> (False, s1)
      | Some y \<Rightarrow>
          let s2 = s1\<lparr>ydoc := y, pendingUpdates := pendingUpdates s1 @ r_pending r,
                recoveredOffline := entries (ce_api env) y \<noteq> []\<rparr>
          in if recoveredOffline s2 then emitAstIfChanged env s2 else (True, s2))"

definition restoreOffline :: "'y client_env \<Rightarrow> bool \<Rightarrow> 'y client \<Rightarrow> 'y client" where
  "restoreOffline env fails s =
     (let loaded = (if fails then None
          else case load (ce_z env) (ce_offline env) (store_key (ce_actor env) (ce_page env)) (db s) of
            Inl _ \<Rightarrow> None | Inr q \<Rightarrow> Some q)
      in case loaded of
        None \<Rightarrow> reportStorageError (s\<lparr>restored := True\<rparr>)
      | Some (r, d) \<Rightarrow>
          let s1 = s\<lparr>restored := True, db := d\<rparr> in
          if closed s1 then s1
          else if \<not> valid_state env (r_state r) then reportStorageError s1
          else case adopt_record env r s1 of (True, s2) \<Rightarrow> s2 | (False, s2) \<Rightarrow> reportStorageError s2)"

section \<open>Events\<close>

datatype event = CallConnect | RestoreDone bool | RestoredSeen | PageArrived page_result
  | SocketOpened nat | SocketMessage nat message | SocketErrored nat | SocketClosed nat nat
  | ProcessMessage | RunJob bool | TimerFired | Heartbeat
  | CallSyncAst fields | CallRefresh | CallSendPresence editor_cursor | CallClose

definition initial_client :: "'y client_env \<Rightarrow> jstr \<Rightarrow> object_store \<Rightarrow> 'y client" where
  "initial_client env cid d = \<lparr>ydoc = new_map (ce_api env), clientId = cid, restored = False, persistenceQueue = [],
     storageFailed = False, socket = None, readyState = Connecting, ready = False, closed = False, connecting = Idle,
     latestSequence = 0, reconnectAttempts = 0, reconnectTimer = None, receiveQueue = [], receiveRejected = False, pendingAst = None,
     pendingUpdates = [], documentId = None, renderedAstJSON = stringify env (JObj (ce_initial env)),
     lastPresence = None, lastSnapshotSequence = 0, snapshotInFlight = False, recoveredOffline = False,
     sockets = 0, uuids = 0, db = d, effects = []\<rparr>"

definition occurs :: "event \<Rightarrow> 'y client \<Rightarrow> bool" where
  "occurs e s \<longleftrightarrow> (case e of
     RestoreDone _ \<Rightarrow> \<not> restored s
   | RestoredSeen \<Rightarrow> restored s \<and> connecting s = AwaitRestored
   | PageArrived _ \<Rightarrow> connecting s = AwaitPage
   | ProcessMessage \<Rightarrow> receiveQueue s \<noteq> []
   | RunJob _ \<Rightarrow> persistenceQueue s \<noteq> []
   | TimerFired \<Rightarrow> reconnectTimer s \<noteq> None
   | Heartbeat \<Rightarrow> \<not> closed s
   | SocketOpened n \<Rightarrow> n < sockets s
   | SocketMessage n _ \<Rightarrow> n < sockets s
   | SocketErrored n \<Rightarrow> n < sockets s
   | SocketClosed n _ \<Rightarrow> n < sockets s
   | _ \<Rightarrow> True)"

fun handle :: "'y client_env \<Rightarrow> event \<Rightarrow> 'y client \<Rightarrow> 'y client" where
  "handle env CallConnect s = connect s"
| "handle env (RestoreDone fails) s = restoreOffline env fails s"
| "handle env RestoredSeen s = resume_restored s"
| "handle env (PageArrived r) s = resume_page env r s"
| "handle env (SocketOpened n) s =
     (if socket s \<noteq> Some n then s
      else let s' = s\<lparr>readyState := (if readyState s = Connecting then Open else readyState s)\<rparr>
        in if closed s' then s' else emit (OnStatus SSyncing) s')"
| "handle env (SocketMessage n m) s = s\<lparr>receiveQueue := receiveQueue s @ [(n, m)]\<rparr>"
| "handle env (SocketErrored n) s = (if \<not> closed s \<and> socket s = Some n then emit (OnStatus SOffline) s else s)"
| "handle env (SocketClosed n code) s = socket_closed n code s"
| "handle env ProcessMessage s = (case receiveQueue s of [] \<Rightarrow> s
   | (n, m) # q \<Rightarrow> process_message env n m (s\<lparr>receiveQueue := q\<rparr>))"
| "handle env (RunJob fails) s = (case persistenceQueue s of [] \<Rightarrow> s
   | j # q \<Rightarrow> run_job env fails j (s\<lparr>persistenceQueue := q\<rparr>))"
| "handle env TimerFired s = connect (s\<lparr>reconnectTimer := None\<rparr>)"
| "handle env Heartbeat s = transmitPresence env s"
| "handle env (CallSyncAst ast) s = snd (syncAst env ast s)"
| "handle env CallRefresh s = snd (refresh s)"
| "handle env (CallSendPresence c) s = sendPresence env c s"
| "handle env CallClose s = close s"

text \<open>The steps of a client, and what it can reach.\<close>

inductive client_step :: "'y client_env \<Rightarrow> event \<Rightarrow> 'y client \<Rightarrow> 'y client \<Rightarrow> bool" for env where
  step: "occurs e s \<Longrightarrow> client_step env e s (handle env e s)"

inductive_cases client_stepE: "client_step env e s s'"
inductive_simps client_step_iff: "client_step env e s s'"

inductive client_reachable :: "'y client_env \<Rightarrow> 'y client \<Rightarrow> bool" for env where
  init: "client_reachable env (initial_client env cid d)"
| step: "client_reachable env s \<Longrightarrow> client_step env e s s' \<Longrightarrow> client_reachable env s'"

end
