(* ===== verification/ClientSafety.thy ===== *)
theory ClientSafety
  imports CollabClient
begin

text \<open>
  What the collaboration client keeps through every run: the state of its connection, its pending
  updates and its sequence.
\<close>

section \<open>What the actions leave alone\<close>

text \<open>The part of the state that belongs to the connection.\<close>

definition link :: "'y client \<Rightarrow> _" where
  "link s = (socket s, ready s, closed s, restored s, connecting s, reconnectTimer s, sockets s)"

lemma link_simps [simp]:
  "link (emit e s) = link s" "link (persist env a k s) = link s" "link (reportStorageError s) = link s"
  "link (sendPendingUpdate p s) = link s" "link (flushPendingUpdates s) = link s"
  "link (transmitPresence env s) = link s" "link (maybeSaveSnapshot env s) = link s"
  "link (sendPresence env c s) = link s" "link (acknowledgePendingUpdate env b s) = link s"
  by (simp_all add: link_def emit_def persist_def reportStorageError_def sendPendingUpdate_def
      flushPendingUpdates_def transmitPresence_def maybeSaveSnapshot_def sendPresence_def
      acknowledgePendingUpdate_def Let_def split: option.split)

lemma link_upd [simp]:
  "link (s\<lparr>ydoc := y\<rparr>) = link s" "link (s\<lparr>uuids := n\<rparr>) = link s" "link (s\<lparr>pendingUpdates := ps\<rparr>) = link s"
  "link (s\<lparr>renderedAstJSON := r\<rparr>) = link s" "link (s\<lparr>pendingAst := a\<rparr>) = link s"
  "link (s\<lparr>lastSnapshotSequence := n'\<rparr>) = link s" "link (s\<lparr>snapshotInFlight := b\<rparr>) = link s"
  "link (s\<lparr>latestSequence := n'\<rparr>) = link s" "link (s\<lparr>documentId := d\<rparr>) = link s" "link (s\<lparr>db := d'\<rparr>) = link s"
  "link (s\<lparr>clientId := c\<rparr>) = link s" "link (s\<lparr>recoveredOffline := b\<rparr>) = link s" "link (s\<lparr>lastPresence := lp\<rparr>) = link s"
  "link (s\<lparr>receiveQueue := rq\<rparr>) = link s" "link (s\<lparr>receiveRejected := b\<rparr>) = link s"
  "link (s\<lparr>persistenceQueue := pq\<rparr>) = link s"
  "link (s\<lparr>readyState := rs\<rparr>) = link s" "link (s\<lparr>reconnectAttempts := k\<rparr>) = link s"
  by (simp_all add: link_def)

text \<open>An action that leaves the connection alone and does not lower the sequence or lose an update.\<close>

definition gentle :: "'y client \<Rightarrow> 'y client \<Rightarrow> bool" where
  "gentle s s' \<longleftrightarrow> link s' = link s \<and> latestSequence s' = latestSequence s \<and>
     set (pendingUpdates s) \<subseteq> set (pendingUpdates s')"

lemma gentle_refl [simp]: "gentle s s"
  by (simp add: gentle_def)

lemma gentle_trans: "gentle s t \<Longrightarrow> gentle t u \<Longrightarrow> gentle s u"
  by (auto simp: gentle_def)

lemma andThen_gentle:
  assumes "gentle t (snd (a s))" "\<And>u. gentle t u \<Longrightarrow> gentle t (snd (b u))"
  shows "gentle t (snd (andThen a b s))"
  using assms by (auto simp: andThen_def split: prod.split bool.split)

lemma gentle_basic:
  "gentle s (emit e s)" "gentle s (persist env x k s)" "gentle s (reportStorageError s)" "gentle s (sendPendingUpdate p s)"
  "gentle s (flushPendingUpdates s)" "gentle s (transmitPresence env s)" "gentle s (maybeSaveSnapshot env s)"
  by (auto simp: gentle_def link_def emit_def persist_def reportStorageError_def sendPendingUpdate_def
      flushPendingUpdates_def transmitPresence_def maybeSaveSnapshot_def Let_def split: option.split)

lemma gentle_close_socket: "gentle s (snd (close_socket n c s))"
  by (simp add: gentle_def link_def close_socket_def emit_def)

lemma gentle_fold_send: "gentle s (fold sendPendingUpdate ps s)"
  by (induction ps arbitrary: s) (auto intro: gentle_trans gentle_basic)

lemma gentle_run_job: "gentle s (run_job env fails j s)"
proof (cases j)
  case (SaveJob r a k)
  define s' where "s' = (case save (ce_z env) (ce_offline env) (store_key (ce_actor env) (ce_page env)) r a k (db s) of
      Inr d \<Rightarrow> if fails then reportStorageError s else s\<lparr>db := d\<rparr> | Inl _ \<Rightarrow> reportStorageError s)"
  have "gentle s s'" using gentle_basic(3) [of s] by (auto simp: s'_def gentle_def split: sum.split)
  then show ?thesis
    using SaveJob gentle_basic(4) gentle_trans [of s s'] by (auto simp: run_job_def s'_def [symmetric] split: option.split)
qed (simp add: run_job_def gentle_fold_send)

lemma gentle_emitAst: "gentle s (snd (emitAstIfChanged env s))"
  by (auto simp: emitAstIfChanged_def gentle_def Let_def emit_def link_def split: option.split)

lemma link_emitAst [simp]: "link (snd (emitAstIfChanged env s)) = link s"
  using gentle_emitAst by (auto simp: gentle_def)

lemma gentle_local: "gentle s (snd (change_document env y s))"
  by (auto simp: change_document_def onDocumentUpdate_def gentle_def Let_def persist_def link_def split: option.split)

lemma gentle_sync: "gentle s (snd (local_sync env a s))"
  unfolding local_sync_def by (auto split: sum.split intro!: gentle_local andThen_gentle)

lemma gentle_upd: "gentle s (f u) \<Longrightarrow> gentle s (snd (upd f u))"
  by (simp add: upd_def)

section \<open>The connection\<close>

definition client_ok :: "'y client \<Rightarrow> bool" where
  "client_ok s \<longleftrightarrow>
     (closed s \<longrightarrow> socket s = None \<and> \<not> ready s \<and> reconnectTimer s = None) \<and>
     (ready s \<longrightarrow> socket s \<noteq> None) \<and>
     (\<not> restored s \<longrightarrow> socket s = None \<and> latestSequence s = 0 \<and> connecting s \<noteq> AwaitPage) \<and>
     (connecting s \<noteq> Idle \<longrightarrow> socket s = None) \<and>
     (\<forall>n. socket s = Some n \<longrightarrow> n < sockets s) \<and>
     (\<forall>d. reconnectTimer s = Some d \<longrightarrow> INITIAL_RECONNECT_DELAY_MS \<le> d \<and> d \<le> MAX_RECONNECT_DELAY_MS) \<and>
     0 \<le> latestSequence s"

lemma client_ok_cong: "link s = link s' \<Longrightarrow> latestSequence s = latestSequence s' \<Longrightarrow> client_ok s = client_ok s'"
  by (simp add: client_ok_def link_def)

lemma gentle_ok: "gentle s s' \<Longrightarrow> client_ok s \<Longrightarrow> client_ok s'"
  using client_ok_cong [of s' s] by (simp add: gentle_def)

text \<open>What a step may do to the pending updates and to the sequence, unless it closes the client.\<close>

definition grows :: "'y client \<Rightarrow> 'y client \<Rightarrow> bool" where
  "grows s s' \<longleftrightarrow> (restored s \<longrightarrow> restored s') \<and> latestSequence s \<le> latestSequence s' \<and> (closed s' \<or> set (pendingUpdates s) \<subseteq> set (pendingUpdates s'))"

lemma gentle_grows: "gentle s s' \<Longrightarrow> grows s s'"
  by (simp add: gentle_def grows_def link_def)

lemma close_ok: "client_ok s \<Longrightarrow> client_ok (close s) \<and> closed (close s) \<and> restored (close s) = restored s \<and>
  latestSequence (close s) = latestSequence s"
  by (auto simp: client_ok_def close_def close_socket_def closable_def emit_def Let_def split: option.split)

lemma denyAccess_ok: "client_ok s \<Longrightarrow> client_ok (denyAccess s) \<and> closed (denyAccess s) \<and>
  restored (denyAccess s) = restored s \<and> latestSequence (denyAccess s) = latestSequence s"
  using close_ok [of s] by (auto simp: denyAccess_def emit_def client_ok_def)

lemma connect_ok: "client_ok s \<Longrightarrow> client_ok (connect s) \<and> grows s (connect s)"
  by (auto simp: client_ok_def connect_def emit_def grows_def)

lemma scheduleReconnect_ok: "client_ok s \<Longrightarrow> client_ok (scheduleReconnect s) \<and> grows s (scheduleReconnect s)"
  by (auto simp: client_ok_def scheduleReconnect_def grows_def INITIAL_RECONNECT_DELAY_MS_def MAX_RECONNECT_DELAY_MS_def)

text \<open>No code that closes a socket for a reconnection may be given to \<open>close\<close>.\<close>

lemma refresh_cases:
  "refresh s = (if closed s then (True, s)
     else if socket s = None then (True, connect (s\<lparr>ready := False\<rparr>)) else (False, s\<lparr>ready := False\<rparr>))"
  by (auto simp: refresh_def close_socket_def closable_def Let_def)

lemma refresh_ok: "client_ok s \<Longrightarrow> client_ok (snd (refresh s)) \<and> grows s (snd (refresh s))"
proof -
  assume "client_ok s"
  then have "client_ok (s\<lparr>ready := False\<rparr>)" by (simp add: client_ok_def)
  then show ?thesis
    using connect_ok [of "s\<lparr>ready := False\<rparr>"] \<open>client_ok s\<close> by (simp add: refresh_cases grows_def)
qed

lemma idle_ok: "client_ok s \<Longrightarrow> client_ok (s\<lparr>connecting := Idle\<rparr>) \<and> grows s (s\<lparr>connecting := Idle\<rparr>)"
  by (simp add: client_ok_def grows_def)

text \<open>Receiving, on a socket of an open client.\<close>

definition receiving :: "'y client \<Rightarrow> bool" where
  "receiving s \<longleftrightarrow> client_ok s \<and> \<not> closed s \<and> socket s \<noteq> None"

lemma gentle_receiving: "gentle s s' \<Longrightarrow> receiving s \<Longrightarrow> receiving s'"
  using gentle_ok [of s s'] by (auto simp: receiving_def gentle_def link_def)

text \<open>An update frame of the protocol: the tag 2, eight bytes of sequence, and the update.\<close>

definition update_payload :: "message \<Rightarrow> bytes option" where
  "update_payload m = (case m of BinaryMessage (t # b) \<Rightarrow> if t = 2 \<and> length b > 8 then Some (drop 8 b) else None | _ \<Rightarrow> None)"

text \<open>The only update that may leave \<open>pendingUpdates\<close> is one with the bytes \<open>ack\<close>.\<close>

definition keeps :: "bytes option \<Rightarrow> 'y client \<Rightarrow> 'y client \<Rightarrow> bool" where
  "keeps ack s s' \<longleftrightarrow> client_ok s' \<and> (restored s \<longrightarrow> restored s') \<and> latestSequence s \<le> latestSequence s' \<and>
     (closed s' \<or> (\<forall>p \<in> set (pendingUpdates s). ack \<noteq> Some (pending_bytes p) \<longrightarrow> p \<in> set (pendingUpdates s')))"

lemma keeps_grows: "client_ok s' \<Longrightarrow> grows s s' \<Longrightarrow> keeps ack s s'"
  by (auto simp: keeps_def grows_def)

lemma keeps_gentle: "keeps ack s s' \<Longrightarrow> gentle s' t \<Longrightarrow> keeps ack s t"
  using gentle_ok [of s' t] by (auto simp: keeps_def gentle_def link_def)

lemma keeps_andThen:
  assumes "keeps ack t (snd (a s))" "\<And>u. keeps ack t u \<Longrightarrow> keeps ack t (snd (b u))"
  shows "keeps ack t (snd (andThen a b s))"
  using assms by (auto simp: andThen_def split: prod.split bool.split)

lemma receive_hello_ok:
  assumes "receiving s"
  shows "keeps ack s (snd (receive_hello m s))"
proof -
  have "client_ok (emit OnStorageError s)" using assms gentle_ok gentle_basic(1) by (auto simp: receiving_def)
  then show ?thesis
    using assms denyAccess_ok [of "emit OnStorageError s"]
    by (auto simp: receive_hello_def keeps_def receiving_def client_ok_def emit_def split: option.split)
qed

lemma receive_presence_ok: "receiving s \<Longrightarrow> keeps ack s (snd (receive_presence m s))"
  by (auto simp: receive_presence_def keeps_def receiving_def client_ok_def emit_def Let_def split: option.split jsval.split)

lemma receive_snapshot_ok: "receiving s \<Longrightarrow> keeps ack s (snd (receive_snapshot_saved m s))"
  by (auto simp: receive_snapshot_saved_def keeps_def receiving_def client_ok_def split: option.split)

lemma receive_ready_ok:
  assumes "receiving s"
  shows "keeps ack s (snd (receive_ready env m s))"
proof (cases "sequence_field m ''latest_sequence''")
  case None
  then show ?thesis using assms by (simp add: receive_ready_def keeps_def receiving_def)
next
  case (Some n)
  let ?s1 = "s\<lparr>latestSequence := max (latestSequence s) n, ready := True, reconnectAttempts := 0\<rparr>"
  let ?s2 = "flushPendingUpdates (?s1\<lparr>pendingAst := None\<rparr>)"
  have "keeps ack s ?s2"
    using assms by (auto simp: keeps_def receiving_def client_ok_def flushPendingUpdates_def)
  moreover have "keeps ack s (snd (local_sync env a u))" if "keeps ack s u" for a u
    by (rule keeps_gentle [OF that gentle_sync])
  moreover have "keeps ack s (maybeSaveSnapshot env (transmitPresence env u))" if "keeps ack s u" for u
    by (rule keeps_gentle [OF that]) (rule gentle_trans [OF gentle_basic(6,7)])
  moreover have "keeps ack s (snd (emitAstIfChanged env u))" if "keeps ack s u" for u
    by (rule keeps_gentle [OF that gentle_emitAst])
  moreover have "keeps ack s (persist env None None (emit (OnStatus SOnline) u))" if "keeps ack s u" for u
    by (rule keeps_gentle [OF that]) (rule gentle_trans [OF gentle_basic(1,2)])
  ultimately show ?thesis
    unfolding receive_ready_def Some option.case Let_def
    by (intro keeps_andThen) (auto simp: upd_def split: option.split)
qed

lemma receiveJSON_ok: "receiving s \<Longrightarrow> keeps ack s (snd (receiveJSON env t s))"
  using receive_hello_ok [of s ack] receive_presence_ok [of s ack] receive_snapshot_ok [of s ack] receive_ready_ok [of s ack env]
  by (auto simp: receiveJSON_def keeps_def receiving_def split: option.split)

lemma acknowledge_ok:
  assumes "receiving s"
  shows "keeps (Some u) s (acknowledgePendingUpdate env u s)"
proof (cases "find_index (\<lambda>p. equalBytes (pending_bytes p) u) (pendingUpdates s)")
  case None
  then show ?thesis using assms by (simp add: acknowledgePendingUpdate_def keeps_def receiving_def)
next
  case (Some i)
  then have i: "i < length (pendingUpdates s)" "pending_bytes (pendingUpdates s ! i) = u"
    using find_index_Some [OF Some] by simp_all
  have "p \<in> set (take i (pendingUpdates s) @ drop (Suc i) (pendingUpdates s))"
    if "p \<in> set (pendingUpdates s)" "pending_bytes p \<noteq> u" for p
  proof -
    have "pendingUpdates s = take i (pendingUpdates s) @ pendingUpdates s ! i # drop (Suc i) (pendingUpdates s)"
      by (rule id_take_nth_drop [OF i(1)])
    then have "set (pendingUpdates s) = insert (pendingUpdates s ! i) (set (take i (pendingUpdates s) @ drop (Suc i) (pendingUpdates s)))"
      by (metis Un_insert_right list.simps(15) set_append)
    moreover have "p \<noteq> pendingUpdates s ! i" using that(2) i(2) by auto
    ultimately show ?thesis using that(1) by blast
  qed
  moreover have "client_ok (acknowledgePendingUpdate env u s)"
  proof -
    have "latestSequence (acknowledgePendingUpdate env u s) = latestSequence s"
      by (simp add: acknowledgePendingUpdate_def Some [simplified] persist_def)
    then show ?thesis
      using client_ok_cong [of "acknowledgePendingUpdate env u s" s] assms by (simp add: receiving_def)
  qed
  moreover have "restored (acknowledgePendingUpdate env u s) = restored s" "latestSequence (acknowledgePendingUpdate env u s) = latestSequence s"
    by (simp_all add: acknowledgePendingUpdate_def Some [simplified] persist_def)
  moreover have "pendingUpdates (acknowledgePendingUpdate env u s) = take i (pendingUpdates s) @ drop (Suc i) (pendingUpdates s)"
    by (simp add: acknowledgePendingUpdate_def Some [simplified] persist_def)
  ultimately show ?thesis unfolding keeps_def by auto
qed

lemma receiveBinary_ok:
  assumes "receiving s"
  shows "keeps (update_payload (BinaryMessage b)) s (snd (receiveBinary env b s))"
proof -
  let ?a = "update_payload (BinaryMessage b)"
  have s: "keeps ?a s s" using assms by (simp add: keeps_def receiving_def)
  have rs: "restored s" using assms by (auto simp: receiving_def client_ok_def)
  have r: "keeps ?a s (snd (refresh s))"
    using assms refresh_ok [of s] by (intro keeps_grows) (simp_all add: receiving_def)
  have first: "keeps ?a s (acknowledgePendingUpdate env (drop 9 b) s)" if "length b > 9" "b ! 0 = 2"
    using acknowledge_ok [OF assms, of "drop 9 b" env] that by (cases b) (simp_all add: update_payload_def)
  have base: "keeps ?a s (s\<lparr>lastSnapshotSequence := n\<rparr>)" for n
    using assms by (simp add: keeps_def receiving_def client_ok_def)
  have appl: "keeps ?a s (snd (apply_remote env (drop 9 b) u))" if "keeps ?a s u" for u
    using that by (auto simp: apply_remote_def keeps_def client_ok_def split: option.split)
  have seq: "keeps ?a s (persist env None None (u\<lparr>latestSequence := max (latestSequence u) n\<rparr>))"
    if "keeps ?a s u" for u n
    using that rs by (auto simp: keeps_def client_ok_def persist_def)
  have snap: "keeps ?a s (maybeSaveSnapshot env u)" if "keeps ?a s u" for u
    by (rule keeps_gentle [OF that gentle_basic(7)])
  have ast: "keeps ?a s (snd (emitAstIfChanged env u))" if "keeps ?a s u" for u
    by (rule keeps_gentle [OF that gentle_emitAst])
  show ?thesis
    unfolding receiveBinary_def Let_def
    using s r by (auto intro!: keeps_andThen first base appl seq snap ast simp: upd_def)
qed

lemma receive_ok:
  assumes "receiving s"
  shows "keeps (update_payload m) s (snd (receive env m s))"
  using receiveJSON_ok [OF assms] receiveBinary_ok [OF assms] by (simp add: receive_def split: message.split)

section \<open>Every step\<close>

text \<open>A message is received when the queue is not rejected and it came from the client's socket.\<close>

definition received :: "nat \<Rightarrow> 'y client \<Rightarrow> bool" where
  "received n s \<longleftrightarrow> \<not> receiveRejected s \<and> \<not> closed s \<and> socket s = Some n"

lemma process_message_cases:
  "process_message env n m s =
     (if received n s then
        let (ok, s') = receive env m s in s'\<lparr>receiveRejected := \<not> ok \<and> socket s' = Some n\<rparr>
      else s\<lparr>receiveRejected := receiveRejected s \<and> socket s = Some n\<rparr>)"
  by (auto simp: process_message_def received_def close_socket_def closable_def Let_def split: prod.split)

lemma process_message_ok:
  assumes "client_ok s"
  shows "keeps (if received n s then update_payload m else None) s (process_message env n m s)"
proof (cases "received n s")
  case False
  then show ?thesis using assms by (auto simp: process_message_cases keeps_def client_ok_def)
next
  case True
  obtain b s' where r: "receive env m s = (b, s')" by (cases "receive env m s") auto
  have k: "keeps (update_payload m) s s'" using receive_ok [of s m env] True assms r by (simp add: receiving_def received_def)
  have "keeps (update_payload m) s (s'\<lparr>receiveRejected := c\<rparr>)" for c
    by (rule keeps_gentle [OF k]) (simp add: gentle_def)
  then show ?thesis using True by (simp add: process_message_cases r)
qed

lemma load_sequence: "load z e k d = Inr (r, d') \<Longrightarrow> 0 \<le> r_sequence r"
  using stored_ok [of z k d]
  by (auto simp: load_def newOfflineRecord_def record_ok_def res_simps Let_def split: option.splits)

lemma adopt_ok:
  assumes "keeps ack s u" "restored u" "0 \<le> r_sequence r" "latestSequence s = 0"
  shows "keeps ack s (snd (adopt_record env r u))"
proof -
  have a: "keeps ack s (u\<lparr>clientId := c, documentId := d, latestSequence := r_sequence r\<rparr>)"
    "keeps ack s (u\<lparr>clientId := c, documentId := d, latestSequence := r_sequence r, ydoc := y,
       pendingUpdates := pendingUpdates u @ q, recoveredOffline := b\<rparr>)" for c d y q b
    using assms by (auto simp: keeps_def client_ok_def)
  then show ?thesis
    by (auto simp: adopt_record_def Let_def split: option.split intro!: keeps_gentle [OF _ gentle_emitAst])
qed

lemma restore_ok:
  assumes "client_ok s" "\<not> restored s"
  shows "keeps ack s (restoreOffline env fails s)"
proof -
  have base: "keeps ack s (s\<lparr>restored := True, db := d\<rparr>)" "keeps ack s (s\<lparr>restored := True\<rparr>)" for d
    using assms by (auto simp: keeps_def client_ok_def)
  have rep: "keeps ack s (reportStorageError u)" if "keeps ack s u" for u
    by (rule keeps_gentle [OF that gentle_basic(3)])
  define loaded where "loaded = (if fails then None
          else case load (ce_z env) (ce_offline env) (store_key (ce_actor env) (ce_page env)) (db s) of
            Inl _ \<Rightarrow> None | Inr q \<Rightarrow> Some q)"
  show ?thesis
  proof (cases loaded)
    case None
    then show ?thesis using rep [OF base(2)] by (simp add: restoreOffline_def loaded_def [symmetric])
  next
    case (Some q)
    obtain r d where q: "q = (r, d)" by (cases q) auto
    have "0 \<le> r_sequence r" using Some load_sequence by (auto simp: loaded_def q split: if_splits sum.splits)
    moreover have "latestSequence s = 0" using assms by (simp add: client_ok_def)
    ultimately have a: "keeps ack s (snd (adopt_record env r (s\<lparr>restored := True, db := d\<rparr>)))"
      by (intro adopt_ok [OF base(1)]) simp_all
    obtain b s2 where "adopt_record env r (s\<lparr>restored := True, db := d\<rparr>) = (b, s2)" by fastforce
    with a rep [OF a] rep [OF base(1)] base(1) Some show ?thesis
      by (simp add: restoreOffline_def loaded_def [symmetric] q Let_def split: bool.split)
  qed
qed

lemma resume_page_ok:
  assumes "client_ok s" "connecting s = AwaitPage"
  shows "keeps ack s (resume_page env r s)"
proof -
  have deny: "keeps ack s ((denyAccess s)\<lparr>connecting := Idle\<rparr>)"
    using denyAccess_ok [OF assms(1)] by (auto simp: keeps_def client_ok_def)
  have off: "keeps ack s ((scheduleReconnect (emit (OnStatus SOffline) s))\<lparr>connecting := Idle\<rparr>)"
  proof -
    have "client_ok (emit (OnStatus SOffline) s)" by (rule gentle_ok [OF gentle_basic(1) assms(1)])
    then have "client_ok (scheduleReconnect (emit (OnStatus SOffline) s))"
      "grows s (scheduleReconnect (emit (OnStatus SOffline) s))"
      using scheduleReconnect_ok [of "emit (OnStatus SOffline) s"] by (auto simp: grows_def emit_def)
    then show ?thesis by (auto simp: keeps_def grows_def client_ok_def)
  qed
  show ?thesis
    using assms deny off idle_ok [OF assms(1)]
    by (auto simp: resume_page_def keeps_def grows_def client_ok_def emit_def split: page_result.split option.split)
qed

lemma socket_closed_ok:
  assumes "client_ok s"
  shows "keeps ack s (socket_closed n code s)"
proof (cases "socket s = Some n")
  case True
  let ?s = "s\<lparr>socket := None, ready := False, snapshotInFlight := False\<rparr>"
  have ok: "client_ok ?s" "client_ok (emit (OnStatus SOffline) ?s)"
    using assms by (auto simp: client_ok_def emit_def)
  then show ?thesis
    using True denyAccess_ok [OF ok(1)] scheduleReconnect_ok [OF ok(2)]
    by (auto simp: socket_closed_def Let_def keeps_def grows_def emit_def)
next
  case False
  then show ?thesis using assms by (simp add: socket_closed_def keeps_def)
qed

text \<open>
  The bytes that a step acknowledges: those of the update frame it takes from the queue, where that
  frame came from the socket in use.
\<close>

definition acked :: "event \<Rightarrow> 'y client \<Rightarrow> bytes option" where
  "acked e s = (case (e, receiveQueue s) of
     (ProcessMessage, (n, m) # q) \<Rightarrow> if received n s then update_payload m else None | _ \<Rightarrow> None)"

lemma handle_ok:
  assumes "client_ok s" "occurs e s"
  shows "keeps (acked e s) s (handle env e s)"
proof -
  have self: "keeps ack s s" for ack using assms by (simp add: keeps_def)
  have g: "gentle s s' \<Longrightarrow> keeps ack s s'" for s' ack by (rule keeps_gentle [OF self])
  show ?thesis
  proof (cases e)
    case (RestoreDone fails)
    then show ?thesis using restore_ok assms by (simp add: occurs_def)
  next
    case RestoredSeen
    then show ?thesis
      using assms idle_ok [OF assms(1)]
      by (auto simp: occurs_def resume_restored_def keeps_def grows_def client_ok_def emit_def)
  next
    case (PageArrived r)
    then show ?thesis using resume_page_ok assms by (simp add: occurs_def)
  next
    case ProcessMessage
    show ?thesis
    proof (cases "receiveQueue s")
      case (Cons x q)
      obtain n m where x: "x = (n, m)" by (cases x) auto
      have "client_ok (s\<lparr>receiveQueue := q\<rparr>)" using assms(1) by (simp add: client_ok_def)
      from process_message_ok [OF this, of n m env]
      show ?thesis using ProcessMessage Cons x by (simp add: acked_def keeps_def received_def)
    qed (use ProcessMessage self in simp)
  next
    case (RunJob fails)
    show ?thesis
    proof (cases "persistenceQueue s")
      case (Cons j q)
      have "gentle s (run_job env fails j (s\<lparr>persistenceQueue := q\<rparr>))"
        by (rule gentle_trans [OF _ gentle_run_job]) (simp add: gentle_def)
      then show ?thesis using RunJob Cons g by simp
    qed (use RunJob self in simp)
  next
    case TimerFired
    have "client_ok (s\<lparr>reconnectTimer := None\<rparr>)" using assms(1) by (simp add: client_ok_def)
    from connect_ok [OF this] show ?thesis using TimerFired by (auto simp: keeps_def grows_def)
  next
    case (CallSyncAst ast)
    have "gentle s (snd (local_sync env ast (s\<lparr>renderedAstJSON := r\<rparr>)))" for r
      by (rule gentle_trans [OF _ gentle_sync]) (simp add: gentle_def)
    moreover have "gentle s (s\<lparr>renderedAstJSON := r, pendingAst := x\<rparr>)" for r x
      by (simp add: gentle_def link_def)
    ultimately show ?thesis using CallSyncAst g self by (simp add: syncAst_def Let_def)
  next
    case (SocketOpened n)
    then show ?thesis
      using assms by (auto simp: keeps_def Let_def emit_def client_ok_def)
  next
    case (CallSendPresence c)
    have "gentle s (sendPresence env c s)"
      unfolding sendPresence_def by (rule gentle_trans [OF _ gentle_basic(6)]) (simp add: gentle_def)
    then show ?thesis using CallSendPresence g by simp
  next
    case CallConnect
    then show ?thesis using connect_ok [OF assms(1)] by (simp add: keeps_grows)
  next
    case CallRefresh
    then show ?thesis using refresh_ok [OF assms(1)] by (simp add: keeps_grows)
  next
    case CallClose
    then show ?thesis using close_ok [OF assms(1)] by (simp add: keeps_def)
  next
    case (SocketClosed n code)
    then show ?thesis using socket_closed_ok [OF assms(1)] by simp
  next
    case (SocketErrored n)
    then show ?thesis using g [OF gentle_basic(1)] self by simp
  next
    case (SocketMessage n m)
    have "gentle s (s\<lparr>receiveQueue := q\<rparr>)" for q by (simp add: gentle_def)
    then show ?thesis using SocketMessage g by simp
  next
    case Heartbeat
    then show ?thesis using g [OF gentle_basic(6)] by simp
  qed
qed

lemma initial_ok: "client_ok (initial_client env cid d)"
  by (simp add: client_ok_def initial_client_def)

lemma reachable_ok: "client_reachable env s \<Longrightarrow> client_ok s"
  by (induction rule: client_reachable.induct)
    (use handle_ok initial_ok in \<open>auto simp: client_step_iff keeps_def\<close>)

section \<open>Silence after closing\<close>

text \<open>
  What a closed client may still do: report that its storage fails, once, when a queued save or the
  first load fails. Everything else the outside notices is an effect, too, and would be one more.
\<close>

definition storage_event :: "event \<Rightarrow> bool" where
  "storage_event e \<longleftrightarrow> (case e of RunJob _ \<Rightarrow> True | RestoreDone _ \<Rightarrow> True | _ \<Rightarrow> False)"

definition silent :: "event \<Rightarrow> 'y client \<Rightarrow> 'y client \<Rightarrow> bool" where
  "silent e s s' \<longleftrightarrow> effects s' = effects s \<or>
     storage_event e \<and> \<not> storageFailed s \<and> storageFailed s' \<and> effects s' = OnStorageError # effects s"

lemma closed_fold_send: "\<not> ready s \<Longrightarrow> fold sendPendingUpdate ps s = s"
  by (induction ps) (simp_all add: sendPendingUpdate_def)

lemma report_silent: "storage_event e \<Longrightarrow> effects s = effects t \<Longrightarrow> storageFailed s = storageFailed t \<Longrightarrow>
    silent e s (reportStorageError t)"
  by (simp add: silent_def reportStorageError_def emit_def)

lemma closed_run_job:
  assumes "\<not> ready s"
  shows "silent (RunJob f) s (run_job env fails j s) \<and> closed (run_job env fails j s) = closed s"
proof (cases j)
  case (SaveJob r a k)
  have "silent (RunJob f) s (reportStorageError s)" by (rule report_silent) (simp_all add: storage_event_def)
  moreover have "\<not> ready (reportStorageError s)" "closed (reportStorageError s) = closed s"
    using assms by (simp_all add: reportStorageError_def emit_def)
  ultimately show ?thesis
    using assms SaveJob by (auto simp: run_job_def silent_def sendPendingUpdate_def Let_def split: sum.split option.split)
qed (simp add: run_job_def silent_def closed_fold_send assms)

lemma closed_handle:
  assumes "client_ok s" "closed s" "occurs e s"
  shows "silent e s (handle env e s) \<and> closed (handle env e s)"
proof -
  have c: "socket s = None" "\<not> ready s" "reconnectTimer s = None" using assms by (auto simp: client_ok_def)
  show ?thesis
  proof (cases e)
    case (RunJob fails)
    then show ?thesis
      using closed_run_job [of "s\<lparr>persistenceQueue := tl (persistenceQueue s)\<rparr>" fails env fails "hd (persistenceQueue s)"] c assms
      by (cases "persistenceQueue s") (auto simp: silent_def)
  next
    case (RestoreDone fails)
    have "silent e s (reportStorageError (s\<lparr>restored := True\<rparr>))"
      by (rule report_silent) (simp_all add: RestoreDone storage_event_def)
    moreover have "closed (reportStorageError (s\<lparr>restored := True\<rparr>))"
      using assms by (simp add: reportStorageError_def emit_def)
    ultimately show ?thesis
      using assms RestoreDone by (auto simp: restoreOffline_def Let_def silent_def split: option.split sum.split)
  next
    case ProcessMessage
    then show ?thesis
      using assms c by (cases "receiveQueue s") (auto simp: process_message_cases received_def silent_def)
  qed (use assms c in \<open>auto simp: silent_def connect_def resume_restored_def resume_page_def socket_closed_def
      occurs_def transmitPresence_def syncAst_def refresh_def sendPresence_def close_def split: option.split\<close>)
qed

section \<open>Properties\<close>

text \<open>C1: in every state a client can reach, a closed client has no socket, is not ready and has no reconnect
  timer; a client is only ready on a socket; before the stored copy is restored there is no socket and
  no sequence; and a reconnect delay lies between half a second and ten seconds.\<close>

theorem client_invariant:
  assumes "client_reachable env s"
  shows "client_ok s"
  using assms by (rule reachable_ok)


text \<open>C14: a step never lowers the sequence, and a local update leaves the queue of pending updates only when
  the step receives, on the socket in use, an update frame (tag 2, never a snapshot) with exactly its bytes,
  or closes the client.\<close>

theorem pending_until_acknowledged:
  assumes "client_reachable env s" "client_step env e s s'"
  shows "latestSequence s \<le> latestSequence s' \<and>
     (closed s' \<or> set (pendingUpdates s) \<subseteq> set (pendingUpdates s') \<union> {p. acked e s = Some (pending_bytes p)})"
  using assms(2) handle_ok [OF reachable_ok [OF assms(1)], of e env] by (auto simp: client_step_iff keeps_def)

end
