(* ===== verification/ClientRuns.thy ===== *)
theory ClientRuns
  imports ClientSafety
begin

text \<open>
  Runs of the collaboration client: from every state in which it is under way it can come online
  again, and a run in which an update is sent before it is stored.
\<close>

text \<open>A run as a function: nothing where an event does not occur.\<close>

fun run_events :: "'y client_env \<Rightarrow> event list \<Rightarrow> 'y client \<Rightarrow> 'y client option" where
  "run_events env [] s = Some s"
| "run_events env (e # es) s = (if occurs e s then run_events env es (handle env e s) else None)"

lemma run_reachable: "client_reachable env s \<Longrightarrow> run_events env es s = Some s' \<Longrightarrow> client_reachable env s'"
  by (induction es arbitrary: s) (auto split: if_splits intro: client_reachable.step client_step.step)

lemma run_append: "run_events env (es @ fs) s = Option.bind (run_events env es s) (run_events env fs)"
  by (induction es arbitrary: s) simp_all

section \<open>A concrete client\<close>

definition ready_message :: jsval where
  "ready_message = JObj [(js ''type'', JStr (js ''ready'')), (js ''latest_sequence'', JNum (Dec False 0 0))]"

definition tree_env :: "ytree client_env" where
  "tree_env = \<lparr>ce_z = sample_zenv, ce_api = tree_api, ce_rel = sample_rel, ce_offline = sample_offline,
     ce_actor = sample_uuid, ce_page = sample_uuid, ce_initial = [(js ''type'', JStr (js ''document''))],
     ce_origin = (js ''https:'', js ''wiki''), ce_uuid = (\<lambda>_. sample_uuid), stringify = (\<lambda>_. []),
     json_parse = (\<lambda>_. Some ready_message), applyUpdate = (\<lambda>_ y. Some y), encodeState = (\<lambda>_. [1]),
     update_between = (\<lambda>_ _. Some [7]), sync_throws = (\<lambda>_ y. y)\<rparr>"

definition tree_start :: "ytree client" where
  "tree_start = initial_client tree_env sample_uuid Map.empty"

definition to_ready :: "event list" where
  "to_ready = [RestoreDone False, CallConnect, RestoredSeen, PageArrived (PageFound True), SocketOpened 0,
     SocketMessage 0 (TextMessage []), ProcessMessage]"

lemma tree_start_reachable: "client_reachable tree_env tree_start"
  unfolding tree_start_def by (rule client_reachable.init)

lemma tree_run_reachable:
  "run_events tree_env es tree_start = Some s \<Longrightarrow> client_reachable tree_env s"
  by (rule run_reachable [OF tree_start_reachable])

definition early_send :: "ytree client \<Rightarrow> bool" where
  "early_send s \<longleftrightarrow> list_ex (\<lambda>p. list_ex (\<lambda>e. e = SendUpdate 0 (pending_id p @ pending_bytes p)) (effects s)) (pendingUpdates s) \<and>
     (case stored sample_zenv (store_key sample_uuid sample_uuid) (db s) of
        Inr (Some r) \<Rightarrow> r_pending r = [] | _ \<Rightarrow> False)"

text \<open>
  A client online, with its first update acknowledged by a frame that has arrived. The run is
  evaluated once, for all that is read off it.
\<close>

definition acknowledged_run :: "event list" where
  "acknowledged_run = [RunJob False, SocketMessage 0 (BinaryMessage [2, 0, 0, 0, 0, 0, 0, 0, 1, 7])]"

lemma run_evaluated:
  "case run_events tree_env (to_ready @ [RunJob False]) tree_start of None \<Rightarrow> False
   | Some s \<Rightarrow> early_send s \<and> (case run_events tree_env acknowledged_run s of None \<Rightarrow> False
       | Some t \<Rightarrow> receiveQueue t \<noteq> [] \<and> receiveQueue (handle tree_env CallClose t) \<noteq> [] \<and>
           pendingUpdates (handle tree_env ProcessMessage t) = [])"
  by code_simp

definition online_client :: "ytree client" where
  "online_client = the (run_events tree_env (to_ready @ RunJob False # acknowledged_run) tree_start)"

lemma online_client:
  "run_events tree_env (to_ready @ RunJob False # acknowledged_run) tree_start = Some online_client"
  "receiveQueue online_client \<noteq> []" "receiveQueue (handle tree_env CallClose online_client) \<noteq> []"
  "pendingUpdates (handle tree_env ProcessMessage online_client) = []"
proof -
  obtain s t where "run_events tree_env (to_ready @ [RunJob False]) tree_start = Some s"
    "run_events tree_env acknowledged_run s = Some t" "receiveQueue t \<noteq> []"
    "receiveQueue (handle tree_env CallClose t) \<noteq> []" "pendingUpdates (handle tree_env ProcessMessage t) = []"
    using run_evaluated by (auto split: option.splits)
  moreover from this have "run_events tree_env (to_ready @ RunJob False # acknowledged_run) tree_start = Some t"
    using run_append [of tree_env "to_ready @ [RunJob False]" acknowledged_run] by simp
  ultimately show "run_events tree_env (to_ready @ RunJob False # acknowledged_run) tree_start = Some online_client"
    "receiveQueue online_client \<noteq> []" "receiveQueue (handle tree_env CallClose online_client) \<noteq> []"
    "pendingUpdates (handle tree_env ProcessMessage online_client) = []"
    by (simp_all add: online_client_def)
qed

lemma online_reachable: "client_reachable tree_env online_client"
  by (rule tree_run_reachable [OF online_client(1)])

text \<open>A new page's first update is sent while it is not in the offline store: the flush that \<open>ready\<close>
  queues runs before the save of the update that the same handler makes.\<close>

theorem sent_before_stored: "\<exists>s. client_reachable tree_env s \<and> early_send s"
  using run_evaluated tree_run_reachable by (fastforce split: option.splits)

section \<open>Sockets and their messages\<close>

text \<open>Only arriving messages and new sockets change these.\<close>

definition outer :: "'y client \<Rightarrow> (nat \<times> message) list \<times> bool \<times> nat" where
  "outer s = (receiveQueue s, receiveRejected s, sockets s)"

lemma outer_upd [simp]:
  "outer (s\<lparr>ydoc := y\<rparr>) = outer s" "outer (s\<lparr>uuids := n\<rparr>) = outer s" "outer (s\<lparr>pendingUpdates := ps\<rparr>) = outer s"
  "outer (s\<lparr>renderedAstJSON := r\<rparr>) = outer s" "outer (s\<lparr>pendingAst := a\<rparr>) = outer s"
  "outer (s\<lparr>lastSnapshotSequence := n'\<rparr>) = outer s" "outer (s\<lparr>snapshotInFlight := b\<rparr>) = outer s"
  "outer (s\<lparr>latestSequence := n'\<rparr>) = outer s" "outer (s\<lparr>documentId := d\<rparr>) = outer s" "outer (s\<lparr>db := d'\<rparr>) = outer s"
  "outer (s\<lparr>clientId := c\<rparr>) = outer s" "outer (s\<lparr>recoveredOffline := b\<rparr>) = outer s" "outer (s\<lparr>lastPresence := lp\<rparr>) = outer s"
  "outer (s\<lparr>persistenceQueue := pq\<rparr>) = outer s" "outer (s\<lparr>readyState := rs\<rparr>) = outer s"
  "outer (s\<lparr>reconnectAttempts := k\<rparr>) = outer s" "outer (s\<lparr>ready := b\<rparr>) = outer s" "outer (s\<lparr>closed := b\<rparr>) = outer s"
  "outer (s\<lparr>socket := so\<rparr>) = outer s" "outer (s\<lparr>connecting := cp\<rparr>) = outer s" "outer (s\<lparr>reconnectTimer := rt\<rparr>) = outer s"
  "outer (s\<lparr>effects := es\<rparr>) = outer s" "outer (s\<lparr>storageFailed := b\<rparr>) = outer s" "outer (s\<lparr>restored := b\<rparr>) = outer s"
  by (simp_all add: outer_def)

lemma outer_sockets: "outer (s\<lparr>sockets := n\<rparr>) = (receiveQueue s, receiveRejected s, n)"
  by (simp add: outer_def)

lemma outer_simps [simp]:
  "outer (emit e s) = outer s" "outer (persist env a k s) = outer s" "outer (reportStorageError s) = outer s"
  "outer (sendPendingUpdate p s) = outer s" "outer (flushPendingUpdates s) = outer s"
  "outer (transmitPresence env s) = outer s" "outer (maybeSaveSnapshot env s) = outer s"
  "outer (close s) = outer s" "outer (denyAccess s) = outer s" "outer (connect s) = outer s"
  "outer (scheduleReconnect s) = outer s" "outer (acknowledgePendingUpdate env b s) = outer s"
  by (simp_all add: emit_def persist_def reportStorageError_def sendPendingUpdate_def denyAccess_def connect_def
      flushPendingUpdates_def transmitPresence_def maybeSaveSnapshot_def close_def close_socket_def scheduleReconnect_def
      acknowledgePendingUpdate_def Let_def split: option.split)

lemma outer_more [simp]:
  "outer (snd (refresh s)) = outer s" "outer (sendPresence env c s) = outer s" "outer (resume_restored s) = outer s"
  "outer (socket_closed n code s) = outer s"
  by (simp_all add: refresh_cases sendPresence_def resume_restored_def socket_closed_def Let_def split: option.split)

definition keeps_outer :: "'y act \<Rightarrow> bool" where
  "keeps_outer a \<longleftrightarrow> (\<forall>s. outer (snd (a s)) = outer s)"

lemma keeps_outerD: "keeps_outer a \<Longrightarrow> outer (snd (a s)) = outer s"
  by (simp add: keeps_outer_def)

lemma keeps_outer_andThen: "keeps_outer a \<Longrightarrow> keeps_outer b \<Longrightarrow> keeps_outer (andThen a b)"
  unfolding keeps_outer_def andThen_def by (auto split: prod.split bool.split) (metis snd_conv)+

lemma keeps_outer_upd: "(\<And>s. outer (f s) = outer s) \<Longrightarrow> keeps_outer (upd f)"
  by (simp add: keeps_outer_def upd_def)

lemma keeps_outer_basic:
  "keeps_outer (emitAstIfChanged env)" "keeps_outer (change_document env y)" "keeps_outer (\<lambda>s. (b, s))"
  by (auto simp: keeps_outer_def emitAstIfChanged_def change_document_def onDocumentUpdate_def Let_def split: option.split)

lemma keeps_outer_sync: "keeps_outer (local_sync env a)"
  unfolding keeps_outer_def
proof
  fix s
  have "keeps_outer (andThen (change_document env y) (\<lambda>s. (False, s)))" for y
    by (intro keeps_outer_andThen keeps_outer_basic)
  then show "outer (snd (local_sync env a s)) = outer s"
    by (auto simp: local_sync_def keeps_outerD [OF keeps_outer_basic(2)] keeps_outerD split: sum.split)
qed

lemma keeps_outer_if: "keeps_outer a \<Longrightarrow> keeps_outer b \<Longrightarrow> keeps_outer (if c then a else b)"
  by simp

lemmas keeps_outer_intros = keeps_outer_andThen keeps_outer_upd keeps_outer_basic keeps_outer_sync keeps_outer_if

lemma outer_receive: "outer (snd (receive env m s)) = outer s"
proof -
  have r: "outer (snd (receive_ready env m s)) = outer s" for m
  proof (cases "sequence_field m ''latest_sequence''")
    case (Some n)
    show ?thesis
      unfolding receive_ready_def Some option.case Let_def
      by (subst keeps_outerD) (auto intro!: keeps_outer_intros split: option.split)
  qed (simp add: receive_ready_def)
  have j: "outer (snd (receiveJSON env t s)) = outer s" for t
    by (auto simp: receiveJSON_def r receive_hello_def receive_presence_def receive_snapshot_saved_def Let_def
        split: option.split jsval.split)
  have a: "keeps_outer (apply_remote env u)" for u
    by (auto simp: keeps_outer_def apply_remote_def split: option.split)
  have l: "keeps_outer (\<lambda>s. if ready s then andThen (emitAstIfChanged env) (upd (maybeSaveSnapshot env)) s else (True, s))"
    using keeps_outer_andThen [OF keeps_outer_basic(1) keeps_outer_upd [of "maybeSaveSnapshot env"]]
    by (simp add: keeps_outer_def)
  have "outer (snd (receiveBinary env b s)) = outer s" for b
    unfolding receiveBinary_def Let_def
    by (auto simp: keeps_outerD [OF keeps_outer_andThen [OF a keeps_outer_andThen [OF keeps_outer_upd l]]])
  with j show ?thesis by (simp add: receive_def split: message.split)
qed

lemma outer_process: "\<exists>b. outer (process_message env n m s) = (receiveQueue s, b, sockets s)"
  using outer_receive [of env m s]
  by (cases "receive env m s") (auto simp: process_message_cases outer_def)

lemma outer_fold [simp]: "outer (fold sendPendingUpdate ps s) = outer s"
  by (induction ps arbitrary: s) simp_all

lemma outer_run_job: "outer (run_job env fails j s) = outer s"
  by (auto simp: run_job_def Let_def split: job.split sum.split option.split)

lemma outer_restore: "outer (restoreOffline env fails s) = outer s"
proof -
  have "keeps_outer (adopt_record env r)" for r
    by (auto simp: keeps_outer_def adopt_record_def Let_def keeps_outerD [OF keeps_outer_basic(1)] split: option.split)
  then have "outer (snd (adopt_record env r s)) = outer s" for r s by (rule keeps_outerD)
  then show ?thesis
    by (auto simp: restoreOffline_def Let_def split: option.split sum.split prod.split bool.split) (metis outer_upd outer_simps snd_conv)+
qed

section \<open>Coming online\<close>

text \<open>Events that are not calls of the editor.\<close>

definition is_call :: "event \<Rightarrow> bool" where
  "is_call e \<longleftrightarrow> (case e of CallConnect \<Rightarrow> True | CallSyncAst _ \<Rightarrow> True | CallRefresh \<Rightarrow> True
     | CallSendPresence _ \<Rightarrow> True | CallClose \<Rightarrow> True | _ \<Rightarrow> False)"

text \<open>The client is under way: on a socket, connecting, or waiting for its timer.\<close>

definition under_way :: "'y client \<Rightarrow> bool" where
  "under_way s \<longleftrightarrow> \<not> closed s \<and> (socket s \<noteq> None \<or> connecting s \<noteq> Idle \<or> reconnectTimer s \<noteq> None)"

definition goes :: "'y client_env \<Rightarrow> 'y client \<Rightarrow> ('y client \<Rightarrow> bool) \<Rightarrow> bool" where
  "goes env s P \<longleftrightarrow> (\<exists>es s'. list_all (\<lambda>e. \<not> is_call e) es \<and> run_events env es s = Some s' \<and> P s')"

lemma goes_refl: "P s \<Longrightarrow> goes env s P"
  unfolding goes_def by (intro exI [of _ "[]"]) simp

lemma goes_step:
  assumes "\<not> is_call e" "occurs e s" "goes env (handle env e s) P"
  shows "goes env s P"
proof -
  obtain es s' where "list_all (\<lambda>e. \<not> is_call e) es" "run_events env es (handle env e s) = Some s'" "P s'"
    using assms(3) by (auto simp: goes_def)
  then show ?thesis unfolding goes_def using assms(1,2) by (intro exI [of _ "e # es"]) simp
qed

lemma goes_trans:
  assumes "goes env s Q" "\<And>t. Q t \<Longrightarrow> goes env t P"
  shows "goes env s P"
proof -
  obtain es t where 1: "list_all (\<lambda>e. \<not> is_call e) es" "run_events env es s = Some t" "Q t"
    using assms(1) by (auto simp: goes_def)
  obtain fs u where 2: "list_all (\<lambda>e. \<not> is_call e) fs" "run_events env fs t = Some u" "P u"
    using assms(2) [OF 1(3)] by (auto simp: goes_def)
  show ?thesis unfolding goes_def
    using 1 2 by (intro exI [of _ "es @ fs"] exI [of _ u]) (simp add: run_append)
qed

text \<open>The stages of coming online.\<close>

definition idle_timer :: "'y client \<Rightarrow> bool" where
  "idle_timer s \<longleftrightarrow> \<not> closed s \<and> socket s = None \<and> connecting s = Idle \<and> reconnectTimer s \<noteq> None"

definition at_phase :: "connect_phase \<Rightarrow> 'y client \<Rightarrow> bool" where
  "at_phase ph s \<longleftrightarrow> \<not> closed s \<and> socket s = None \<and> connecting s = ph"

text \<open>Every message in the queue came from a socket that has been opened.\<close>

definition queue_ok :: "'y client \<Rightarrow> bool" where
  "queue_ok s \<longleftrightarrow> list_all (\<lambda>q. fst q < sockets s) (receiveQueue s)"

lemma stage_socket:
  assumes "client_ok s" "\<not> closed s" "socket s = Some n" "n < sockets s" "connecting s = Idle"
  shows "goes env s (\<lambda>t. idle_timer t \<and> outer t = outer s)"
proof (rule goes_step [of "SocketClosed n 1006"])
  show "goes env (handle env (SocketClosed n 1006) s) (\<lambda>t. idle_timer t \<and> outer t = outer s)"
    using assms by (intro goes_refl) (auto simp: idle_timer_def socket_closed_def Let_def scheduleReconnect_def emit_def)
qed (use assms in \<open>simp_all add: is_call_def occurs_def\<close>)

lemma stage_timer:
  assumes "idle_timer s"
  shows "goes env s (\<lambda>t. at_phase AwaitRestored t \<and> outer t = outer s)"
proof (rule goes_step [of TimerFired])
  show "goes env (handle env TimerFired s) (\<lambda>t. at_phase AwaitRestored t \<and> outer t = outer s)"
    using assms by (intro goes_refl) (auto simp: idle_timer_def at_phase_def connect_def emit_def)
qed (use assms in \<open>simp_all add: is_call_def occurs_def idle_timer_def\<close>)

lemma outer_sync_ast: "outer (snd (syncAst env a s)) = outer s"
  by (auto simp: syncAst_def Let_def keeps_outerD [OF keeps_outer_sync])

lemma queue_ok_cong: "outer s = outer s' \<Longrightarrow> queue_ok s = queue_ok s'"
  by (simp add: outer_def queue_ok_def)

lemma queue_ok_handle:
  assumes "queue_ok s" "occurs e s"
  shows "queue_ok (handle env e s)"
proof (cases e)
  case (SocketMessage n m)
  then show ?thesis using assms by (simp add: queue_ok_def occurs_def)
next
  case ProcessMessage
  show ?thesis
  proof (cases "receiveQueue s")
    case (Cons x q)
    obtain b where "outer (handle env e s) = (q, b, sockets s)"
      using ProcessMessage Cons outer_process [of env "fst x" "snd x" "s\<lparr>receiveQueue := q\<rparr>"] by (cases x) auto
    then show ?thesis using assms Cons by (simp add: queue_ok_def outer_def)
  qed (use ProcessMessage assms in simp)
next
  case (PageArrived r)
  have "outer (resume_page env r s) = outer s \<or> outer (resume_page env r s) = (receiveQueue s, receiveRejected s, Suc (sockets s))"
    by (simp add: resume_page_def outer_sockets split: page_result.split option.split)
  then show ?thesis
    using assms PageArrived by (auto simp: queue_ok_def outer_def elim!: list.pred_mono_strong)
qed (use assms queue_ok_cong [of "handle env e s" s] in
    \<open>simp_all add: outer_run_job outer_restore outer_sync_ast Let_def split: list.split\<close>)

lemma reachable_queue: "client_reachable env s \<Longrightarrow> queue_ok s"
  by (induction rule: client_reachable.induct)
    (auto simp: client_step_iff queue_ok_handle, simp add: queue_ok_def initial_client_def)

lemma link_restore: "link (restoreOffline env fails s) = link (s\<lparr>restored := True\<rparr>)"
proof -
  have a: "link (snd (adopt_record env r u)) = link u" for r u
    by (auto simp: adopt_record_def Let_def split: option.split)
  obtain f where f: "f = adopt_record env" by simp
  have "link (snd (f r (s\<lparr>restored := True, db := d\<rparr>))) = link (s\<lparr>restored := True\<rparr>)" for r d
    unfolding f a by simp
  then show ?thesis
    unfolding restoreOffline_def Let_def f [symmetric]
    by (auto split: option.split sum.split prod.split bool.split) (metis snd_conv link_simps(3))+
qed

lemma stage_restored:
  assumes "at_phase AwaitRestored s"
  shows "goes env s (\<lambda>t. at_phase AwaitPage t \<and> outer t = outer s)"
proof -
  have seen: "goes env t (\<lambda>u. at_phase AwaitPage u \<and> outer u = outer t)"
    if "at_phase AwaitRestored t" "restored t" for t
  proof (rule goes_step [of RestoredSeen])
    show "goes env (handle env RestoredSeen t) (\<lambda>u. at_phase AwaitPage u \<and> outer u = outer t)"
      using that by (intro goes_refl) (auto simp: at_phase_def resume_restored_def emit_def)
  qed (use that in \<open>simp_all add: is_call_def occurs_def at_phase_def\<close>)
  show ?thesis
  proof (cases "restored s")
    case False
    let ?t = "restoreOffline env False s"
    have "at_phase AwaitRestored ?t" "restored ?t"
      using assms link_restore [of env False s] by (auto simp: at_phase_def link_def)
    from seen [OF this] have "goes env (handle env (RestoreDone False) s) (\<lambda>u. at_phase AwaitPage u \<and> outer u = outer s)"
      by (simp add: outer_restore)
    from goes_step [OF _ _ this] False show ?thesis by (simp add: is_call_def occurs_def)
  qed (rule seen [OF assms])
qed

definition on_new_socket :: "'y client \<Rightarrow> bool" where
  "on_new_socket s \<longleftrightarrow> \<not> closed s \<and> \<not> receiveRejected s \<and> (\<exists>n. socket s = Some n \<and> n < sockets s \<and> list_all (\<lambda>q. fst q \<noteq> n) (receiveQueue s))"

lemma stage_page:
  assumes "at_phase AwaitPage s" "queue_ok s" "\<not> receiveRejected s" "encodeURIComponent (ce_page env) \<noteq> None"
  shows "goes env s on_new_socket"
proof (rule goes_step [of "PageArrived (PageFound True)"])
  show "goes env (handle env (PageArrived (PageFound True)) s) on_new_socket"
    using assms
    by (intro goes_refl) (auto simp: at_phase_def on_new_socket_def queue_ok_def resume_page_def emit_def
        collaborationURL_def elim!: list.pred_mono_strong)
qed (use assms in \<open>simp_all add: is_call_def occurs_def at_phase_def\<close>)

lemma stage_drain: "on_new_socket s \<Longrightarrow> goes env s (\<lambda>t. on_new_socket t \<and> receiveQueue t = [])"
proof (induction "receiveQueue s" arbitrary: s)
  case (Cons x q)
  obtain n m where x: "x = (n, m)" by (cases x) auto
  have e: "handle env ProcessMessage s = s\<lparr>receiveQueue := q\<rparr>"
    using Cons.hyps(2) [symmetric] Cons.prems by (auto simp: x process_message_cases received_def on_new_socket_def)
  have "on_new_socket (s\<lparr>receiveQueue := q\<rparr>)"
    using Cons.hyps(2) [symmetric] Cons.prems by (auto simp: on_new_socket_def)
  then have "goes env (s\<lparr>receiveQueue := q\<rparr>) (\<lambda>t. on_new_socket t \<and> receiveQueue t = [])"
    by (intro Cons.hyps(1)) simp_all
  then have "goes env (handle env ProcessMessage s) (\<lambda>t. on_new_socket t \<and> receiveQueue t = [])" unfolding e .
  from goes_step [OF _ _ this] show ?case
    using Cons.hyps(2) [symmetric] by (simp add: is_call_def occurs_def)
qed (simp add: goes_refl)

lemma receive_ready_ready:
  assumes "sequence_field m ''latest_sequence'' = Some n"
  shows "ready (snd (receive_ready env m s)) \<and> socket (snd (receive_ready env m s)) = socket s"
proof -
  let ?s1 = "s\<lparr>latestSequence := max (latestSequence s) n, ready := True, reconnectAttempts := 0\<rparr>"
  let ?s2 = "flushPendingUpdates (?s1\<lparr>pendingAst := None\<rparr>)"
  have "gentle ?s2 (snd (local_sync env a u))" if "gentle ?s2 u" for a u
    by (rule gentle_trans [OF that gentle_sync])
  moreover have "gentle ?s2 (maybeSaveSnapshot env (transmitPresence env u))" if "gentle ?s2 u" for u
    by (rule gentle_trans [OF that gentle_trans [OF gentle_basic(6,7)]])
  moreover have "gentle ?s2 (snd (emitAstIfChanged env u))" if "gentle ?s2 u" for u
    by (rule gentle_trans [OF that gentle_emitAst])
  moreover have "gentle ?s2 (persist env None None (emit (OnStatus SOnline) u))" if "gentle ?s2 u" for u
    by (rule gentle_trans [OF that gentle_trans [OF gentle_basic(1,2)]])
  ultimately have "gentle ?s2 (snd (receive_ready env m s))"
    unfolding receive_ready_def assms option.case Let_def
    by (intro andThen_gentle) (auto simp: upd_def split: option.split)
  then show ?thesis by (simp add: gentle_def link_def flushPendingUpdates_def)
qed

definition ready_text :: "'y client_env \<Rightarrow> jstr \<Rightarrow> bool" where
  "ready_text env t \<longleftrightarrow> (case json_parse env t of
     Some m \<Rightarrow> mfield m ''type'' = JStr (js ''ready'') \<and> sequence_field m ''latest_sequence'' \<noteq> None
   | None \<Rightarrow> False)"

lemma process_ready:
  assumes "ready_text env t" "received n s"
  shows "ready (process_message env n (TextMessage t) s) \<and> socket (process_message env n (TextMessage t) s) = Some n"
proof -
  obtain m k where m: "json_parse env t = Some m" "mfield m ''type'' = JStr (js ''ready'')"
    "sequence_field m ''latest_sequence'' = Some k"
    using assms(1) by (auto simp: ready_text_def split: option.splits)
  have "m \<noteq> JNull" using m(2) by (auto simp: mfield_def)
  then have "receive env (TextMessage t) s = receive_ready env m s"
    using m(1,2) by (simp add: receive_def receiveJSON_def)
  then show ?thesis
    using receive_ready_ready [OF m(3), of env s] assms(2)
    by (cases "receive_ready env m s") (simp add: process_message_cases received_def)
qed

lemma stage_ready:
  assumes "on_new_socket s" "receiveQueue s = []" "ready_text env t"
  shows "goes env s (\<lambda>u. ready u \<and> socket u \<noteq> None)"
proof -
  obtain n where n: "socket s = Some n" "n < sockets s" and c: "\<not> closed s" "\<not> receiveRejected s"
    using assms(1) by (auto simp: on_new_socket_def)
  let ?s1 = "handle env (SocketOpened n) s"
  have s1: "\<not> closed ?s1" "socket ?s1 = Some n" "sockets ?s1 = sockets s" "receiveQueue ?s1 = []" "\<not> receiveRejected ?s1"
    using n c assms(2) by (simp_all add: emit_def Let_def)
  let ?s2 = "?s1\<lparr>receiveQueue := [(n, TextMessage t)]\<rparr>"
  let ?s3 = "process_message env n (TextMessage t) (?s2\<lparr>receiveQueue := []\<rparr>)"
  have "ready ?s3 \<and> socket ?s3 = Some n" using s1 by (intro process_ready [OF assms(3)]) (simp_all add: received_def)
  then have "goes env ?s3 (\<lambda>u. ready u \<and> socket u \<noteq> None)" by (intro goes_refl) simp
  then have "goes env (handle env ProcessMessage ?s2) (\<lambda>u. ready u \<and> socket u \<noteq> None)" by simp
  from goes_step [OF _ _ this] have "goes env ?s2 (\<lambda>u. ready u \<and> socket u \<noteq> None)" by (simp add: is_call_def occurs_def)
  then have "goes env (handle env (SocketMessage n (TextMessage t)) ?s1) (\<lambda>u. ready u \<and> socket u \<noteq> None)"
    using s1 by (simp del: handle.simps(5))
  from goes_step [OF _ _ this] have "goes env ?s1 (\<lambda>u. ready u \<and> socket u \<noteq> None)"
    using s1 n by (simp add: is_call_def occurs_def del: handle.simps(5))
  from goes_step [OF _ _ this] show ?thesis using n by (simp add: is_call_def occurs_def)
qed

lemma from_page:
  assumes "at_phase AwaitPage s" "queue_ok s" "\<not> receiveRejected s" "encodeURIComponent (ce_page env) \<noteq> None" "ready_text env t"
  shows "goes env s (\<lambda>u. ready u \<and> socket u \<noteq> None)"
  using assms stage_page stage_drain stage_ready by (blast intro: goes_trans)

lemma from_restored:
  fixes s :: "'y client"
  assumes "at_phase AwaitRestored s" "queue_ok s" "\<not> receiveRejected s" "encodeURIComponent (ce_page env) \<noteq> None" "ready_text env t"
  shows "goes env s (\<lambda>u. ready u \<and> socket u \<noteq> None)"
proof (rule goes_trans [OF stage_restored [OF assms(1)]])
  fix u :: "'y client"
  assume "at_phase AwaitPage u \<and> outer u = outer s"
  then show "goes env u (\<lambda>u. ready u \<and> socket u \<noteq> None)"
    using from_page [OF _ _ _ assms(4,5)] queue_ok_cong [of u s] assms(2,3) by (simp add: outer_def)
qed

lemma from_timer:
  fixes s :: "'y client"
  assumes "idle_timer s" "queue_ok s" "\<not> receiveRejected s" "encodeURIComponent (ce_page env) \<noteq> None" "ready_text env t"
  shows "goes env s (\<lambda>u. ready u \<and> socket u \<noteq> None)"
proof (rule goes_trans [OF stage_timer [OF assms(1)]])
  fix u :: "'y client"
  assume "at_phase AwaitRestored u \<and> outer u = outer s"
  then show "goes env u (\<lambda>u. ready u \<and> socket u \<noteq> None)"
    using from_restored [OF _ _ _ assms(4,5)] queue_ok_cong [of u s] assms(2,3) by (simp add: outer_def)
qed


section \<open>A rejected queue\<close>

text \<open>
  A frame that is not understood, or a gap in the sequence, rejects the queue: \<open>close\<close> may not be given the
  codes 1002 and 1012, so the handler that should close the socket throws.
\<close>

lemma receive_throws_rejects:
  assumes "received n s" "receive env m s = (False, s')" "socket s' = Some n"
  shows "process_message env n m s = s'\<lparr>receiveRejected := True\<rparr>"
  using assms by (simp add: process_message_cases)

text \<open>While the queue is rejected every message of the client's own socket, and so \<open>ready\<close>, is dropped.\<close>

lemma rejected_drops:
  assumes "receiveRejected s" "socket s = Some n"
  shows "process_message env n m s = s"
  using assms by (simp add: process_message_cases received_def)

text \<open>
  A run in a browser: what arrives comes from the socket in use, and a message is processed before the
  next event.
\<close>

definition prompt_events :: "event \<Rightarrow> event list" where
  "prompt_events e = (case e of SocketMessage n m \<Rightarrow> [e, ProcessMessage] | _ \<Rightarrow> [e])"

definition comes :: "event \<Rightarrow> 'y client \<Rightarrow> bool" where
  "comes e s \<longleftrightarrow> (case e of SocketMessage n m \<Rightarrow> socket s = Some n | ProcessMessage \<Rightarrow> False | _ \<Rightarrow> True)"

fun prompt_run :: "'y client_env \<Rightarrow> event list \<Rightarrow> 'y client \<Rightarrow> 'y client option" where
  "prompt_run env [] s = Some s"
| "prompt_run env (e # es) s =
     (if comes e s then Option.bind (run_events env (prompt_events e) s) (prompt_run env es) else None)"

lemma link_ready: "link s = link t \<Longrightarrow> ready s = ready t"
  by (simp add: link_def)

lemma link_run_job [simp]: "link (run_job env f j s) = link s"
  using gentle_run_job [of s env f j] by (simp add: gentle_def)

lemma link_sync_ast [simp]: "link (snd (syncAst env a s)) = link s"
  using gentle_sync [of "s\<lparr>renderedAstJSON := stringify env (JObj a)\<rparr>" env a] by (simp add: syncAst_def Let_def gentle_def)

text \<open>Only a message makes a client ready.\<close>

lemma ready_by_message:
  assumes "e \<noteq> ProcessMessage" "ready (handle env e s)"
  shows "ready s"
proof -
  have close: "\<not> ready t \<Longrightarrow> \<not> ready (denyAccess t)" for t :: "'a client"
    by (simp add: denyAccess_def close_def close_socket_def emit_def Let_def split: option.split)
  show ?thesis
  proof (cases e)
    case (RestoreDone f)
    then show ?thesis using assms(2) link_ready [OF link_restore [of env f s]] by simp
  next
    case (PageArrived r)
    then show ?thesis
      using assms(2) close [of s]
      by (auto simp: resume_page_def scheduleReconnect_def emit_def split: page_result.splits option.splits if_splits)
  next
    case (SocketClosed n code)
    then show ?thesis
      using assms(2) close [of "s\<lparr>socket := None, ready := False, snapshotInFlight := False\<rparr>"]
      by (auto simp: socket_closed_def scheduleReconnect_def emit_def Let_def split: if_splits)
  next
    case (RunJob f)
    then show ?thesis
      using assms(2) link_ready [OF link_run_job, of env f] by (cases "persistenceQueue s") auto
  next
    case (CallSyncAst a)
    then show ?thesis using assms(2) link_ready [OF link_sync_ast, of env a s] by simp
  qed (use assms link_ready [OF link_simps(6), of env s] link_ready [OF link_simps(8), of env] in
      \<open>auto simp: connect_def resume_restored_def refresh_cases close_def close_socket_def emit_def Let_def
        split: if_splits option.splits\<close>)
qed

lemma rejected_handle:
  assumes "e \<noteq> ProcessMessage" "\<And>n m. e \<noteq> SocketMessage n m"
  shows "receiveQueue (handle env e s) = receiveQueue s \<and> receiveRejected (handle env e s) = receiveRejected s"
proof -
  have page: "outer (resume_page env r s) = outer s \<or>
      outer (resume_page env r s) = (receiveQueue s, receiveRejected s, Suc (sockets s))" for r
    by (simp add: resume_page_def outer_sockets split: page_result.split option.split)
  have same: "outer (handle env e s) = outer s \<Longrightarrow> ?thesis" by (simp add: outer_def)
  show ?thesis
  proof (cases e)
    case (PageArrived r)
    then show ?thesis using page [of r] by (auto simp: outer_def)
  qed (use assms same in \<open>simp_all add: outer_run_job outer_restore outer_sync_ast Let_def split: list.split\<close>)
qed

text \<open>C0: once a message has rejected the receive queue, the client never gets ready again: whatever the server
  sends, on this socket and on every later one, is dropped.\<close>

theorem rejected_never_ready:
  assumes "receiveRejected s" "receiveQueue s = []" "\<not> ready s" "prompt_run env es s = Some s'"
  shows "receiveRejected s' \<and> \<not> ready s'"
  using assms
proof (induction es arbitrary: s)
  case (Cons e es)
  then obtain t where c: "comes e s" and t: "run_events env (prompt_events e) s = Some t" "prompt_run env es t = Some s'"
    by (auto split: if_splits Option.bind_splits)
  have "receiveRejected t \<and> receiveQueue t = [] \<and> \<not> ready t"
  proof (cases "\<exists>n m. e = SocketMessage n m")
    case True
    then obtain n m where e: "e = SocketMessage n m" by blast
    then have "process_message env n m (s\<lparr>receiveQueue := []\<rparr>) = s\<lparr>receiveQueue := []\<rparr>"
      using c Cons.prems(1) by (intro rejected_drops) (simp_all add: comes_def)
    then have "t = s\<lparr>receiveQueue := []\<rparr>" using t(1) Cons.prems(2) by (simp add: e prompt_events_def occurs_def split: if_splits)
    then show ?thesis using Cons.prems by simp
  next
    case False
    then have e: "e \<noteq> ProcessMessage" "\<And>n m. e \<noteq> SocketMessage n m" using c by (auto simp: comes_def)
    have "prompt_events e = [e]" using e by (auto simp: prompt_events_def split: event.split)
    then have "t = handle env e s" using t(1) by (simp split: if_splits)
    then show ?thesis using rejected_handle [OF e, of env s] ready_by_message [OF e(1), of env s] Cons.prems(1-3) by auto
  qed
  then show ?case using Cons.IH t(2) by blast
qed simp

definition rejecting_run :: "event list" where
  "rejecting_run = [SocketMessage 0 (BinaryMessage []), SocketClosed 0 1006]"

definition reconnecting_run :: "event list" where
  "reconnecting_run = [TimerFired, RestoredSeen, PageArrived (PageFound True), SocketOpened 1, SocketMessage 1 (TextMessage [])]"

text \<open>
  One frame that is not understood is enough. The client connects again, to a socket of its own, and drops
  the message that makes every other client ready.
\<close>

lemma rejected_evaluated:
  "case Option.bind (run_events tree_env to_ready tree_start) (prompt_run tree_env rejecting_run) of None \<Rightarrow> False
   | Some s \<Rightarrow> receiveRejected s \<and> receiveQueue s = [] \<and> \<not> ready s \<and>
       (case prompt_run tree_env reconnecting_run s of None \<Rightarrow> False | Some t \<Rightarrow> socket t = Some 1)"
  by code_simp

section \<open>Witnesses\<close>


lemma client_invariant_witness: "client_ok online_client"
  using online_reachable by (rule client_invariant)


lemma pending_until_acknowledged_witness:
  "pendingUpdates (handle tree_env ProcessMessage online_client) = [] \<and>
   latestSequence online_client \<le> latestSequence (handle tree_env ProcessMessage online_client) \<and>
   (closed (handle tree_env ProcessMessage online_client) \<or>
     set (pendingUpdates online_client) \<subseteq> set (pendingUpdates (handle tree_env ProcessMessage online_client)) \<union>
       {p. acked ProcessMessage online_client = Some (pending_bytes p)})"
proof
  show "pendingUpdates (handle tree_env ProcessMessage online_client) = []" by (rule online_client)
  have "client_step tree_env ProcessMessage online_client (handle tree_env ProcessMessage online_client)"
    by (intro client_step.step) (simp add: occurs_def online_client)
  from pending_until_acknowledged [OF online_reachable this]
  show "latestSequence online_client \<le> latestSequence (handle tree_env ProcessMessage online_client) \<and>
   (closed (handle tree_env ProcessMessage online_client) \<or>
     set (pendingUpdates online_client) \<subseteq> set (pendingUpdates (handle tree_env ProcessMessage online_client)) \<union>
       {p. acked ProcessMessage online_client = Some (pending_bytes p)})" .
qed

lemma rejected_never_ready_witness:
  "\<exists>s t. prompt_run tree_env reconnecting_run s = Some t \<and> socket t = Some 1 \<and> receiveRejected t \<and> \<not> ready t"
proof -
  obtain s t where s: "receiveRejected s" "receiveQueue s = []" "\<not> ready s"
    "prompt_run tree_env reconnecting_run s = Some t" "socket t = Some 1"
    using rejected_evaluated by (auto split: option.splits)
  then show ?thesis using rejected_never_ready [OF s(1-4)] by blast
qed

end
