(* ===== verification/Outbox.thy ===== *)
theory Outbox
  imports OfflineStore
begin

text \<open>
  What the collaboration client relies on of the offline store: a box that holds updates by their
  ID. One transaction may add an update and acknowledge an ID; it may also be refused. The locale
  states these laws, proves what a queue of transactions does to an update, and is interpreted on
  \<open>save\<close> of \<open>lib/collaboration/offline-store.ts\<close>.
\<close>

section \<open>A queue of transactions\<close>

type_synonym ('r, 'u, 'i) request = "'r \<times> 'u option \<times> 'i option"

definition added_by :: "('r, 'u, 'i) request list \<Rightarrow> 'u set" where
  "added_by q = {u. \<exists>j \<in> set q. fst (snd j) = Some u}"

definition acknowledged_by :: "('r, 'u, 'i) request list \<Rightarrow> 'i set" where
  "acknowledged_by q = {i. \<exists>j \<in> set q. snd (snd j) = Some i}"

text \<open>An update is safe when the box holds it or the queue adds it, and nothing in the queue can remove or replace it.\<close>

definition safe :: "('u \<Rightarrow> 'i) \<Rightarrow> 'u set \<Rightarrow> ('r, 'u, 'i) request list \<Rightarrow> 'u \<Rightarrow> bool" where
  "safe key held q u \<longleftrightarrow> u \<in> held \<union> added_by q \<and> key u \<notin> acknowledged_by q \<and>
     (\<forall>v \<in> held \<union> added_by q. key v = key u \<longrightarrow> v = u)"

lemma added_by_simps [simp]:
  "added_by [] = {}" "added_by ((r, a, i) # q) = set_option a \<union> added_by q" "added_by (q @ q') = added_by q \<union> added_by q'"
  by (auto simp: added_by_def)

lemma acknowledged_by_simps [simp]:
  "acknowledged_by [] = {}" "acknowledged_by ((r, a, i) # q) = set_option i \<union> acknowledged_by q"
  "acknowledged_by (q @ q') = acknowledged_by q \<union> acknowledged_by q'"
  by (auto simp: acknowledged_by_def)

lemma safe_held: "safe key held [] u \<Longrightarrow> u \<in> held"
  by (simp add: safe_def)

lemma safe_append:
  assumes "safe key held q u" "\<And>v. v \<in> set_option a \<Longrightarrow> key v \<noteq> key u" "i \<noteq> Some (key u)"
  shows "safe key held (q @ [(r, a, i)]) u"
  using assms by (auto simp: safe_def)

lemma safe_added:
  assumes "key u \<notin> key ` (held \<union> added_by q)" "key u \<notin> acknowledged_by q"
  shows "safe key held (q @ [(r, Some u, None)]) u"
proof -
  have "\<forall>v \<in> held \<union> added_by q. key v \<noteq> key u" using assms(1) by (metis image_eqI)
  then show ?thesis using assms(2) by (auto simp: safe_def)
qed

lemma safe_stored:
  assumes "u \<in> held" "inj_on key held"
  shows "safe key held [] u"
  using assms by (auto simp: safe_def inj_on_eq_iff)

section \<open>The interface\<close>

locale outbox =
  fixes put :: "'r \<Rightarrow> 'u option \<Rightarrow> 'i option \<Rightarrow> 's \<Rightarrow> 's option"
    and held :: "'s \<Rightarrow> 'u set"
    and key :: "'u \<Rightarrow> 'i"
    and fits :: "'r \<Rightarrow> 'u option \<Rightarrow> bool"
  assumes put_keeps: "fits r a \<Longrightarrow> put r a i s = Some s' \<Longrightarrow> u \<in> held s \<Longrightarrow> i \<noteq> Some (key u) \<Longrightarrow> u \<in> held s'"
    and put_adds: "fits r (Some u) \<Longrightarrow> put r (Some u) i s = Some s' \<Longrightarrow> key u \<notin> key ` held s \<Longrightarrow> i \<noteq> Some (key u) \<Longrightarrow>
      u \<in> held s'"
    and put_only: "fits r a \<Longrightarrow> put r a i s = Some s' \<Longrightarrow> held s' \<subseteq> held s \<union> set_option a"
begin

lemma safe_put:
  assumes "safe key (held s) ((r, a, i) # q) u" "fits r a" "put r a i s = Some s'"
  shows "safe key (held s') q u"
proof -
  have i: "i \<noteq> Some (key u)" and un: "\<forall>v \<in> held s \<union> set_option a \<union> added_by q. key v = key u \<longrightarrow> v = u"
    using assms(1) by (auto simp: safe_def)
  have "u \<in> held s' \<union> added_by q"
  proof (cases "u \<in> held s")
    case True
    then show ?thesis using put_keeps [OF assms(2,3) _ i] by simp
  next
    case False
    then consider "a = Some u" | "u \<in> added_by q" using assms(1) by (auto simp: safe_def)
    then show ?thesis
    proof cases
      case 1
      have "key u \<notin> key ` held s" using False un by fastforce
      then show ?thesis using put_adds assms(2,3) i 1 by blast
    qed simp
  qed
  moreover have "held s' \<subseteq> held s \<union> set_option a" by (rule put_only [OF assms(2,3)])
  ultimately show ?thesis using assms(1) un by (auto simp: safe_def)
qed

end

section \<open>The offline store\<close>

definition held_pending :: "zenv \<Rightarrow> jstr \<Rightarrow> object_store \<Rightarrow> pending_update set" where
  "held_pending z k db = (case stored z k db of Inr (Some r) \<Rightarrow> set (r_pending r) | _ \<Rightarrow> {})"

definition save_put :: "zenv \<Rightarrow> offline_env \<Rightarrow> jstr \<Rightarrow> offline_record \<Rightarrow> pending_update option \<Rightarrow> bytes option \<Rightarrow>
    object_store \<Rightarrow> object_store option" where
  "save_put z env k r a i db = (case save z env k r a i db of Inl _ \<Rightarrow> None | Inr d \<Rightarrow> Some d)"

definition save_fits :: "zenv \<Rightarrow> offline_record \<Rightarrow> pending_update option \<Rightarrow> bool" where
  "save_fits z r a \<longleftrightarrow> record_ok z r \<and> added_ok a"

lemma save_put_held:
  assumes "save_fits z r a" "save_put z env k r a i db = Some db'"
  shows "\<exists>ps. held_pending z k db = set ps \<and> held_pending z k db' = set (merge_pending a i ps)"
proof -
  have "save z env k r a i db = Inr db'" using assms(2) by (auto simp: save_put_def split: sum.splits)
  from save_stored [OF _ _ this] assms(1) obtain previous where
    "stored z k db = Inr previous" "stored z k db' = Inr (Some (merge_record env previous r a i))"
    by (auto simp: save_fits_def)
  then show ?thesis
    by (intro exI [of _ "case previous of None \<Rightarrow> [] | Some p \<Rightarrow> r_pending p"])
      (simp add: held_pending_def merge_record_def split: option.split)
qed

lemma merge_pending_added:
  assumes "pending_id u \<notin> pending_id ` set ps" "i \<noteq> Some (pending_id u)"
  shows "u \<in> set (merge_pending (Some u) i ps)"
proof -
  have "\<not> list_ex (\<lambda>p. sameId (pending_id p) (pending_id u)) ps"
    using assms(1) by (simp add: list_ex_iff image_iff) metis
  then show ?thesis using assms(2) by (auto simp: merge_pending_def Let_def split: option.split)
qed

interpretation store: outbox "save_put z env k" "held_pending z k" pending_id "save_fits z" for z env k
proof
  fix r a i db db' u
  assume "save_fits z r a" "save_put z env k r a i db = Some db'" "u \<in> held_pending z k db" "i \<noteq> Some (pending_id u)"
  then show "u \<in> held_pending z k db'"
    using save_put_held [of z r a env k i db db'] merge_pending_kept by fastforce
next
  fix r u i db db'
  assume "save_fits z r (Some u)" "save_put z env k r (Some u) i db = Some db'" "pending_id u \<notin> pending_id ` held_pending z k db"
    "i \<noteq> Some (pending_id u)"
  then show "u \<in> held_pending z k db'"
    using save_put_held [of z r "Some u" env k i db db'] merge_pending_added by fastforce
next
  fix r a i db db'
  assume "save_fits z r a" "save_put z env k r a i db = Some db'"
  then show "held_pending z k db' \<subseteq> held_pending z k db \<union> set_option a"
    using save_put_held [of z r a env k i db db'] merge_pending_subset by fastforce
qed

end
