(* ===== verification/ClientCrash.thy ===== *)
theory ClientCrash
  imports ClientRuns Outbox
begin

text \<open>
  The collaboration client on its offline store: every update that waits for an acknowledgement is
  stored or queued to be stored, unless a storage error has been reported, and a client started
  after a crash takes it up again.
\<close>

section \<open>The queue of transactions\<close>

definition client_key :: "'y client_env \<Rightarrow> jstr" where
  "client_key env = store_key (ce_actor env) (ce_page env)"

definition in_store :: "'y client_env \<Rightarrow> object_store \<Rightarrow> pending_update set" where
  "in_store env d = held_pending (ce_z env) (client_key env) d"

definition saves :: "job list \<Rightarrow> (offline_record, pending_update, bytes) request list" where
  "saves q = concat (map (\<lambda>j. case j of SaveJob r a i \<Rightarrow> [(r, a, i)] | FlushJob \<Rightarrow> []) q)"

lemma saves_simps [simp]:
  "saves [] = []" "saves (SaveJob r a i # q) = (r, a, i) # saves q" "saves (FlushJob # q) = saves q"
  "saves (q @ q') = saves q @ saves q'"
  by (simp_all add: saves_def)

text \<open>The IDs the client has handed out, and those that were in the store when it started.\<close>

definition issued :: "'y client_env \<Rightarrow> nat \<Rightarrow> bytes set" where
  "issued env n = {i. \<exists>m < n. uuidBytes (ce_uuid env m) = Some i}"

definition first_ids :: "'y client_env \<Rightarrow> object_store \<Rightarrow> bytes set" where
  "first_ids env d = pending_id ` in_store env d"

text \<open>
  What is expected of the environment: the first \<open>N\<close> IDs do not repeat, neither among themselves nor
  one in the store; zod accepts the ID of a new client; the store holds no ID twice; a new
  shared map is empty.
\<close>

definition ids_fresh :: "'y client_env \<Rightarrow> object_store \<Rightarrow> nat \<Rightarrow> bool" where
  "ids_fresh env d N \<longleftrightarrow>
     (\<forall>m < N. \<forall>n < N. \<forall>i. uuidBytes (ce_uuid env m) = Some i \<longrightarrow> uuidBytes (ce_uuid env n) = Some i \<longrightarrow> m = n) \<and>
     (\<forall>n < N. \<forall>i. uuidBytes (ce_uuid env n) = Some i \<longrightarrow> i \<notin> first_ids env d)"

definition stored_once :: "'y client_env \<Rightarrow> object_store \<Rightarrow> bool" where
  "stored_once env d \<longleftrightarrow> (case stored (ce_z env) (client_key env) d of
     Inr (Some r) \<Rightarrow> distinct (map pending_id (r_pending r)) | _ \<Rightarrow> True)"

definition new_id_ok :: "'y client_env \<Rightarrow> bool" where
  "new_id_ok env \<longleftrightarrow> z_uuid (ce_z env) (new_client_id (ce_offline env))"

section \<open>The invariant\<close>

text \<open>
  The updates may be lost only where the user learns of it: a storage error has been reported, or the
  record cannot be read, so that the next load reports one, or a save is queued that makes it so. A server
  can bring that about by a document ID that is not a string, which the client takes and zod refuses.
\<close>

definition lost :: "'y client_env \<Rightarrow> 'y client \<Rightarrow> bool" where
  "lost env s \<longleftrightarrow> storageFailed s \<or> isl (stored (ce_z env) (client_key env) (db s)) \<or>
     list_ex (\<lambda>(r, a, i). spoils (ce_z env) (r_documentId r)) (saves (persistenceQueue s))"

definition vault_kept :: "'y client_env \<Rightarrow> object_store \<Rightarrow> 'y client \<Rightarrow> bool" where
  "vault_kept env d s \<longleftrightarrow>
     z_uuid (ce_z env) (clientId s) \<and> documentId s \<noteq> Some JNull \<and>
     0 \<le> latestSequence s \<and> latestSequence s \<le> max_safe_integer \<and>
     list_all (\<lambda>(r, a, i). save_fits (ce_z env) r a) (saves (persistenceQueue s)) \<and>
     distinct (map pending_id (pendingUpdates s)) \<and>
     pending_id ` (set (pendingUpdates s) \<union> in_store env (db s) \<union> added_by (saves (persistenceQueue s))) \<union>
       acknowledged_by (saves (persistenceQueue s)) \<subseteq> first_ids env d \<union> issued env (uuids s) \<and>
     list_all (safe pending_id (in_store env (db s)) (saves (persistenceQueue s))) (pendingUpdates s)"

definition vault_ok :: "'y client_env \<Rightarrow> object_store \<Rightarrow> 'y client \<Rightarrow> bool" where
  "vault_ok env d s \<longleftrightarrow> lost env s \<or> vault_kept env d s"

lemmas vault_defs = vault_ok_def vault_kept_def lost_def

definition vault :: "'y client \<Rightarrow> _" where
  "vault s = (clientId s, documentId s, latestSequence s, pendingUpdates s, persistenceQueue s, uuids s, db s, storageFailed s)"

lemma vault_cong: "vault s = vault s' \<Longrightarrow> vault_ok env d s = vault_ok env d s'"
  by (simp add: vault_def vault_defs)

lemma vault_upd [simp]:
  "vault (s\<lparr>ydoc := y\<rparr>) = vault s" "vault (s\<lparr>renderedAstJSON := r\<rparr>) = vault s" "vault (s\<lparr>pendingAst := a\<rparr>) = vault s"
  "vault (s\<lparr>lastSnapshotSequence := n'\<rparr>) = vault s" "vault (s\<lparr>snapshotInFlight := b\<rparr>) = vault s"
  "vault (s\<lparr>recoveredOffline := b\<rparr>) = vault s" "vault (s\<lparr>lastPresence := lp\<rparr>) = vault s"
  "vault (s\<lparr>receiveQueue := rq\<rparr>) = vault s" "vault (s\<lparr>receiveRejected := b\<rparr>) = vault s"
  "vault (s\<lparr>readyState := rs\<rparr>) = vault s"
  "vault (s\<lparr>reconnectAttempts := k\<rparr>) = vault s" "vault (s\<lparr>ready := b\<rparr>) = vault s" "vault (s\<lparr>closed := b\<rparr>) = vault s"
  "vault (s\<lparr>socket := so\<rparr>) = vault s" "vault (s\<lparr>connecting := cp\<rparr>) = vault s" "vault (s\<lparr>reconnectTimer := rt\<rparr>) = vault s"
  "vault (s\<lparr>effects := es\<rparr>) = vault s" "vault (s\<lparr>sockets := n\<rparr>) = vault s" "vault (s\<lparr>restored := b\<rparr>) = vault s"
  by (simp_all add: vault_def)

lemma vault_simps [simp]:
  "vault (emit e s) = vault s" "vault (sendPendingUpdate p s) = vault s" "vault (transmitPresence env s) = vault s"
  "vault (maybeSaveSnapshot env s) = vault s" "vault (close s) = vault s" "vault (connect s) = vault s"
  "vault (scheduleReconnect s) = vault s"
  by (simp_all add: emit_def sendPendingUpdate_def transmitPresence_def maybeSaveSnapshot_def close_def close_socket_def connect_def
      scheduleReconnect_def Let_def split: option.split)

lemma vault_more [simp]:
  "vault (snd (refresh s)) = vault s" "vault (sendPresence env c s) = vault s" "vault (resume_restored s) = vault s"
  "vault (snd (emitAstIfChanged env s)) = vault s"
  by (simp_all add: refresh_cases sendPresence_def resume_restored_def emitAstIfChanged_def Let_def split: option.split)

lemma vault_fold [simp]: "vault (fold sendPendingUpdate ps s) = vault s"
  by (induction ps arbitrary: s) simp_all

text \<open>An action that keeps the invariant as long as it uses the first \<open>N\<close> IDs only, and their composition.\<close>

definition preserves :: "'y client_env \<Rightarrow> object_store \<Rightarrow> nat \<Rightarrow> 'y act \<Rightarrow> bool" where
  "preserves env d N a \<longleftrightarrow> (\<forall>s. uuids s \<le> uuids (snd (a s)) \<and>
     (vault_ok env d s \<longrightarrow> uuids (snd (a s)) \<le> N \<longrightarrow> vault_ok env d (snd (a s))))"

lemma preservesI:
  "(\<And>s. uuids s \<le> uuids (snd (a s))) \<Longrightarrow> (\<And>s. vault_ok env d s \<Longrightarrow> uuids (snd (a s)) \<le> N \<Longrightarrow> vault_ok env d (snd (a s))) \<Longrightarrow>
     preserves env d N a"
  by (simp add: preserves_def)

lemma preservesD: "preserves env d N a \<Longrightarrow> vault_ok env d s \<Longrightarrow> uuids (snd (a s)) \<le> N \<Longrightarrow> vault_ok env d (snd (a s))"
  by (simp add: preserves_def)

lemma preserves_mono: "preserves env d N a \<Longrightarrow> uuids s \<le> uuids (snd (a s))"
  by (simp add: preserves_def)

lemma preserves_andThen:
  assumes "preserves env d N a" "preserves env d N b"
  shows "preserves env d N (andThen a b)"
proof (rule preservesI)
  fix s
  obtain b1 t where a: "a s = (b1, t)" by (cases "a s")
  have st: "uuids s \<le> uuids t" using preserves_mono [OF assms(1), of s] by (simp add: a)
  have tu: "uuids t \<le> uuids (snd (b t))" by (rule preserves_mono [OF assms(2)])
  show "uuids s \<le> uuids (snd (andThen a b s))" using st tu by (simp add: andThen_def a split: bool.split)
  assume s: "vault_ok env d s" and N: "uuids (snd (andThen a b s)) \<le> N"
  have "uuids t \<le> N" using N tu by (simp add: andThen_def a split: bool.splits)
  then have t: "vault_ok env d t" using preservesD [OF assms(1) s] by (simp add: a)
  show "vault_ok env d (snd (andThen a b s))"
    using preservesD [OF assms(2) t] t N by (simp add: andThen_def a split: bool.splits)
qed

lemma preserves_upd:
  "(\<And>s. uuids (f s) = uuids s) \<Longrightarrow> (\<And>s. vault_ok env d s \<Longrightarrow> vault_ok env d (f s)) \<Longrightarrow> preserves env d N (upd f)"
  by (simp add: preserves_def upd_def)

lemma vault_uuids: "vault s = vault s' \<Longrightarrow> uuids s = uuids s'"
  by (simp add: vault_def)

lemma preserves_same:
  assumes "\<And>s. vault (snd (a s)) = vault s"
  shows "preserves env d N a"
  using vault_cong [OF assms] vault_uuids [OF assms] by (simp add: preserves_def)

lemma preserves_if: "preserves env d N a \<Longrightarrow> preserves env d N b \<Longrightarrow> preserves env d N (if c then a else b)"
  by simp

section \<open>Single actions\<close>

text \<open>The parts of the invariant, and how it is built.\<close>

lemma vault_okD:
  assumes "vault_kept env d s"
  shows "z_uuid (ce_z env) (clientId s)" "documentId s \<noteq> Some JNull"
    "0 \<le> latestSequence s" "latestSequence s \<le> max_safe_integer"
    "list_all (\<lambda>(r, a, i). save_fits (ce_z env) r a) (saves (persistenceQueue s))"
    "distinct (map pending_id (pendingUpdates s))"
    "pending_id ` set (pendingUpdates s) \<subseteq> first_ids env d \<union> issued env (uuids s)"
    "pending_id ` in_store env (db s) \<subseteq> first_ids env d \<union> issued env (uuids s)"
    "pending_id ` added_by (saves (persistenceQueue s)) \<subseteq> first_ids env d \<union> issued env (uuids s)"
    "acknowledged_by (saves (persistenceQueue s)) \<subseteq> first_ids env d \<union> issued env (uuids s)"
    "list_all (safe pending_id (in_store env (db s)) (saves (persistenceQueue s))) (pendingUpdates s)"
  using assms unfolding vault_kept_def by (simp_all add: image_Un)

lemma issued_mono: "m \<le> n \<Longrightarrow> issued env m \<subseteq> issued env n"
  by (auto simp: issued_def intro: less_le_trans)

lemma vault_ok_same [simp]:
  "vault_ok env d (sendPendingUpdate p s) = vault_ok env d s" "vault_ok env d (emit e s) = vault_ok env d s"
  "vault_ok env d (s\<lparr>ydoc := y\<rparr>) = vault_ok env d s" "vault_ok env d (s\<lparr>readyState := rs\<rparr>) = vault_ok env d s"
  "vault_ok env d (s\<lparr>lastSnapshotSequence := k\<rparr>) = vault_ok env d s" "vault_ok env d (snd (refresh s)) = vault_ok env d s"
  "vault_ok env d (s\<lparr>receiveQueue := rq\<rparr>) = vault_ok env d s" "vault_ok env d (s\<lparr>restored := b\<rparr>) = vault_ok env d s"
  "vault_ok env d (s\<lparr>recoveredOffline := b\<rparr>) = vault_ok env d s"
  "vault_ok env d (snd (emitAstIfChanged env s)) = vault_ok env d s"
  by (rule vault_cong, simp)+

lemma uuids_same [simp]: "uuids (emit e s) = uuids s" "uuids (snd (refresh s)) = uuids s"
  "uuids (snd (emitAstIfChanged env s)) = uuids s"
  by (rule vault_uuids, simp)+

lemma vault_sequence: "vault_ok env d s \<Longrightarrow> n \<le> max_safe_integer \<Longrightarrow>
    vault_ok env d (s\<lparr>latestSequence := max (latestSequence s) n\<rparr>)"
  by (auto simp: vault_defs max_def)

lemma vault_failed [simp]: "vault_ok env d (reportStorageError s)"
  by (simp add: vault_ok_def lost_def reportStorageError_def emit_def)

lemma vault_flush: "vault_ok env d s \<Longrightarrow> vault_ok env d (flushPendingUpdates s)"
  by (simp add: vault_defs flushPendingUpdates_def)

lemma vault_deny: "vault_ok env d s \<Longrightarrow> vault_ok env d (denyAccess s)"
proof -
  assume "vault_ok env d s"
  then have "vault_ok env d (close s)" using vault_cong [of "close s" s] by simp
  then show ?thesis by (auto simp: vault_defs denyAccess_def emit_def)
qed

lemma lost_persist: "lost env s \<Longrightarrow> lost env (persist env a i s)"
  by (auto simp: lost_def persist_def)

lemma lost_upd [simp]: "lost env (s\<lparr>pendingUpdates := ps\<rparr>) = lost env s" "lost env (s\<lparr>uuids := n\<rparr>) = lost env s"
  by (simp_all add: lost_def)

lemma spoiled_persist: "spoils (ce_z env) (documentId s) \<Longrightarrow> lost env (persist env a i s)"
  by (simp add: lost_def persist_def current_record_def)

lemma current_record_fits:
  assumes "vault_kept env d s" "\<not> spoils (ce_z env) (documentId s)" "added_ok a"
  shows "save_fits (ce_z env) (current_record env s) a"
  using vault_okD(1-4) [OF assms(1)] assms(2,3)
  by (auto simp: save_fits_def record_ok_def current_record_def spoils_def)

lemma vault_persist_none:
  assumes "vault_ok env d s"
  shows "vault_ok env d (persist env None None s)"
proof (cases "lost env s \<or> spoils (ce_z env) (documentId s)")
  case True
  then show ?thesis by (auto simp: vault_ok_def lost_persist spoiled_persist)
next
  case False
  then have kept: "vault_kept env d s" using assms by (simp add: vault_ok_def)
  have "list_all (safe pending_id (in_store env (db s)) (saves (persistenceQueue s) @ [(r, None, None)])) (pendingUpdates s)" for r
    using vault_okD(11) [OF kept] safe_append [of pending_id "in_store env (db s)" "saves (persistenceQueue s)" _ None None r]
    by (auto simp: list_all_iff)
  then show ?thesis
    using kept current_record_fits [OF kept, of None] False by (auto simp: vault_ok_def vault_kept_def persist_def added_ok_def)
qed

lemma length_hex_bytes: "length (hex_bytes s) = length s div 2"
  by (induction s rule: hex_bytes.induct) simp_all

lemma hex_bytes_length: "uuidBytes s = Some i \<Longrightarrow> length i = 16"
  by (auto simp: uuidBytes_def Let_def length_hex_bytes split: if_splits)

lemma fresh_id:
  assumes "ids_fresh env d N" "n < N" "uuidBytes (ce_uuid env n) = Some i"
  shows "i \<notin> first_ids env d \<union> issued env n" "i \<in> issued env (Suc n)"
proof -
  have "uuidBytes (ce_uuid env m) \<noteq> Some i" if "m < n" for m
    using that assms unfolding ids_fresh_def by (metis less_irrefl less_trans)
  then show "i \<notin> first_ids env d \<union> issued env n"
    using assms unfolding ids_fresh_def issued_def by auto
  show "i \<in> issued env (Suc n)" using assms(3) by (auto simp: issued_def)
qed

lemma vault_local_update:
  assumes "ids_fresh env d N"
  shows "preserves env d N (onDocumentUpdate env u)"
proof (rule preservesI)
  fix s :: "'a client"
  have count: "uuids (snd (onDocumentUpdate env u s)) = Suc (uuids s)"
    by (simp add: onDocumentUpdate_def Let_def persist_def split: option.split)
  then show "uuids s \<le> uuids (snd (onDocumentUpdate env u s))" by simp
  assume ok: "vault_ok env d s" and "uuids (snd (onDocumentUpdate env u s)) \<le> N"
  then have less: "uuids s < N" using count by simp
  let ?s1 = "s\<lparr>uuids := Suc (uuids s)\<rparr>"
  have sub: "first_ids env d \<union> issued env (uuids s) \<subseteq> first_ids env d \<union> issued env (Suc (uuids s))"
    using issued_mono [of "uuids s" "Suc (uuids s)" env] by auto
  have lost1: "lost env ?s1 = lost env s" by (simp add: lost_def)
  have kept1: "vault_kept env d ?s1" if "vault_kept env d s"
    using that sub unfolding vault_kept_def by (simp add: image_Un) blast
  show "vault_ok env d (snd (onDocumentUpdate env u s))"
  proof (cases "uuidBytes (ce_uuid env (uuids s))")
    case None
    then show ?thesis using ok kept1 lost1 by (auto simp: onDocumentUpdate_def Let_def vault_ok_def)
  next
    case (Some i)
    show ?thesis
    proof (cases "lost env s \<or> spoils (ce_z env) (documentId s)")
      case True
      then show ?thesis
        using Some by (auto simp: onDocumentUpdate_def Let_def vault_ok_def lost_persist spoiled_persist)
    next
      case False
      then have kept: "vault_kept env d s" using ok by (simp add: vault_ok_def)
      let ?p = "\<lparr>pending_id = i, pending_bytes = u\<rparr>"
      let ?H = "in_store env (db s)" and ?Q = "saves (persistenceQueue s)"
      let ?r = "current_record env (?s1\<lparr>pendingUpdates := pendingUpdates s @ [?p]\<rparr>)"
      note f = fresh_id [OF assms less Some]
      have new: "i \<notin> pending_id ` (?H \<union> added_by ?Q)" "i \<notin> acknowledged_by ?Q" "i \<notin> pending_id ` set (pendingUpdates s)"
        using vault_okD(7-10) [OF kept] f(1) by (auto simp: image_Un)
      have fits: "save_fits (ce_z env) ?r (Some ?p)"
        using vault_okD(1-4) [OF kept] hex_bytes_length [OF Some] False
        by (auto simp: save_fits_def record_ok_def current_record_def added_ok_def spoils_def)
      have old: "list_all (safe pending_id ?H (?Q @ [(?r, Some ?p, None)])) (pendingUpdates s)"
        using vault_okD(11) [OF kept] new(3) safe_append [of pending_id ?H ?Q _ "Some ?p" None ?r] by (auto simp: list_all_iff)
      have "safe pending_id ?H (?Q @ [(?r, Some ?p, None)]) ?p"
        using new by (intro safe_added) simp_all
      then show ?thesis
        using kept1 [OF kept] Some fits old f(2) new(3)
        by (auto simp: vault_ok_def vault_kept_def onDocumentUpdate_def Let_def persist_def)
    qed
  qed
qed

lemma kept_acknowledge:
  assumes "vault_kept env d s" "\<not> spoils (ce_z env) (documentId s)"
  shows "vault_kept env d (acknowledgePendingUpdate env b s)"
proof (cases "find_index (\<lambda>p. equalBytes (pending_bytes p) b) (pendingUpdates s)")
  case None
  then show ?thesis using assms by (simp add: acknowledgePendingUpdate_def)
next
  case (Some i)
  let ?ps = "pendingUpdates s" and ?H = "in_store env (db s)" and ?Q = "saves (persistenceQueue s)"
  let ?rest = "take i ?ps @ drop (Suc i) ?ps"
  have i: "i < length ?ps" using find_index_Some [OF Some] by simp
  have split: "?ps = take i ?ps @ ?ps ! i # drop (Suc i) ?ps" by (rule id_take_nth_drop [OF i])
  have d: "distinct (map pending_id (take i ?ps @ ?ps ! i # drop (Suc i) ?ps))"
    using vault_okD(6) [OF assms(1)] split by simp
  have sub: "set ?rest \<subseteq> set ?ps" using set_take_subset set_drop_subset by fastforce
  have "pending_id (?ps ! i) \<notin> pending_id ` set ?rest" using d by (simp add: image_Un)
  then have other: "pending_id p \<noteq> pending_id (?ps ! i)" if "p \<in> set ?rest" for p
    using that by (metis image_eqI)
  have safe: "list_all (safe pending_id ?H (?Q @ [(r, None, Some (pending_id (?ps ! i)))])) ?rest" for r
    using vault_okD(11) [OF assms(1)] sub other safe_append [of pending_id ?H ?Q _ None "Some (pending_id (?ps ! i))" r]
    by (fastforce simp: list_all_iff)
  have id: "pending_id (?ps ! i) \<in> first_ids env d \<union> issued env (uuids s)"
    using vault_okD(7) [OF assms(1)] nth_mem [OF i] by blast
  have ids: "pending_id ` set ?rest \<subseteq> first_ids env d \<union> issued env (uuids s)"
    using vault_okD(7) [OF assms(1)] sub by blast
  have fits: "save_fits (ce_z env) (current_record env (s\<lparr>pendingUpdates := ?rest\<rparr>)) None"
    using current_record_fits [OF assms, of None] by (simp add: current_record_def added_ok_def)
  show ?thesis
    using assms Some safe id ids fits d
    by (auto simp: vault_kept_def acknowledgePendingUpdate_def persist_def image_Un)
qed

lemma vault_acknowledge:
  assumes "vault_ok env d s"
  shows "vault_ok env d (acknowledgePendingUpdate env b s)"
proof (cases "lost env s \<or> spoils (ce_z env) (documentId s)")
  case True
  then show ?thesis
    using assms by (auto simp: acknowledgePendingUpdate_def vault_ok_def lost_persist spoiled_persist split: option.split)
qed (use assms kept_acknowledge in \<open>auto simp: vault_ok_def\<close>)

text \<open>One job of the queue.\<close>

lemma uuids_job: "uuids (run_job env f j s) = uuids s"
proof -
  have v: "uuids (fold sendPendingUpdate (pendingUpdates s) s) = uuids s" by (rule vault_uuids) simp
  show ?thesis
    using v by (auto simp: run_job_def reportStorageError_def sendPendingUpdate_def emit_def Let_def
        split: job.split sum.split option.split)
qed

lemma held_put:
  assumes "save_fits z r a" "save_put z oe k r a i d = Some d'"
  shows "held_pending z k d' \<subseteq> held_pending z k d \<union> set_option a"
  by (rule store.put_only [OF assms])

lemma lost_send [simp]: "lost env (sendPendingUpdate p s) = lost env s"
  by (simp add: lost_def sendPendingUpdate_def emit_def)

lemma lost_job:
  assumes "lost env (s\<lparr>persistenceQueue := j # q\<rparr>)"
  shows "lost env (run_job env fails j (s\<lparr>persistenceQueue := q\<rparr>))"
proof (cases j)
  case FlushJob
  have "lost env (fold sendPendingUpdate ps t) = lost env t" for ps t by (induction ps arbitrary: t) simp_all
  then show ?thesis using assms by (simp add: FlushJob run_job_def lost_def)
next
  case (SaveJob r a i)
  let ?t = "s\<lparr>persistenceQueue := q\<rparr>" and ?k = "client_key env"
  have failed: "lost env (reportStorageError ?t)" by (simp add: lost_def reportStorageError_def emit_def)
  have saved: "lost env (?t\<lparr>db := db'\<rparr>)" if "save (ce_z env) (ce_offline env) ?k r a i (db s) = Inr db'" for db'
  proof -
    have "\<not> isl (stored (ce_z env) ?k (db s))" using that by (auto simp: save_def res_simps split: sum.splits)
    then show ?thesis using assms save_spoiled [OF _ that] by (auto simp: SaveJob lost_def)
  qed
  have "lost env (case save (ce_z env) (ce_offline env) ?k r a i (db s) of
      Inr d' \<Rightarrow> if fails then reportStorageError ?t else ?t\<lparr>db := d'\<rparr> | Inl _ \<Rightarrow> reportStorageError ?t)"
    using failed saved by (simp split: sum.split)
  then show ?thesis
    by (cases a) (simp_all add: SaveJob run_job_def Let_def client_key_def)
qed

lemma kept_job:
  assumes "vault_kept env d (s\<lparr>persistenceQueue := j # q\<rparr>)"
  shows "vault_ok env d (run_job env fails j (s\<lparr>persistenceQueue := q\<rparr>))"
proof (cases j)
  case FlushJob
  have "vault_ok env d (s\<lparr>persistenceQueue := q\<rparr>)" using assms by (simp add: vault_ok_def vault_kept_def FlushJob)
  then show ?thesis
    using FlushJob vault_cong [of "fold sendPendingUpdate (pendingUpdates s) (s\<lparr>persistenceQueue := q\<rparr>)" "s\<lparr>persistenceQueue := q\<rparr>"]
    by (simp add: run_job_def)
next
  case (SaveJob r a i)
  let ?t = "s\<lparr>persistenceQueue := q\<rparr>" and ?z = "ce_z env" and ?H = "in_store env (db s)" and ?Q = "saves q"
  note D = vault_okD [OF assms, simplified SaveJob, simplified]
  have saved: "vault_kept env d (?t\<lparr>db := db'\<rparr>)" if "save ?z (ce_offline env) (client_key env) r a i (db s) = Inr db'" for db'
  proof -
    have put: "save_put ?z (ce_offline env) (client_key env) r a i (db s) = Some db'"
      using that by (simp add: save_put_def)
    have fits: "save_fits ?z r a" using D(5) by simp
    have sub: "in_store env db' \<subseteq> ?H \<union> set_option a" using held_put [OF fits put] by (simp add: in_store_def)
    have "list_all (safe pending_id (in_store env db') ?Q) (pendingUpdates s)"
      using D(11) store.safe_put [OF _ fits put] by (auto simp: list_all_iff in_store_def)
    moreover have "pending_id ` in_store env db' \<subseteq> first_ids env d \<union> issued env (uuids s)"
    proof -
      have "pending_id ` in_store env db' \<subseteq> pending_id ` ?H \<union> pending_id ` set_option a" using sub by blast
      then show ?thesis using D(8,9) by (simp add: image_Un) blast
    qed
    ultimately show ?thesis using D by (auto simp: vault_kept_def image_Un)
  qed
  have "vault_ok env d (case save ?z (ce_offline env) (client_key env) r a i (db s) of
      Inr d' \<Rightarrow> if fails then reportStorageError ?t else ?t\<lparr>db := d'\<rparr> | Inl _ \<Rightarrow> reportStorageError ?t)"
    using saved by (simp add: vault_ok_def [of env d "?t\<lparr>db := _\<rparr>"] split: sum.split)
  then show ?thesis
    by (cases a) (simp_all add: SaveJob run_job_def Let_def client_key_def)
qed

lemma vault_job:
  assumes "vault_ok env d (s\<lparr>persistenceQueue := j # q\<rparr>)"
  shows "vault_ok env d (run_job env fails j (s\<lparr>persistenceQueue := q\<rparr>))"
proof -
  consider "lost env (s\<lparr>persistenceQueue := j # q\<rparr>)" | "vault_kept env d (s\<lparr>persistenceQueue := j # q\<rparr>)"
    using assms by (auto simp: vault_ok_def)
  then show ?thesis
  proof cases
    case 1
    from lost_job [OF this] show ?thesis by (simp add: vault_ok_def)
  qed (rule kept_job)
qed

section \<open>Messages\<close>

lemma preserves_change:
  assumes "ids_fresh env d N"
  shows "preserves env d N (change_document env y)"
proof -
  have u: "uuids s \<le> uuids (snd (onDocumentUpdate env u (s\<lparr>ydoc := y\<rparr>)))" for u s
    using preserves_mono [OF vault_local_update [OF assms], of "s\<lparr>ydoc := y\<rparr>" u] by simp
  show ?thesis
    using u preservesD [OF vault_local_update [OF assms]]
    by (intro preservesI) (auto simp: change_document_def Let_def split: option.split)
qed

lemma preserves_end: "preserves env d N (\<lambda>s. (b, s))"
  by (simp add: preserves_def)

lemma preserves_emitAst: "preserves env d N (emitAstIfChanged env)"
  by (rule preserves_same) simp

lemma preserves_sync:
  assumes "ids_fresh env d N"
  shows "preserves env d N (local_sync env a)"
proof -
  have c: "preserves env d N (change_document env y)" for y by (rule preserves_change [OF assms])
  have e: "preserves env d N (andThen (change_document env y) (\<lambda>s. (False, s)))" for y
    by (intro preserves_andThen c preserves_end)
  show ?thesis
    using preserves_mono [OF c] preserves_mono [OF e] preservesD [OF c] preservesD [OF e]
    by (intro preservesI) (simp_all add: local_sync_def split: sum.splits)
qed

text \<open>Actions that use no ID.\<close>

lemma preserves_quiet:
  assumes "\<And>s. uuids (snd (a s)) = uuids s" "\<And>s. vault_ok env d s \<Longrightarrow> vault_ok env d (snd (a s))"
  shows "preserves env d N a"
  using assms by (simp add: preserves_def)

lemma preserves_hello: "preserves env d N (receive_hello m)"
proof (rule preserves_quiet)
  fix s :: "'a client"
  show "uuids (snd (receive_hello m s)) = uuids s"
    by (simp add: receive_hello_def denyAccess_def close_def close_socket_def emit_def Let_def split: option.split)
  assume ok: "vault_ok env d s"
  have "vault_ok env d (emit OnStorageError s)" using ok by simp
  from vault_deny [OF this] have deny: "vault_ok env d (denyAccess (emit OnStorageError s))" .
  have "vault_ok env d (s\<lparr>documentId := Some i\<rparr>)" if "uuid_field m ''document_id'' = Some i" for i
    using that ok by (auto simp: vault_defs uuid_field_def Let_def split: if_splits option.splits)
  with ok deny show "vault_ok env d (snd (receive_hello m s))"
    by (auto simp: receive_hello_def split: option.split)
qed

lemma sequence_field_bounds: "sequence_field m k = Some n \<Longrightarrow> 0 \<le> n \<and> n \<le> max_safe_integer"
  by (auto simp: sequence_field_def safe_int_def split: jsval.splits option.splits if_splits)

lemma preserves_ready:
  assumes "ids_fresh env d N"
  shows "preserves env d N (receive_ready env m)"
proof -
  have snap: "preserves env d N (upd (\<lambda>s. maybeSaveSnapshot env (transmitPresence env s)))"
    by (rule preserves_same) (simp add: upd_def)
  have final: "preserves env d N (upd (\<lambda>s. persist env None None (emit (OnStatus SOnline) s)))"
    by (rule preserves_upd) (simp add: persist_def emit_def, rule vault_persist_none, simp)
  have nop: "preserves env d N (upd id)" "preserves env d N (upd (\<lambda>a. a))" by (simp_all add: preserves_def upd_def)
  have rest: "preserves env d N (andThen (if b then local_sync env x
        else case p of None \<Rightarrow> upd id | Some a \<Rightarrow> if c then local_sync env a else upd id)
      (andThen (upd (\<lambda>s. maybeSaveSnapshot env (transmitPresence env s)))
        (andThen (if e then emitAstIfChanged env else upd id)
          (upd (\<lambda>s. persist env None None (emit (OnStatus SOnline) s))))))" for b x p c e
    by (intro preserves_andThen preserves_if snap final nop preserves_emitAst)
      (auto simp: preserves_sync [OF assms] nop split: option.split)
  have start: "vault_ok env d s \<Longrightarrow> n \<le> max_safe_integer \<Longrightarrow> vault_ok env d (flushPendingUpdates
      (s\<lparr>latestSequence := max (latestSequence s) n, ready := True, reconnectAttempts := 0, pendingAst := None\<rparr>))" for s n
    using vault_sequence [of env d s n] by (intro vault_flush) (auto simp: vault_defs)
  have u: "uuids (flushPendingUpdates
      (s\<lparr>latestSequence := n, ready := True, reconnectAttempts := 0, pendingAst := None\<rparr>)) = uuids s" for s :: "'a client" and n
    by (simp add: flushPendingUpdates_def)
  show ?thesis
  proof (rule preservesI)
    fix s
    show "uuids s \<le> uuids (snd (receive_ready env m s))"
    proof (cases "sequence_field m ''latest_sequence''")
      case (Some n)
      show ?thesis
        unfolding receive_ready_def Some option.case Let_def by (rule order_trans [OF _ preserves_mono [OF rest]]) (simp add: u)
    qed (simp add: receive_ready_def)
    assume ok: "vault_ok env d s" and N: "uuids (snd (receive_ready env m s)) \<le> N"
    show "vault_ok env d (snd (receive_ready env m s))"
    proof (cases "sequence_field m ''latest_sequence''")
      case (Some n)
      then have n: "n \<le> max_safe_integer" using sequence_field_bounds by blast
      show ?thesis
        using N unfolding receive_ready_def Some option.case Let_def by (intro preservesD [OF rest] start ok n) simp_all
    qed (use ok in \<open>simp add: receive_ready_def\<close>)
  qed
qed

lemma preserves_receiveJSON:
  assumes "ids_fresh env d N" "new_id_ok env"
  shows "preserves env d N (receiveJSON env t)"
proof -
  have p: "preserves env d N (receive_presence m)" for m
    by (rule preserves_same) (auto simp: receive_presence_def Let_def split: option.split jsval.split)
  have w: "preserves env d N (receive_snapshot_saved m)" for m
    by (rule preserves_same) (auto simp: receive_snapshot_saved_def split: option.split)
  have h: "preserves env d N (receive_hello m)" for m by (rule preserves_hello)
  show ?thesis
    using p w h preserves_ready [OF assms(1)]
    unfolding preserves_def receiveJSON_def by (simp split: option.split)
qed

lemma preserves_receiveBinary: "preserves env d N (receiveBinary env b)"
proof -
  let ?n = "int (big_endian (slice 1 9 b))" and ?u = "drop 9 b"
  have remote: "preserves env d N (apply_remote env ?u)"
    by (rule preserves_same) (auto simp: apply_remote_def split: option.split)
  have seq: "preserves env d N (upd (\<lambda>s. persist env None None (s\<lparr>latestSequence := max (latestSequence s) ?n\<rparr>)))"
    if "?n \<le> max_safe_integer"
    by (intro preserves_upd vault_persist_none vault_sequence that) (simp_all add: persist_def)
  have snap: "preserves env d N (upd (maybeSaveSnapshot env))" by (rule preserves_same) (simp add: upd_def)
  have last: "preserves env d N (\<lambda>s. if ready s then andThen (emitAstIfChanged env) (upd (maybeSaveSnapshot env)) s else (True, s))"
    using preserves_andThen [OF preserves_emitAst snap] by (simp add: preserves_def)
  have all: "preserves env d N (andThen (apply_remote env ?u)
      (andThen (upd (\<lambda>s. persist env None None (s\<lparr>latestSequence := max (latestSequence s) ?n\<rparr>)))
        (\<lambda>s. if ready s then andThen (emitAstIfChanged env) (upd (maybeSaveSnapshot env)) s else (True, s))))"
    if "?n \<le> max_safe_integer"
    by (rule preserves_andThen [OF remote preserves_andThen [OF seq [OF that] last]])
  obtain f where f: "f = andThen (apply_remote env ?u)
      (andThen (upd (\<lambda>s. persist env None None (s\<lparr>latestSequence := max (latestSequence s) ?n\<rparr>)))
        (\<lambda>s. if ready s then andThen (emitAstIfChanged env) (upd (maybeSaveSnapshot env)) s else (True, s)))" by simp
  have ack: "uuids (acknowledgePendingUpdate env ?u s) = uuids s" for s
    by (simp add: acknowledgePendingUpdate_def persist_def split: option.split)
  have shape: "snd (receiveBinary env b s) = s \<or> snd (receiveBinary env b s) = snd (refresh s) \<or> ?n \<le> max_safe_integer \<and>
      (\<exists>t. snd (receiveBinary env b s) = snd (f t) \<and> uuids t = uuids s \<and> (vault_ok env d s \<longrightarrow> vault_ok env d t))" for s
  proof (cases "b ! 0 = 1")
    case True
    then show ?thesis
      unfolding receiveBinary_def Let_def f [symmetric] using exI [of "\<lambda>t. snd (f (s\<lparr>lastSnapshotSequence := max (lastSnapshotSequence s) ?n\<rparr>)) = snd (f t) \<and>
        uuids t = uuids s \<and> (vault_ok env d s \<longrightarrow> vault_ok env d t)" "s\<lparr>lastSnapshotSequence := max (lastSnapshotSequence s) ?n\<rparr>"]
      by auto
  next
    case False
    then show ?thesis
      unfolding receiveBinary_def Let_def f [symmetric] using vault_acknowledge [of env d s ?u] ack by auto
  qed
  show ?thesis
  proof (rule preservesI)
    fix s
    show "uuids s \<le> uuids (snd (receiveBinary env b s))"
      using shape [of s] preserves_mono [OF all, folded f] by auto (metis order_refl)+
    assume ok: "vault_ok env d s" and N: "uuids (snd (receiveBinary env b s)) \<le> N"
    then show "vault_ok env d (snd (receiveBinary env b s))"
      using shape [of s] preservesD [OF all, folded f] by auto
  qed
qed

lemma preserves_receive: "ids_fresh env d N \<Longrightarrow> new_id_ok env \<Longrightarrow> preserves env d N (receive env m)"
  by (cases m) (simp_all add: receive_def preserves_receiveJSON preserves_receiveBinary)

lemma process_parts:
  "uuids (process_message env n m s) = uuids (if received n s then snd (receive env m s) else s) \<and>
   vault_ok env d (process_message env n m s) = vault_ok env d (if received n s then snd (receive env m s) else s)"
proof -
  have "vault_ok env d (t\<lparr>receiveRejected := b\<rparr>) = vault_ok env d t" for t b by (rule vault_cong) simp
  then show ?thesis by (cases "receive env m s") (simp add: process_message_cases)
qed

lemma preserves_process:
  "ids_fresh env d N \<Longrightarrow> new_id_ok env \<Longrightarrow> preserves env d N (\<lambda>s. (True, process_message env n m s))"
  using preserves_receive [of env d N m] process_parts [of env n m _ d] by (simp add: preserves_def)

section \<open>Restoring\<close>

text \<open>Before the stored copy is restored nothing has happened to the client's updates.\<close>

definition blank :: "'y client_env \<Rightarrow> object_store \<Rightarrow> 'y client \<Rightarrow> bool" where
  "blank env d s \<longleftrightarrow> pendingUpdates s = [] \<and> persistenceQueue s = [] \<and> db s = d \<and> entries (ce_api env) (ydoc s) = []"

lemma loaded_parts:
  assumes "load z oe k d = Inr (r, d')" "z_uuid z (new_client_id oe)"
    "case stored z k d of Inr (Some r) \<Rightarrow> distinct (map pending_id (r_pending r)) | _ \<Rightarrow> True"
  shows "record_ok z r \<and> held_pending z k d' = set (r_pending r) \<and> distinct (map pending_id (r_pending r)) \<and>
     pending_id ` set (r_pending r) \<subseteq> pending_id ` held_pending z k d"
proof -
  obtain q where q: "stored z k d = Inr q" using assms(1) by (cases "stored z k d") (auto simp: load_def)
  show ?thesis
  proof (cases q)
    case None
    then have r: "r = newOfflineRecord oe" "d' = d(k \<mapsto> clone_record r)"
      using assms(1) q by (auto simp: load_def Let_def)
    have "record_ok z r" using assms(2) by (simp add: r(1) record_ok_def newOfflineRecord_def max_safe_integer_def doc_fits_def)
    moreover have "held_pending z k d' = set (r_pending r)"
      using stored_clone [OF \<open>record_ok z r\<close>, of k d] by (simp add: held_pending_def r(2))
    ultimately show ?thesis by (simp add: r(1) newOfflineRecord_def)
  next
    case (Some p)
    then show ?thesis using assms(1,3) q stored_ok [of z k d p] by (auto simp: load_def held_pending_def)
  qed
qed

lemma vault_restore:
  assumes "vault_ok env d s" "blank env d s" "new_id_ok env" "stored_once env d"
  shows "vault_ok env d (restoreOffline env fails s)"
proof (cases "\<not> fails \<and> (\<exists>r d'. load (ce_z env) (ce_offline env) (client_key env) (db s) = Inr (r, d'))")
  case False
  then have "restoreOffline env fails s = reportStorageError (s\<lparr>restored := True\<rparr>)"
    by (auto simp: restoreOffline_def client_key_def split: sum.split)
  moreover have "vault_ok env d (reportStorageError (s\<lparr>restored := True\<rparr>))" by (rule vault_failed)
  ultimately show ?thesis by simp
next
  case True
  then obtain r d' where l: "load (ce_z env) (ce_offline env) (client_key env) d = Inr (r, d')" "\<not> fails"
    using assms(2) by (auto simp: blank_def)
  have parts: "record_ok (ce_z env) r" "in_store env d' = set (r_pending r)" "distinct (map pending_id (r_pending r))"
    "pending_id ` set (r_pending r) \<subseteq> first_ids env d"
    using loaded_parts [OF l(1)] assms(3,4)
    by (auto simp: new_id_ok_def stored_once_def in_store_def first_ids_def)
  have readable: "\<not> isl (stored (ce_z env) (client_key env) d)" using l(1) by (auto simp: load_def res_simps split: sum.splits)
  let ?s1 = "s\<lparr>restored := True, db := d'\<rparr>"
  have s1: "vault_ok env d ?s1"
    using assms(1,2) parts readable by (auto simp: vault_defs blank_def)
  let ?s2 = "?s1\<lparr>clientId := r_clientId r, documentId := r_documentId r, latestSequence := r_sequence r\<rparr>"
  have s2: "vault_ok env d ?s2"
    using assms(2) s1 parts(1) by (auto simp: vault_defs blank_def record_ok_def doc_fits_def)
  have all: "list_all (safe pending_id (set (r_pending r)) []) (r_pending r)"
    using parts(3) safe_stored [of _ "set (r_pending r)" pending_id] by (auto simp: list_all_iff distinct_map)
  have s3: "vault_ok env d (?s2\<lparr>ydoc := y, pendingUpdates := pendingUpdates ?s2 @ r_pending r, recoveredOffline := b\<rparr>)" for y b
    using s2 assms(2) parts all by (auto simp: vault_defs blank_def image_Un)
  have "vault_ok env d (snd (adopt_record env r ?s1))"
    using s2 s3 by (auto simp: adopt_record_def Let_def split: option.split)
  then show ?thesis
    using s1 vault_failed l assms(2) unfolding restoreOffline_def Let_def
    by (cases "adopt_record env r ?s1")
      (auto simp: client_key_def [symmetric] blank_def split: bool.split option.split sum.split)
qed

section \<open>Every event\<close>

lemma preserves_syncAst: "ids_fresh env d N \<Longrightarrow> preserves env d N (syncAst env a)"
proof (rule preservesI)
  fix s
  assume f: "ids_fresh env d N"
  show "uuids s \<le> uuids (snd (syncAst env a s))"
    using preserves_mono [OF preserves_sync [OF f], of "s\<lparr>renderedAstJSON := r\<rparr>" for r]
    by (simp add: syncAst_def Let_def)
  assume ok: "vault_ok env d s" and N: "uuids (snd (syncAst env a s)) \<le> N"
  let ?t = "s\<lparr>renderedAstJSON := stringify env (JObj a)\<rparr>"
  have t: "vault_ok env d ?t" "vault_ok env d (?t\<lparr>pendingAst := Some a\<rparr>)" using ok by (auto simp: vault_defs)
  show "vault_ok env d (snd (syncAst env a s))"
  proof (cases "closed s \<or> \<not> ready s \<and> \<not> hasWorkingState env ?t")
    case False
    then have "syncAst env a s = local_sync env a ?t" by (auto simp: syncAst_def Let_def)
    then show ?thesis using preservesD [OF preserves_sync [OF f] t(1)] N by simp
  qed (use ok t in \<open>auto simp: syncAst_def Let_def\<close>)
qed

lemma vault_resume_page: "vault_ok env d s \<Longrightarrow> vault_ok env d (resume_page env r s)"
proof -
  assume ok: "vault_ok env d s"
  have idle: "vault_ok env d (t\<lparr>connecting := c\<rparr>)" if "vault_ok env d t" for t c using that by (auto simp: vault_defs)
  have sched: "vault_ok env d (scheduleReconnect t)" if "vault_ok env d t" for t
    using that vault_cong [of "scheduleReconnect t" t] by simp
  have new: "vault_ok env d (s\<lparr>connecting := c, socket := so, readyState := rs, sockets := n\<rparr>)" for c so rs n
    using ok by (auto simp: vault_defs)
  show ?thesis
    using ok idle [OF ok] idle [OF vault_deny [OF ok]] idle [OF sched [of "emit (OnStatus SOffline) s"]] new
    by (auto simp: resume_page_def split: page_result.split option.split)
qed

lemma vault_socket_closed: "vault_ok env d s \<Longrightarrow> vault_ok env d (socket_closed n code s)"
proof -
  assume ok: "vault_ok env d s"
  let ?t = "s\<lparr>socket := None, ready := False, snapshotInFlight := False\<rparr>"
  have t: "vault_ok env d ?t" using ok by (auto simp: vault_defs)
  have "vault_ok env d (scheduleReconnect (emit (OnStatus SOffline) ?t))"
    using t vault_cong [of "scheduleReconnect (emit (OnStatus SOffline) ?t)" ?t] by simp
  with ok t vault_deny [OF t] show ?thesis by (simp add: socket_closed_def Let_def)
qed

lemma uuids_restore: "uuids (restoreOffline env fails s) = uuids s"
proof -
  have a: "uuids (snd (adopt_record env r u)) = uuids u" for r u
    by (auto simp: adopt_record_def Let_def split: option.split)
  have e: "uuids (reportStorageError u) = uuids u" for u :: "'a client"
    by (simp add: reportStorageError_def)
  obtain f where f: "f = adopt_record env" by simp
  have "uuids (snd (f r (s\<lparr>restored := True, db := d\<rparr>))) = uuids s" for r d
    unfolding f a by simp
  then show ?thesis
    unfolding restoreOffline_def Let_def f [symmetric]
    by (auto simp: e split: option.split sum.split prod.split bool.split) (metis snd_conv)+
qed

lemma vault_handle:
  assumes "ids_fresh env d N" "new_id_ok env" "stored_once env d" "occurs e s"
  shows "uuids s \<le> uuids (handle env e s)"
    "vault_ok env d s \<Longrightarrow> (\<not> restored s \<Longrightarrow> blank env d s) \<Longrightarrow> uuids (handle env e s) \<le> N \<Longrightarrow> vault_ok env d (handle env e s)"
proof -
  have "uuids s \<le> uuids (handle env e s) \<and>
    (vault_ok env d s \<longrightarrow> (\<not> restored s \<longrightarrow> blank env d s) \<longrightarrow> uuids (handle env e s) \<le> N \<longrightarrow> vault_ok env d (handle env e s))"
  proof (cases e)
    case (RestoreDone f)
    then show ?thesis using vault_restore [of env d s f] assms by (auto simp: occurs_def uuids_restore)
  next
    case (PageArrived r)
    have "uuids (resume_page env r s) = uuids s"
      by (simp add: resume_page_def denyAccess_def close_def close_socket_def scheduleReconnect_def emit_def Let_def
          split: page_result.split option.split)
    then show ?thesis using PageArrived vault_resume_page [of env d s r] by simp
  next
    case (SocketClosed n c)
    have "uuids (socket_closed n c s) = uuids s"
      by (simp add: socket_closed_def denyAccess_def close_def close_socket_def scheduleReconnect_def emit_def Let_def split: option.split)
    then show ?thesis using SocketClosed vault_socket_closed [of env d s n c] by simp
  next
    case ProcessMessage
    show ?thesis
    proof (cases "receiveQueue s")
      case (Cons x q)
      obtain n m where x: "x = (n, m)" by (cases x)
      have "uuids s \<le> uuids (process_message env n m (s\<lparr>receiveQueue := q\<rparr>))"
        using preserves_mono [OF preserves_process [OF assms(1,2)], of "s\<lparr>receiveQueue := q\<rparr>" n m] by simp
      then show ?thesis
        using preservesD [OF preserves_process [OF assms(1,2)], of "s\<lparr>receiveQueue := q\<rparr>" n m] ProcessMessage Cons x by simp
    qed (use ProcessMessage in simp)
  next
    case (RunJob f)
    show ?thesis
    proof (cases "persistenceQueue s")
      case (Cons j q)
      have "vault_ok env d (s\<lparr>persistenceQueue := j # q\<rparr>) = vault_ok env d s" by (simp add: Cons [symmetric])
      then show ?thesis using RunJob Cons vault_job [where env = env and d = d and s = s and j = j and q = q and fails = f] by (simp add: uuids_job)
    qed (use RunJob in simp)
  next
    case (CallSyncAst a)
    then show ?thesis using preserves_syncAst [OF assms(1)] by (simp add: preserves_def)
  next
    case (SocketOpened n)
    then show ?thesis by (simp add: Let_def)
  next
    case TimerFired
    have v: "vault (connect (s\<lparr>reconnectTimer := None\<rparr>)) = vault s" by simp
    then show ?thesis using TimerFired vault_cong [OF v] vault_uuids [OF v] by simp
  qed (use vault_cong [of "handle env e s" s] vault_uuids [of "handle env e s" s] in simp_all)
  then show "uuids s \<le> uuids (handle env e s)"
    "vault_ok env d s \<Longrightarrow> (\<not> restored s \<Longrightarrow> blank env d s) \<Longrightarrow> uuids (handle env e s) \<le> N \<Longrightarrow> vault_ok env d (handle env e s)"
    by blast+
qed

lemma blank_handle:
  assumes "client_ok s" "\<not> restored s" "blank env d s" "occurs e s" "\<not> restored (handle env e s)"
  shows "blank env d (handle env e s)"
proof -
  have c: "socket s = None" "\<not> ready s" "connecting s \<noteq> AwaitPage" using assms(1,2) by (auto simp: client_ok_def)
  have restored: "restored (restoreOffline env f s)" for f
    using link_restore [of env f s] by (simp add: link_def)
  show ?thesis
  proof (cases e)
    case ProcessMessage
    show ?thesis
      using ProcessMessage c assms(3) by (cases "receiveQueue s") (auto simp: process_message_cases received_def blank_def)
  next
    case (RestoreDone f)
    then show ?thesis using assms(5) restored by simp
  next
    case (CallSyncAst a)
    then show ?thesis using c assms(3) by (simp add: syncAst_def Let_def hasWorkingState_def blank_def)
  qed (use assms c in \<open>auto simp: blank_def occurs_def connect_def emit_def resume_restored_def socket_closed_def
      transmitPresence_def refresh_cases sendPresence_def close_def close_socket_def Let_def split: option.split\<close>)
qed

lemma run_invariant:
  assumes "ids_fresh env d N" "new_id_ok env" "stored_once env d"
  shows "run_events env es s = Some s' \<Longrightarrow> uuids s \<le> uuids s' \<and>
    (uuids s' \<le> N \<longrightarrow> client_reachable env s \<longrightarrow> vault_ok env d s \<longrightarrow> (\<not> restored s \<longrightarrow> blank env d s) \<longrightarrow> vault_ok env d s')"
proof (induction es arbitrary: s)
  case (Cons e es)
  then have e: "occurs e s" "run_events env es (handle env e s) = Some s'" by (auto split: if_splits)
  let ?t = "handle env e s"
  note IH = Cons.IH [OF e(2)] and H = vault_handle [OF assms e(1)]
  have mono: "uuids s \<le> uuids ?t" "uuids ?t \<le> uuids s'" using H(1) IH by blast+
  have "vault_ok env d s'"
    if N: "uuids s' \<le> N" and r: "client_reachable env s" and v: "vault_ok env d s" and b: "\<not> restored s \<longrightarrow> blank env d s"
  proof -
    have ok: "client_ok s" by (rule reachable_ok [OF r])
    have "restored ?t" if "restored s"
      using handle_ok [OF ok e(1), of env] that by (auto simp: keeps_def)
    then have "\<not> restored ?t \<longrightarrow> blank env d ?t" using blank_handle [OF ok _ _ e(1)] b by blast
    moreover have "client_reachable env ?t" by (rule client_reachable.step [OF r client_step.step [OF e(1)]])
    moreover have "vault_ok env d ?t" using H(2) v b N mono(2) by simp
    ultimately show ?thesis using IH N by blast
  qed
  with mono show ?case by linarith
qed simp

lemma start_ok:
  assumes "z_uuid (ce_z env) cid" "entries (ce_api env) (new_map (ce_api env)) = []"
  shows "vault_ok env d (initial_client env cid d) \<and> blank env d (initial_client env cid d)"
  using assms by (simp add: vault_defs blank_def initial_client_def max_safe_integer_def first_ids_def)

section \<open>Draining the queue and starting again\<close>

text \<open>The queue runs empty: each job is a step, and none adds another.\<close>

definition drain :: "'y client_env \<Rightarrow> 'y client \<Rightarrow> 'y client" where
  "drain env s = (handle env (RunJob False) ^^ length (persistenceQueue s)) s"

lemma run_job_rest:
  "persistenceQueue (run_job env f j s) = persistenceQueue s" "pendingUpdates (run_job env f j s) = pendingUpdates s"
proof -
  have fold: "persistenceQueue (fold sendPendingUpdate ps t) = persistenceQueue t \<and>
      pendingUpdates (fold sendPendingUpdate ps t) = pendingUpdates t" for ps and t :: "'a client"
    by (induction ps arbitrary: t) (simp_all add: sendPendingUpdate_def emit_def)
  show "persistenceQueue (run_job env f j s) = persistenceQueue s" "pendingUpdates (run_job env f j s) = pendingUpdates s"
    using fold by (auto simp: run_job_def reportStorageError_def sendPendingUpdate_def emit_def Let_def
        split: job.split sum.split option.split)
qed

lemma drain_vault:
  "vault_ok env d s \<Longrightarrow> vault_ok env d (drain env s) \<and> persistenceQueue (drain env s) = [] \<and>
     pendingUpdates (drain env s) = pendingUpdates s"
proof (induction "persistenceQueue s" arbitrary: s)
  case (Cons j q)
  let ?t = "handle env (RunJob False) s"
  have q: "persistenceQueue s = j # q" by (simp add: Cons.hyps(2) [symmetric])
  have t: "?t = run_job env False j (s\<lparr>persistenceQueue := q\<rparr>)" by (simp add: q)
  have "vault_ok env d (s\<lparr>persistenceQueue := j # q\<rparr>)" using Cons.prems by (simp add: q [symmetric])
  then have ok: "vault_ok env d ?t" unfolding t by (rule vault_job)
  have rest: "persistenceQueue ?t = q" "pendingUpdates ?t = pendingUpdates s" by (unfold t, simp_all add: run_job_rest)
  have "drain env s = drain env ?t"
    unfolding drain_def rest(1) q by (simp add: funpow_swap1 del: handle.simps)
  then show ?case using Cons.hyps(1) [of ?t] rest ok by simp
qed (simp add: drain_def)

lemma drained_held:
  assumes "vault_ok env d s"
  shows "storageFailed (drain env s) \<or> isl (stored (ce_z env) (client_key env) (db (drain env s))) \<or>
     set (pendingUpdates s) \<subseteq> in_store env (db (drain env s))"
proof (cases "lost env (drain env s)")
  case True
  then show ?thesis using drain_vault [OF assms] by (auto simp: lost_def)
next
  case False
  then have "vault_kept env d (drain env s)" using drain_vault [OF assms] by (simp add: vault_ok_def)
  then show ?thesis using vault_okD(11) drain_vault [OF assms] safe_held by (fastforce simp: list_all_iff)
qed

lemma restart_unreadable:
  "isl (stored (ce_z env) (client_key env) d) \<Longrightarrow> storageFailed (restoreOffline env False (initial_client env cid d))"
  by (auto simp: isl_def restoreOffline_def client_key_def [symmetric] load_def res_simps initial_client_def
      reportStorageError_def emit_def)

lemma restart:
  "storageFailed (restoreOffline env False (initial_client env cid d)) \<or>
     in_store env d \<subseteq> set (pendingUpdates (restoreOffline env False (initial_client env cid d)))"
proof (cases "stored (ce_z env) (client_key env) d")
  case (Inr q)
  show ?thesis
  proof (cases q)
    case (Some r)
    then have l: "load (ce_z env) (ce_offline env) (client_key env) d = Inr (r, d)" using Inr by (simp add: load_def)
    let ?s1 = "(initial_client env cid d)\<lparr>restored := True, db := d\<rparr>"
    have adopt: "storageFailed (snd (adopt_record env r ?s1)) \<or> pendingUpdates (snd (adopt_record env r ?s1)) = r_pending r \<or>
        fst (adopt_record env r ?s1) = False"
      by (auto simp: adopt_record_def Let_def emitAstIfChanged_def emit_def initial_client_def split: option.split)
    show ?thesis
      using l adopt Inr Some unfolding restoreOffline_def Let_def
      by (cases "adopt_record env r ?s1")
        (auto simp: client_key_def [symmetric] initial_client_def in_store_def held_pending_def reportStorageError_def emit_def
          split: bool.split option.split sum.split)
  qed (use Inr in \<open>simp add: in_store_def held_pending_def\<close>)
qed (simp add: in_store_def held_pending_def)

section \<open>Property\<close>

text \<open>C12: whatever happened to a client, and wherever it is stopped, its queue of writes runs empty, and unless a
  storage error has been reported to the user by then, a client started on what is stored takes up every
  update that still waits for an acknowledgement.\<close>

theorem crash_recovery:
  assumes "run_events env es (initial_client env cid d) = Some s" "z_uuid (ce_z env) cid"
    "entries (ce_api env) (new_map (ce_api env)) = []" "ids_fresh env d (uuids s)" "new_id_ok env" "stored_once env d"
  shows "persistenceQueue (drain env s) = [] \<and> (storageFailed (drain env s) \<or>
     (let t = restoreOffline env False (initial_client env cid' (db (drain env s)))
      in storageFailed t \<or> set (pendingUpdates s) \<subseteq> set (pendingUpdates t)))"
proof -
  have start: "vault_ok env d (initial_client env cid d)" "blank env d (initial_client env cid d)"
    using start_ok [OF assms(2,3), of d] by simp_all
  have s: "vault_ok env d s"
    using run_invariant [OF assms(4-6,1)] client_reachable.init [of env cid d] start by simp
  show ?thesis
    using drain_vault [OF s] drained_held [OF s] restart [of env cid' "db (drain env s)"]
      restart_unreadable [of env "db (drain env s)" cid']
    by (auto simp: Let_def)
qed

definition crash_env :: "ytree client_env" where
  "crash_env = tree_env\<lparr>ce_z := sample_zenv\<lparr>z_uuid := isUUID\<rparr>, ce_uuid := (\<lambda>n. if n = 0 then sample_uuid else [])\<rparr>"

lemma crash_run:
  "case run_events crash_env to_ready (initial_client crash_env sample_uuid Map.empty) of None \<Rightarrow> False
   | Some s \<Rightarrow> uuids s = 1 \<and> pendingUpdates s \<noteq> [] \<and> \<not> storageFailed (drain crash_env s) \<and>
       \<not> storageFailed (restoreOffline crash_env False (initial_client crash_env sample_uuid (db (drain crash_env s))))"
  by code_simp

lemma crash_recovery_witness:
  "\<exists>s. run_events crash_env to_ready (initial_client crash_env sample_uuid Map.empty) = Some s \<and> pendingUpdates s \<noteq> [] \<and>
     set (pendingUpdates s) \<subseteq> set (pendingUpdates
       (restoreOffline crash_env False (initial_client crash_env sample_uuid (db (drain crash_env s)))))"
proof -
  obtain s where s: "run_events crash_env to_ready (initial_client crash_env sample_uuid Map.empty) = Some s" "uuids s = 1"
    "pendingUpdates s \<noteq> []" "\<not> storageFailed (drain crash_env s)"
    "\<not> storageFailed (restoreOffline crash_env False (initial_client crash_env sample_uuid (db (drain crash_env s))))"
    using crash_run by (auto split: option.splits)
  have none: "stored (ce_z crash_env) (client_key crash_env) Map.empty = Inr None" by (simp add: stored_def)
  have "z_uuid (ce_z crash_env) sample_uuid" by code_simp
  moreover have "entries (ce_api crash_env) (new_map (ce_api crash_env)) = []" by code_simp
  moreover have "ids_fresh crash_env Map.empty (uuids s)"
    by (simp add: ids_fresh_def s(2) first_ids_def in_store_def held_pending_def none)
  moreover have "new_id_ok crash_env"
  proof -
    have "isUUID sample_uuid" by code_simp
    then show ?thesis by (simp add: new_id_ok_def crash_env_def tree_env_def sample_offline_def)
  qed
  moreover have "stored_once crash_env Map.empty" by (simp add: stored_once_def none)
  ultimately have "storageFailed (drain crash_env s) \<or>
      (let t = restoreOffline crash_env False (initial_client crash_env sample_uuid (db (drain crash_env s)))
       in storageFailed t \<or> set (pendingUpdates s) \<subseteq> set (pendingUpdates t))"
    using crash_recovery [OF s(1)] by blast
  with s show ?thesis by (auto simp: Let_def)
qed

end
