(* ===== verification/Components.thy ===== *)
theory Components
  imports Serialize Zod
begin

text \<open>
  \<open>lib/components.ts\<close>: the properties form of an infobox component.

  A component schema is an object, the fields of a \<open>JObj\<close>. \<open>componentFields\<close> says which schemas
  the form can edit, \<open>componentDefaultProps\<close> which properties a new component starts with. The
  texts of the presets are given by their code units.
\<close>

section \<open>Fields of a schema\<close>

datatype component_renderer = BuiltinKeyValue | BuiltinEntityClaimInfobox

record component_field =
  cf_key :: jstr
  cf_schema :: fields
  cf_required :: bool

datatype type_error = TypeError

definition parseComponentObject :: "(jstr \<Rightarrow> jsval option) \<Rightarrow> jstr \<Rightarrow> fields option" where
  "parseComponentObject json_parse source = Option.bind (json_parse source) z_record"

definition root_keys :: "jstr list" where
  "root_keys = [js ''type'', js ''properties'', js ''required'', js ''additionalProperties'', js ''title'',
     js ''description'', js ''$schema'']"

definition is_boolean :: "jsval \<Rightarrow> bool" where
  "is_boolean v \<longleftrightarrow> z_boolean v \<noteq> None"

definition array_definition_ok :: "fields \<Rightarrow> bool" where
  "array_definition_ok d \<longleftrightarrow>
     (case z_record (getp d (js ''items'')) of None \<Rightarrow> False
      | Some it \<Rightarrow> getp it (js ''type'') = JStr (js ''string'') \<and> length it = 1) \<and>
     (getp d (js ''uniqueItems'') = JUndef \<or> is_boolean (getp d (js ''uniqueItems'')))"

text \<open>The table of default schemas: whether the schema of the type accepts.\<close>

definition default_ok :: "jstr \<Rightarrow> jsval \<Rightarrow> bool" where
  "default_ok t v \<longleftrightarrow>
     (if t = js ''string'' then z_string v \<noteq> None
      else if t = js ''number'' then z_number v \<noteq> None
      else if t = js ''integer'' then z_int v \<noteq> None
      else if t = js ''boolean'' then z_boolean v \<noteq> None
      else z_array z_string v \<noteq> None)"

definition scalar_types :: "jstr list" where
  "scalar_types = [js ''string'', js ''number'', js ''integer'', js ''boolean'']"

text \<open>One turn of the loop: throws, returns null, or pushes the field.\<close>

definition component_field :: "jstr list \<Rightarrow> jstr \<Rightarrow> fields \<Rightarrow> type_error + component_field option" where
  "component_field required key d =
     (let isArray = getp d (js ''type'') = JStr (js ''array'');
          allowed = [js ''type'', js ''title'', js ''description'', js ''default''] @
            (if isArray then [js ''items'', js ''uniqueItems''] else []);
          rest = (\<lambda>t.
            if list_ex (\<lambda>p. fst p \<notin> set allowed) d then Inr None
            else if list_ex (\<lambda>k. getp d (js k) \<noteq> JUndef \<and> z_string (getp d (js k)) = None) [''title'', ''description'']
              then Inr None
            else if getp d (js ''default'') \<noteq> JUndef \<and> \<not> default_ok t (getp d (js ''default'')) then Inr None
            else Inr (Some \<lparr>cf_key = key, cf_schema = d, cf_required = key \<in> set required\<rparr>))
      in if isArray then (if array_definition_ok d then rest (js ''array'') else Inr None)
         else case js_String (getp d (js ''type'')) of
             None \<Rightarrow> Inl TypeError
           | Some t \<Rightarrow> if t \<in> set scalar_types then rest t else Inr None)"

fun component_loop :: "jstr list \<Rightarrow> fields \<Rightarrow> type_error + component_field list option" where
  "component_loop required [] = Inr (Some [])"
| "component_loop required ((key, raw) # ps) =
     (case z_record raw of None \<Rightarrow> Inr None
      | Some d \<Rightarrow> bindE (component_field required key d) (\<lambda>f. case f of None \<Rightarrow> Inr None
          | Some f \<Rightarrow> bindE (component_loop required ps) (\<lambda>fs. Inr (map_option ((#) f) fs))))"

definition componentFields :: "fields \<Rightarrow> type_error + component_field list option" where
  "componentFields schema =
     (if getp schema (js ''type'') \<noteq> JStr (js ''object'') \<or>
         list_ex (\<lambda>p. fst p \<notin> set root_keys) schema \<or>
         (getp schema (js ''additionalProperties'') \<noteq> JUndef \<and> \<not> is_boolean (getp schema (js ''additionalProperties'')))
      then Inr None
      else
        let properties = getp schema (js ''properties''); required = getp schema (js ''required'') in
        case (z_record (if nullish properties then JObj [] else properties),
              z_array z_string (if nullish required then JArr [] else required)) of
          (Some ps, Some rs) \<Rightarrow>
            if list_ex (\<lambda>k. k \<notin> fst ` set ps) rs then Inr None else component_loop rs ps
        | _ \<Rightarrow> Inr None)"

section \<open>Default properties\<close>

text \<open>The \<open>switch\<close> over the type of a required property.\<close>

definition required_default :: "jsval \<Rightarrow> jsval option" where
  "required_default t =
     (if t = JStr (js ''string'') then Some (JStr [])
      else if t = JStr (js ''number'') \<or> t = JStr (js ''integer'') then Some (JNum (Dec False 0 0))
      else if t = JStr (js ''boolean'') then Some (JBool False)
      else if t = JStr (js ''array'') then Some (JArr [])
      else None)"

definition default_step :: "jstr list option \<Rightarrow> jstr \<times> jsval \<Rightarrow> fields \<Rightarrow> fields" where
  "default_step required p result = (case z_record (snd p) of None \<Rightarrow> result
     | Some d \<Rightarrow>
         if getp d (js ''default'') \<noteq> JUndef then assoc_put (fst p) (getp d (js ''default'')) result
         else if (case required of Some rs \<Rightarrow> fst p \<in> set rs | None \<Rightarrow> False)
           then (case required_default (getp d (js ''type'')) of
               Some v \<Rightarrow> assoc_put (fst p) v result | None \<Rightarrow> result)
           else result)"

definition componentDefaultProps :: "fields \<Rightarrow> component_renderer \<Rightarrow> fields" where
  "componentDefaultProps schema renderer =
     (let required = z_array z_string (getp schema (js ''required'')) in
      case z_record (getp schema (js ''properties'')) of None \<Rightarrow> []
      | Some ps \<Rightarrow>
          let result = fold (default_step required) ps [] in
          if renderer = BuiltinEntityClaimInfobox then
            (case z_record (getp ps (js ''property_keys'')) of None \<Rightarrow> result
             | Some d \<Rightarrow>
                 if getp d (js ''type'') = JStr (js ''array'') \<and> getp result (js ''property_keys'') = JUndef
                 then assoc_put (js ''property_keys'') (JArr []) result else result)
          else result)"

section \<open>Presets\<close>

record component_preset =
  cp_key :: jstr
  cp_name :: jstr
  cp_description :: jstr
  cp_renderer :: component_renderer
  cp_schema :: fields
  cp_sample :: "(jstr \<times> jstr) list"

definition keyValuePreset :: "jstr \<Rightarrow> jstr \<Rightarrow> jstr \<Rightarrow> (jstr \<times> jstr) list \<Rightarrow> component_preset" where
  "keyValuePreset key name description sample =
     \<lparr>cp_key = key, cp_name = name, cp_description = description, cp_renderer = BuiltinKeyValue,
      cp_schema = [(js ''type'', JStr (js ''object'')),
        (js ''properties'', JObj (map (\<lambda>p. (fst p,
           JObj [(js ''type'', JStr (js ''string'')), (js ''default'', JStr (snd p))])) sample)),
        (js ''additionalProperties'', JBool False)],
      cp_sample = sample\<rparr>"

definition COMPONENT_PRESETS :: "component_preset list" where
  "COMPONENT_PRESETS =
    [keyValuePreset (js ''character-card'') [35282, 33394, 36164, 26009, 21345] [25972, 29702, 35282, 33394,
          30340, 25152, 23646, 38453, 33829, 12289, 36523, 20221, 19982, 30331, 22330, 20316, 21697, 12290]
       [([21517, 31216], [23433, 27604]),
        ([25152, 23646], [29409, 20820, 23627]),
        ([36523, 20221], [22996, 25176, 25191, 34892, 32773]),
        ([30331, 22330, 20316, 21697], [32477, 21306, 38646])],
     keyValuePreset (js ''organization-card'') [32452, 32455, 27010, 20917, 21345] [27719, 24635, 32452,
          32455, 30340, 31867, 22411, 12289, 25104, 31435, 26102, 38388, 19982, 20027, 35201, 32844, 36131, 12290]
       [([21517, 31216], [26143, 28207, 30740, 31350, 38498]),
        ([31867, 22411], [30740, 31350, 26426, 26500]),
        ([25104, 31435, 26102, 38388], (js ''2042 '' @ [24180])),
        ([20027, 35201, 32844, 36131], [28145, 31354, 36890, 20449, 30740, 31350])],
     keyValuePreset (js ''software-card'') [36719, 20214, 36164, 26009, 21345] [35760, 24405, 29256,
          26412, 12289, 35768, 21487, 35777, 19982, 25903, 25345, 24179, 21488, 12290]
       [([21517, 31216], js ''Atlas Editor''),
        ([29256, 26412], js ''2.4.0''),
        ([35768, 21487, 35777], js ''MIT''),
        ([25903, 25345, 24179, 21488], js ''macOS / Linux / Windows'')],
     keyValuePreset (js ''protocol-card'') [21327, 35758, 25688, 35201, 21345] [23637, 31034, 25991,
          26723, 32534, 21495, 12289, 31867, 21035, 21644, 29366, 24577, 12290]
       [([21517, 31216], js ''JSON''),
        ([25991, 26723, 32534, 21495], js ''RFC 8259''),
        ([31867, 21035], [25968, 25454, 20132, 25442, 26684, 24335]),
        ([29366, 24577], js ''Internet Standard'')],
     \<lparr>cp_key = js ''entity-infobox'', cp_name = [21160, 24577, 23454, 20307, 20449, 24687, 26694],
       cp_description = [36873, 25321, 30495, 23454, 23454, 20307, 65292, 33258, 21160, 23637, 31034, 24050,
          21457, 24067, 20107, 23454, 65307, 26631, 39064, 12289, 35821, 35328, 21644, 23646, 24615, 33539, 22260,
          21487, 37197, 32622, 12290],
       cp_renderer = BuiltinEntityClaimInfobox,
       cp_schema = [(js ''type'', JStr (js ''object'')), (js ''properties'', JObj
         [(js ''title'', JObj [(js ''type'', JStr (js ''string'')), (js ''title'', JStr [26631, 39064]),
          (js ''default'', JStr [])]),
          (js ''language'', JObj [(js ''type'', JStr (js ''string'')), (js ''title'', JStr [26631, 31614,
          35821, 35328]), (js ''default'', JStr (js ''zh''))]),
          (js ''property_keys'', JObj [(js ''type'', JStr (js ''array'')), (js ''title'', JStr [23637, 31034,
          23646, 24615]),
            (js ''items'', JObj [(js ''type'', JStr (js ''string''))]), (js ''uniqueItems'', JBool True),
          (js ''default'', JArr [])])]),
         (js ''additionalProperties'', JBool False)],
       cp_sample = [([25991, 26723, 32534, 21495], js ''RFC 8259''),
        ([31867, 21035], [25968, 25454, 20132, 25442, 26684, 24335]),
        ([21457, 24067, 32452, 32455], js ''IETF''),
        ([29366, 24577], js ''Internet Standard'')]\<rparr>]"

section \<open>Fields and defaults\<close>

lemma getp_assoc_put: "getp (assoc_put k v fs) j = (if j = k then v else getp fs j)"
  by (simp add: getp_def map_of_assoc_put)

lemma component_loop_Some:
  "component_loop rs ps = Inr (Some fs) \<Longrightarrow>
     list_all2 (\<lambda>p f. \<exists>d. snd p = JObj d \<and> component_field rs (fst p) d = Inr (Some f)) ps fs"
proof (induction ps arbitrary: fs)
  case (Cons p ps)
  then show ?case
    by (cases p) (auto simp: res_simps z_record_Some split: option.splits)
qed simp

lemma component_field_Some:
  assumes "component_field rs key d = Inr (Some f)"
  shows "f = \<lparr>cf_key = key, cf_schema = d, cf_required = key \<in> set rs\<rparr>"
    "\<exists>t. js_String (getp d (js ''type'')) = Some t \<and> t \<in> set (js ''array'' # scalar_types) \<and>
       (getp d (js ''default'') = JUndef \<or> default_ok t (getp d (js ''default'')))"
  using assms by (auto simp: component_field_def Let_def split: if_splits option.splits)

definition default_of :: "jstr list option \<Rightarrow> jstr \<times> jsval \<Rightarrow> jsval option" where
  "default_of required p = (case z_record (snd p) of None \<Rightarrow> None
     | Some d \<Rightarrow>
         if getp d (js ''default'') \<noteq> JUndef then Some (getp d (js ''default''))
         else if (case required of Some rs \<Rightarrow> fst p \<in> set rs | None \<Rightarrow> False)
           then required_default (getp d (js ''type'')) else None)"

lemma default_step_eq:
  "default_step required p result =
     (case default_of required p of None \<Rightarrow> result | Some v \<Rightarrow> assoc_put (fst p) v result)"
  by (auto simp: default_step_def default_of_def split: option.splits)

lemma fold_default:
  "distinct (map fst ps) \<Longrightarrow> getp (fold (default_step required) ps acc) k =
     (case map_of ps k of None \<Rightarrow> getp acc k
      | Some raw \<Rightarrow> (case default_of required (k, raw) of None \<Rightarrow> getp acc k | Some v \<Rightarrow> v))"
proof (induction ps arbitrary: acc)
  case (Cons p ps)
  obtain j raw where p: "p = (j, raw)" by (cases p)
  have "map_of ps j = None" using Cons.prems by (simp add: p map_of_eq_None_iff)
  then show ?case
    using Cons by (auto simp: p default_step_eq getp_assoc_put split: option.split)
qed simp

lemma fold_default_keys:
  "fst ` set (fold (default_step required) ps acc) \<subseteq> fst ` set acc \<union> fst ` set ps"
proof (induction ps arbitrary: acc)
  case (Cons p ps)
  have "fst ` set (default_step required p acc) \<subseteq> insert (fst p) (fst ` set acc)"
    by (auto simp: default_step_eq fst_set_assoc_put split: option.split)
  with Cons [of "default_step required p acc"] show ?case by auto
qed simp

text \<open>A schema that the form edits, taken apart.\<close>

lemma componentFields_parts:
  assumes "componentFields schema = Inr (Some fs)"
  obtains ps rs where
    "z_record (getp schema (js ''properties'')) = Some ps \<or> nullish (getp schema (js ''properties'')) \<and> ps = []"
    "z_array z_string (getp schema (js ''required'')) = Some rs \<or> z_array z_string (getp schema (js ''required'')) = None \<and> rs = []"
    "component_loop rs ps = Inr (Some fs)"
proof -
  let ?p = "getp schema (js ''properties'')" and ?r = "getp schema (js ''required'')"
  obtain ps rs where 1: "z_record (if nullish ?p then JObj [] else ?p) = Some ps"
    "z_array z_string (if nullish ?r then JArr [] else ?r) = Some rs" "component_loop rs ps = Inr (Some fs)"
    using assms by (auto simp: componentFields_def Let_def split: if_splits option.splits)
  have "z_array z_string ?r = Some rs \<or> z_array z_string ?r = None \<and> rs = []"
    using 1(2) by (cases ?r) (auto simp: z_array_def)
  moreover have "z_record ?p = Some ps \<or> nullish ?p \<and> ps = []" using 1(1) by (auto split: if_splits)
  ultimately show ?thesis using 1(3) that by blast
qed

text \<open>
  What a new component has for a field. The form takes the type of a field by its \<open>String\<close>; only a type
  that is itself one of these strings has a zero value.
\<close>

definition zero_value :: "jsval \<Rightarrow> jsval" where
  "zero_value type = (case map_of
     [(JStr (js ''string''), JStr []), (JStr (js ''number''), JNum (Dec False 0 0)), (JStr (js ''integer''), JNum (Dec False 0 0)),
      (JStr (js ''boolean''), JBool False), (JStr (js ''array''), JArr [])] type of Some v \<Rightarrow> v | None \<Rightarrow> JUndef)"

definition field_type :: "component_field \<Rightarrow> jsval" where
  "field_type f = getp (cf_schema f) (js ''type'')"

definition type_name :: "component_field \<Rightarrow> jstr" where
  "type_name f = (case js_String (field_type f) of Some t \<Rightarrow> t | None \<Rightarrow> [])"

definition expected_default :: "component_renderer \<Rightarrow> component_field \<Rightarrow> jsval" where
  "expected_default renderer f =
     (if getp (cf_schema f) (js ''default'') \<noteq> JUndef then getp (cf_schema f) (js ''default'')
      else if cf_required f \<and> zero_value (field_type f) \<noteq> JUndef then zero_value (field_type f)
      else if renderer = BuiltinEntityClaimInfobox \<and> cf_key f = js ''property_keys'' \<and> field_type f = JStr (js ''array'')
        then JArr []
      else JUndef)"

lemma zero_value_default: "zero_value t = (case required_default t of Some v \<Rightarrow> v | None \<Rightarrow> JUndef)"
  by (simp add: zero_value_def required_default_def)

lemma zero_value_cases:
  "zero_value t = JUndef \<or> (\<exists>u. t = JStr u \<and> default_ok u (zero_value t) \<and> zero_value t \<noteq> JUndef)"
  by (auto simp: zero_value_default required_default_def default_ok_def safe_int_def max_safe_integer_def z_array_def)

lemma expected_ok:
  assumes "component_field rs key d = Inr (Some f)"
  shows "expected_default r f = JUndef \<or> default_ok (type_name f) (expected_default r f)"
proof -
  note f = component_field_Some(1) [OF assms]
  obtain t where t: "js_String (getp d (js ''type'')) = Some t"
      "getp d (js ''default'') = JUndef \<or> default_ok t (getp d (js ''default''))"
    using component_field_Some(2) [OF assms] by blast
  have n: "type_name f = t" "field_type f = getp d (js ''type'')" by (simp_all add: type_name_def field_type_def f t(1))
  have zero: "default_ok t (zero_value (field_type f))" if "zero_value (field_type f) \<noteq> JUndef"
    using zero_value_cases [of "field_type f"] that t(1) n(2) by auto
  have keys: "default_ok t (JArr [])" if "field_type f = JStr (js ''array'')"
    using that t(1) n(2) by (auto simp: default_ok_def z_array_def)
  have d: "default_ok t (getp (cf_schema f) (js ''default''))" if "getp (cf_schema f) (js ''default'') \<noteq> JUndef"
    using that t(2) by (simp add: f)
  show ?thesis
    unfolding expected_default_def n(1) using zero keys d by presburger
qed

lemma default_of_expected:
  assumes "component_field rs key d = Inr (Some f)" "required = Some rs \<or> required = None \<and> rs = []"
  shows "(case default_of required (key, JObj d) of None \<Rightarrow> JUndef | Some v \<Rightarrow> v) = expected_default BuiltinKeyValue f"
  using assms(2)
  by (auto simp: default_of_def expected_default_def zero_value_default field_type_def component_field_Some(1) [OF assms(1)]
      split: option.split)

text \<open>The form has a field for every property of the schema and no others.\<close>

lemma form_field:
  assumes "component_loop rs ps = Inr (Some fs)" "f \<in> set fs" "distinct (map fst ps)"
  shows "\<exists>d. map_of ps (cf_key f) = Some (JObj d) \<and> component_field rs (cf_key f) d = Inr (Some f)"
proof -
  note all = component_loop_Some [OF assms(1)]
  obtain i where i: "i < length fs" "f = fs ! i" using assms(2) by (auto simp: in_set_conv_nth)
  then obtain d where d: "ps ! i = (fst (ps ! i), JObj d)" "component_field rs (fst (ps ! i)) d = Inr (Some f)"
    using all by (auto simp: list_all2_conv_all_nth) (metis prod.collapse)
  have "i < length ps" using all i(1) by (simp add: list_all2_lengthD)
  then have "map_of ps (fst (ps ! i)) = Some (JObj d)" using assms(3) d(1) by (metis map_of_eq_Some_iff nth_mem)
  with component_field_Some(1) [OF d(2)] d(2) show ?thesis by auto
qed

lemma form_keys:
  assumes "component_loop rs ps = Inr (Some fs)"
  shows "fst ` set ps \<subseteq> cf_key ` set fs"
proof
  fix k assume "k \<in> fst ` set ps"
  then obtain j where j: "j < length ps" "k = fst (ps ! j)" by (auto simp: in_set_conv_nth)
  note all = component_loop_Some [OF assms]
  have "k = cf_key (fs ! j)"
    using j all component_field_Some(1) by (fastforce simp: list_all2_conv_all_nth)
  then show "k \<in> cf_key ` set fs" using j list_all2_lengthD [OF all] by simp
qed

text \<open>What \<open>componentDefaultProps\<close> gives on the properties of a schema: the folded defaults, and the keys of an infobox.\<close>

lemma default_props:
  assumes "getp schema (js ''properties'') = JObj ps"
  shows "componentDefaultProps schema r =
      (let result = fold (default_step (z_array z_string (getp schema (js ''required'')))) ps []
       in if r = BuiltinEntityClaimInfobox \<and> getp result (js ''property_keys'') = JUndef \<and>
         (case z_record (getp ps (js ''property_keys'')) of None \<Rightarrow> False | Some d \<Rightarrow> getp d (js ''type'') = JStr (js ''array''))
       then assoc_put (js ''property_keys'') (JArr []) result else result)"
  by (simp add: componentDefaultProps_def assms Let_def split: option.split)

lemma default_props_keys:
  assumes "getp schema (js ''properties'') = JObj ps"
  shows "fst ` set (componentDefaultProps schema r) \<subseteq> fst ` set ps"
proof -
  have "js ''property_keys'' \<in> fst ` set ps" if "z_record (getp ps (js ''property_keys'')) = Some d" for d
    using getp_mem [of ps "js ''property_keys''" "JObj d"] that by (force simp: z_record_Some)
  then show ?thesis
    using fold_default_keys [of "z_array z_string (getp schema (js ''required''))" ps "[]"]
    unfolding default_props [OF assms] Let_def by (auto simp: fst_set_assoc_put split: option.splits)
qed



text \<open>A key-value preset can be edited with the form, and starts with its sample, in order.\<close>

lemma preset_loop:
  "component_loop rs (map (\<lambda>p. (fst p, JObj [(js ''type'', JStr (js ''string'')), (js ''default'', JStr (snd p))])) sample) =
     Inr (Some (map (\<lambda>p. \<lparr>cf_key = fst p, cf_schema = [(js ''type'', JStr (js ''string'')), (js ''default'', JStr (snd p))],
        cf_required = fst p \<in> set rs\<rparr>) sample))"
  by (induction sample) (simp_all add: component_field_def Let_def scalar_types_def default_ok_def)

lemma preset_defaults:
  "distinct (map fst (acc @ sample)) \<Longrightarrow>
     fold (default_step required) (map (\<lambda>p. (fst p, JObj [(js ''type'', JStr (js ''string'')), (js ''default'', JStr (snd p))])) sample)
       (map (\<lambda>q. (fst q, JStr (snd q))) acc) = map (\<lambda>q. (fst q, JStr (snd q))) (acc @ sample)"
proof (induction sample arbitrary: acc)
  case (Cons p sample)
  have "fst p \<notin> fst ` set (map (\<lambda>q. (fst q, JStr (snd q))) acc)" using Cons.prems by (auto simp: image_iff)
  then have "assoc_put (fst p) (JStr (snd p)) (map (\<lambda>q. (fst q, JStr (snd q))) acc) = map (\<lambda>q. (fst q, JStr (snd q))) (acc @ [p])"
    by (simp add: assoc_put_new)
  then show ?case using Cons.IH [of "acc @ [p]"] Cons.prems by (simp add: default_step_def)
qed simp

lemma keyValuePreset_opens:
  assumes "distinct (map fst sample)"
  shows "\<exists>fs. componentFields (cp_schema (keyValuePreset key name d sample)) = Inr (Some fs) \<and> map cf_key fs = map fst sample"
    "componentDefaultProps (cp_schema (keyValuePreset key name d sample)) BuiltinKeyValue = map (\<lambda>q. (fst q, JStr (snd q))) sample"
proof -
  show "\<exists>fs. componentFields (cp_schema (keyValuePreset key name d sample)) = Inr (Some fs) \<and> map cf_key fs = map fst sample"
    by (simp add: componentFields_def keyValuePreset_def root_keys_def is_boolean_def z_array_def preset_loop)
  show "componentDefaultProps (cp_schema (keyValuePreset key name d sample)) BuiltinKeyValue = map (\<lambda>q. (fst q, JStr (snd q))) sample"
    using preset_defaults [of "[]" sample] assms by (simp add: componentDefaultProps_def keyValuePreset_def Let_def z_array_def)
qed

section \<open>Types that are not strings\<close>

text \<open>
  A type that is a list with one name is read as that name by \<open>String\<close>, but not by the \<open>switch\<close>: the
  form edits the field, and a required one gets no value.
\<close>

lemma one_name_type_unfilled:
  "case componentFields [(js ''type'', JStr (js ''object'')),
      (js ''properties'', JObj [(js ''a'', JObj [(js ''type'', JArr [JStr (js ''string'')])])]),
      (js ''required'', JArr [JStr (js ''a'')])] of
     Inr (Some [f]) \<Rightarrow> cf_required f | _ \<Rightarrow> False"
  "componentDefaultProps [(js ''type'', JStr (js ''object'')),
      (js ''properties'', JObj [(js ''a'', JObj [(js ''type'', JArr [JStr (js ''string'')])])]),
      (js ''required'', JArr [JStr (js ''a'')])] BuiltinKeyValue = []"
  by code_simp+

lemma fields_throw:
  "componentFields [(js ''type'', JStr (js ''object'')),
      (js ''properties'', JObj [(js ''a'', JObj [(js ''type'', JObj [(js ''toString'', JNull)])])])] = Inl TypeError"
  by code_simp

end
