(* ===== verification/Requests.thy ===== *)
theory Requests
  imports HttpUrl ClientUuid
begin

text \<open>
  What the client adds to a request and how long it waits after a refusal: \<open>lib/wiki-context.ts\<close>,
  \<open>lib/server-api.ts\<close>, and of \<open>lib/api.ts\<close> and \<open>lib/auth.ts\<close> the request headers, the rate limits
  and the retry of the session.

  Cookies, headers, clocks and dates come from the browser: \<open>document.cookie\<close> is an argument, and so
  are the current time and \<open>Date.parse\<close>. Times are whole milliseconds, with nothing for infinity.
  Header names are kept in lower case, as \<open>Headers\<close> does.
\<close>

section \<open>decodeURIComponent\<close>

definition hex_digit :: "cu \<Rightarrow> nat option" where
  "hex_digit c = (let n = unat c in
     if 48 \<le> n \<and> n \<le> 57 then Some (n - 48)
     else if 65 \<le> n \<and> n \<le> 70 then Some (n - 55)
     else if 97 \<le> n \<and> n \<le> 102 then Some (n - 87)
     else None)"

definition percent_byte :: "jstr \<Rightarrow> (nat \<times> jstr) option" where
  "percent_byte s = (case s of p # a # b # r \<Rightarrow>
       if p = 37 then (case (hex_digit a, hex_digit b) of (Some x, Some y) \<Rightarrow> Some (16 * x + y, r) | _ \<Rightarrow> None)
       else None
     | _ \<Rightarrow> None)"

definition continuation :: "jstr \<Rightarrow> (nat \<times> jstr) option" where
  "continuation s = (case percent_byte s of None \<Rightarrow> None
     | Some (b, r) \<Rightarrow> if 128 \<le> b \<and> b < 192 then Some (b - 128, r) else None)"

definition utf16_of :: "nat \<Rightarrow> jstr" where
  "utf16_of cp =
     (if cp < 65536 then [of_nat cp]
      else [of_nat (0xD800 + (cp - 65536) div 1024), of_nat (0xDC00 + (cp - 65536) mod 1024)])"

text \<open>One escape sequence: what it decodes to, and the rest. Overlong forms and surrogates are refused.\<close>

definition decode_escape :: "jstr \<Rightarrow> (jstr \<times> jstr) option" where
  "decode_escape s = do {
     (b, r) \<leftarrow> percent_byte s;
     if b < 128 then Some ([of_nat b], r)
     else if 192 \<le> b \<and> b < 224 then do {
       (x, r) \<leftarrow> continuation r;
       let cp = (b - 192) * 64 + x;
       if cp < 128 then None else Some (utf16_of cp, r) }
     else if 224 \<le> b \<and> b < 240 then do {
       (x, r) \<leftarrow> continuation r;
       (y, r) \<leftarrow> continuation r;
       let cp = ((b - 224) * 64 + x) * 64 + y;
       if cp < 2048 \<or> (0xD800 \<le> cp \<and> cp \<le> 0xDFFF) then None else Some (utf16_of cp, r) }
     else if 240 \<le> b \<and> b < 248 then do {
       (x, r) \<leftarrow> continuation r;
       (y, r) \<leftarrow> continuation r;
       (z, r) \<leftarrow> continuation r;
       let cp = (((b - 240) * 64 + x) * 64 + y) * 64 + z;
       if cp < 65536 \<or> 1114111 < cp then None else Some (utf16_of cp, r) }
     else None }"

lemma percent_byte_length: "percent_byte s = Some (b, r) \<Longrightarrow> length r < length s"
  by (auto simp: percent_byte_def split: list.splits if_splits option.splits)

lemma continuation_length: "continuation s = Some (b, r) \<Longrightarrow> length r < length s"
  by (auto simp: continuation_def dest: percent_byte_length split: option.splits if_splits)

lemma decode_escape_length: "decode_escape s = Some (t, r) \<Longrightarrow> length r < length s"
  by (auto simp: decode_escape_def Let_def dest!: percent_byte_length continuation_length split: if_splits)

function decodeURIComponent :: "jstr \<Rightarrow> jstr option" where
  "decodeURIComponent [] = Some []"
| "decodeURIComponent (c # s) =
     (if c \<noteq> 37 then map_option (Cons c) (decodeURIComponent s)
      else case decode_escape (c # s) of None \<Rightarrow> None
        | Some (t, r) \<Rightarrow> map_option ((@) t) (decodeURIComponent r))"
  by pat_completeness auto
termination by (relation "measure length") (auto dest!: decode_escape_length)

lemma hex_digit_upper: "d < 16 \<Longrightarrow> hex_digit (upper_hex d) = Some d"
proof -
  assume d: "d < 16"
  then have "unat (upper_hex d) = (if d < 10 then 48 + d else 55 + d)"
    by (simp add: upper_hex_def unat_of_nat del: of_nat_add)
  with d show ?thesis by (auto simp: hex_digit_def Let_def)
qed

lemma percent_byte_percent: "b < 256 \<Longrightarrow> percent_byte (percent b @ r) = Some (b, r)"
  using hex_digit_upper [of "b div 16"] hex_digit_upper [of "b mod 16"]
  by (simp add: percent_byte_def percent_def)

lemma continuation_percent: "x < 64 \<Longrightarrow> continuation (percent (128 + x) @ r) = Some (x, r)"
  by (simp add: continuation_def percent_byte_percent)

lemma decode_escape_utf8:
  assumes "cp < 1114112" "\<not> (0xD800 \<le> cp \<and> cp \<le> 0xDFFF)"
  shows "decode_escape (concat (map percent (utf8_bytes cp)) @ r) = Some (utf16_of cp, r)"
proof -
  have m: "x mod 64 < 64" for x :: nat by simp
  consider "cp < 128" | "128 \<le> cp" "cp < 2048" | "2048 \<le> cp" "cp < 65536" | "65536 \<le> cp" by linarith
  then show ?thesis
  proof cases
    case 1
    then show ?thesis by (simp add: utf8_bytes_def decode_escape_def percent_byte_percent utf16_of_def)
  next
    case 2
    have "cp div 64 < 32" using 2 by (simp add: less_mult_imp_div_less)
    moreover have "cp div 64 * 64 + cp mod 64 = cp" by simp
    ultimately show ?thesis
      using 2 by (simp add: utf8_bytes_def decode_escape_def percent_byte_percent continuation_percent Let_def)
  next
    case 3
    have "cp div 4096 < 16" using 3 by (simp add: less_mult_imp_div_less)
    moreover have "(cp div 4096 * 64 + cp div 64 mod 64) * 64 + cp mod 64 = cp"
    proof -
      have d: "cp div 4096 = cp div 64 div 64" by (simp add: div_mult2_eq [symmetric])
      have s: "n div 64 * 64 + n mod 64 = n" for n :: nat by simp
      show ?thesis unfolding d s ..
    qed
    ultimately show ?thesis
      using 3 assms(2)
      by (simp add: utf8_bytes_def decode_escape_def percent_byte_percent continuation_percent Let_def)
  next
    case 4
    have "cp div 262144 < 8" using assms(1) by (simp add: less_mult_imp_div_less)
    moreover have "((cp div 262144 * 64 + cp div 4096 mod 64) * 64 + cp div 64 mod 64) * 64 + cp mod 64 = cp"
    proof -
      have d: "cp div 4096 = cp div 64 div 64" "cp div 262144 = cp div 64 div 64 div 64"
        by (simp_all add: div_mult2_eq [symmetric])
      have s: "n div 64 * 64 + n mod 64 = n" for n :: nat by simp
      show ?thesis unfolding d s ..
    qed
    ultimately show ?thesis
      using 4 assms(1)
      by (simp add: utf8_bytes_def decode_escape_def percent_byte_percent continuation_percent Let_def)
  qed
qed

lemma utf16_of_pair:
  assumes "0xD800 \<le> c" "c < 0xDC00" "0xDC00 \<le> d" "d \<le> 0xDFFF"
  shows "utf16_of (65536 + (unat c - 0xD800) * 1024 + (unat d - 0xDC00)) = [c, d]"
proof -
  define m where "m = unat c - 0xD800"
  define n where "n = unat d - 0xDC00"
  have c: "0xD800 \<le> unat c" "0xDC00 \<le> unat d" using assms by (auto simp: word_le_nat_alt)
  have n: "n < 1024" using assms by (simp add: n_def word_le_nat_alt)
  have q: "65536 + m * 1024 + n - 65536 = n + m * 1024" by simp
  have "utf16_of (65536 + m * 1024 + n) = [of_nat (0xD800 + m), of_nat (0xDC00 + n)]"
    unfolding utf16_of_def q using n by (simp del: of_nat_add)
  moreover have "0xD800 + m = unat c" "0xDC00 + n = unat d" using c by (simp_all add: m_def n_def)
  ultimately show ?thesis by (simp add: m_def [symmetric] n_def [symmetric] del: of_nat_add)
qed

text \<open>Decoding undoes encoding.\<close>

lemma decode_percent:
  assumes "cp < 1114112" "\<not> (0xD800 \<le> cp \<and> cp \<le> 0xDFFF)"
  shows "decodeURIComponent (concat (map percent (utf8_bytes cp)) @ r) =
     map_option ((@) (utf16_of cp)) (decodeURIComponent r)"
proof -
  have "utf8_bytes cp \<noteq> []" by (simp add: utf8_bytes_def)
  then obtain b bs where "utf8_bytes cp = b # bs" by (cases "utf8_bytes cp") auto
  then obtain s where s: "concat (map percent (utf8_bytes cp)) @ r = 37 # s" by (simp add: percent_def)
  then show ?thesis using decode_escape_utf8 [OF assms, of r] by simp
qed

lemma decode_encode: "encodeURIComponent s = Some e \<Longrightarrow> decodeURIComponent e = Some s"
proof (induction s arbitrary: e rule: encodeURIComponent.induct)
  case (2 c s)
  consider (keep) "uri_unreserved c" | (one) "\<not> uri_unreserved c" "c < 0xD800 \<or> 0xDFFF < c"
    | (pair) "\<not> uri_unreserved c" "\<not> (c < 0xD800 \<or> 0xDFFF < c)" by blast
  then show ?case
  proof cases
    case keep
    then have "c \<noteq> 37" by (auto simp: uri_unreserved_def)
    with keep 2 show ?thesis by auto
  next
    case one
    then obtain r where r: "encodeURIComponent s = Some r" "e = concat (map percent (utf8_bytes (unat c))) @ r"
      using "2.prems" by auto
    have "unat c < 65536" using unsigned_less [of c, where ?'a = nat] by simp
    moreover have "\<not> (0xD800 \<le> unat c \<and> unat c \<le> 0xDFFF)"
      using one(2) by (auto simp: word_less_nat_alt)
    moreover have "decodeURIComponent r = Some s" using "2.IH"(2) one r(1) by blast
    ultimately show ?thesis
      unfolding r(2) by (subst decode_percent) (simp_all add: utf16_of_def)
  next
    case pair
    then obtain d u r where r: "s = d # u" "c < 0xDC00" "0xDC00 \<le> d" "d \<le> 0xDFFF" "encodeURIComponent u = Some r"
      "e = concat (map percent (utf8_bytes (65536 + (unat c - 0xD800) * 1024 + (unat d - 0xDC00)))) @ r"
      using "2.prems" by (auto split: list.splits if_splits)
    have "unat c < 0xDC00" "unat d \<le> 0xDFFF" using r by (simp_all add: word_less_nat_alt word_le_nat_alt)
    then have cp: "65536 + (unat c - 0xD800) * 1024 + (unat d - 0xDC00) < 1114112" by linarith
    have "decodeURIComponent r = Some u" using "2.IH"(3) pair r(1-5) by blast
    moreover have "0xD800 \<le> c" using pair(2) by (auto simp: not_less)
    ultimately show ?thesis
      unfolding r(6) using utf16_of_pair [OF _ r(2-4)] cp r(1) by (subst decode_percent) simp_all
  qed
qed simp

section \<open>The selected Wiki\<close>

definition WIKI_CONTEXT_COOKIE_NAME :: jstr where "WIKI_CONTEXT_COOKIE_NAME = js ''anby_wiki_id''"
definition WIKI_CONTEXT_HEADER :: jstr where "WIKI_CONTEXT_HEADER = js ''X-Wiki-ID''"
definition cookieMaxAgeSeconds :: nat where "cookieMaxAgeSeconds = 60 * 60 * 24 * 365"

datatype uri_error = URIError

text \<open>\<open>document.cookie\<close>, or nothing outside a browser.\<close>

definition selectedWikiIDFromDocument :: "jstr option \<Rightarrow> uri_error + jstr option" where
  "selectedWikiIDFromDocument document_cookie = (case document_cookie of
     None \<Rightarrow> Inr None
   | Some cookie \<Rightarrow>
       let pre = WIKI_CONTEXT_COOKIE_NAME @ js ''='' in
       case List.find (\<lambda>item. starts_with item pre) (map js_trim (split_cu 59 cookie)) of
         None \<Rightarrow> Inr None
       | Some found \<Rightarrow> (case decodeURIComponent (drop (length pre) found) of
             None \<Rightarrow> Inl URIError
           | Some v \<Rightarrow> Inr (if js_trim v \<noteq> [] then Some (js_trim v) else None)))"

text \<open>The text assigned to \<open>document.cookie\<close>, or nothing where \<open>encodeURIComponent\<close> throws.\<close>

definition persistSelectedWikiID :: "jstr \<Rightarrow> jstr option" where
  "persistSelectedWikiID wikiID = map_option (\<lambda>e. WIKI_CONTEXT_COOKIE_NAME @ js ''='' @ e @
     js ''; Path=/; Max-Age='' @ nat_str cookieMaxAgeSeconds @ js ''; SameSite=Lax'') (encodeURIComponent wikiID)"

definition clearSelectedWikiID :: jstr where
  "clearSelectedWikiID = WIKI_CONTEXT_COOKIE_NAME @ js ''=; Path=/; Max-Age=0; SameSite=Lax''"

text \<open>The cookie an assigned text stores: what comes before its first semicolon.\<close>

definition cookie_pair :: "jstr \<Rightarrow> jstr" where
  "cookie_pair assigned = takeWhile (\<lambda>c. c \<noteq> 59) assigned"

section \<open>Request headers\<close>

type_synonym headers = "(jstr \<times> jstr) list"

definition headers_set :: "jstr \<Rightarrow> jstr \<Rightarrow> headers \<Rightarrow> headers" where
  "headers_set k v hs = assoc_put (map lower_cu k) v hs"

definition request_headers :: "jstr \<Rightarrow> jstr option \<Rightarrow> headers \<Rightarrow> uri_error + headers" where
  "request_headers request_id document_cookie init =
     (let hs = headers_set (js ''X-Request-ID'') request_id init in
      bindE (selectedWikiIDFromDocument document_cookie) (\<lambda>wikiID.
        Inr (case wikiID of Some w \<Rightarrow> headers_set WIKI_CONTEXT_HEADER w hs | None \<Rightarrow> hs)))"

text \<open>On the server: the cookies as a header, the value of the context cookie, the address header.\<close>

definition serverApiOptions :: "jstr \<Rightarrow> jstr option \<Rightarrow> jstr option \<Rightarrow> (jstr \<times> jstr) list option" where
  "serverApiOptions cookieHeader cookieValue forwardedFor =
     (let wikiID = map_option js_trim cookieValue;
          hs = (case forwardedFor of Some f \<Rightarrow> if f \<noteq> [] then [(js ''X-Forwarded-For'', f)] else [] | None \<Rightarrow> []) @
               (if cookieHeader \<noteq> [] then [(js ''Cookie'', cookieHeader)] else []) @
               (case wikiID of Some w \<Rightarrow> if w \<noteq> [] then [(WIKI_CONTEXT_HEADER, w)] else [] | None \<Rightarrow> [])
      in if hs = [] then None else Some hs)"

definition getBaseUrl :: "jstr option \<Rightarrow> jstr option \<Rightarrow> jstr option \<Rightarrow> jstr" where
  "getBaseUrl window_origin api_base_url public_url = (case window_origin of
     None \<Rightarrow> (case api_base_url of Some u \<Rightarrow> u
        | None \<Rightarrow> (case public_url of Some u \<Rightarrow> u | None \<Rightarrow> js ''http://localhost:8080''))
   | Some origin \<Rightarrow> (case public_url of Some u \<Rightarrow> u | None \<Rightarrow> origin))"

section \<open>Rate limits\<close>

record response =
  r_status :: nat
  retry_after :: "jstr option"
  r_deadline :: "int option option"

record time_env =
  digits_number :: "jstr \<Rightarrow> int option"
  date_parse :: "jstr \<Rightarrow> int option"

text \<open>\<open>Math.ceil(a / b)\<close> on whole numbers.\<close>

definition ceil_div :: "int \<Rightarrow> int \<Rightarrow> int" where
  "ceil_div a b = - ((- a) div b)"

definition retryAfterSeconds :: "time_env \<Rightarrow> int \<Rightarrow> response \<Rightarrow> int option" where
  "retryAfterSeconds env now r = (case r_deadline r of
     Some recorded \<Rightarrow> map_option (\<lambda>d. max 1 (ceil_div (d - now) 1000)) recorded
   | None \<Rightarrow>
       let v = (case retry_after r of None \<Rightarrow> [] | Some s \<Rightarrow> js_trim s) in
       if v \<noteq> [] \<and> list_all is_digit v then map_option (max 1) (digits_number env v)
       else (case (if v \<noteq> [] then date_parse env v else None) of
           Some deadline \<Rightarrow> Some (max 1 (ceil_div (deadline - now) 1000))
         | None \<Rightarrow> Some 60))"

text \<open>The \<open>post\<close> step: the response with its deadline, and the seconds the user is told.\<close>

definition post_response :: "time_env \<Rightarrow> bool \<Rightarrow> int \<Rightarrow> response \<Rightarrow> response \<times> int option option" where
  "post_response env in_window now r =
     (if r_status r = 429 then
        let r' = r\<lparr>r_deadline := Some (map_option (\<lambda>s. now + s * 1000) (retryAfterSeconds env now r))\<rparr>
        in (r', if in_window then Some (retryAfterSeconds env now r') else None)
      else (r, None))"

text \<open>The delay of a timer: a number of milliseconds converted to a signed 32-bit integer, not negative.\<close>

definition timer_delay :: "int option \<Rightarrow> nat" where
  "timer_delay ms = (case ms of None \<Rightarrow> 0 | Some m \<Rightarrow> nat (max 0 (sint (word_of_int m :: 32 word))))"

datatype api_error = ResponseError response | OtherError
datatype session_retry = NoRetry | RetryIn nat | DefaultRetry

definition isUnauthorized :: "api_error \<Rightarrow> bool" where
  "isUnauthorized e \<longleftrightarrow> (case e of ResponseError r \<Rightarrow> r_status r = 401 | OtherError \<Rightarrow> False)"

definition sessionErrorRetry :: "time_env \<Rightarrow> int \<Rightarrow> api_error \<Rightarrow> session_retry" where
  "sessionErrorRetry env now e =
     (if isUnauthorized e then NoRetry
      else case e of
        ResponseError r \<Rightarrow> if r_status r = 429 then RetryIn (timer_delay (map_option (\<lambda>s. s * 1000) (retryAfterSeconds env now r)))
          else DefaultRetry
      | OtherError \<Rightarrow> DefaultRetry)"

text \<open>The session a component sees: the last verified one, unless the last request was refused.\<close>

definition useSession :: "'s option \<Rightarrow> api_error option \<Rightarrow> 's option \<times> bool \<times> api_error option" where
  "useSession data error =
     (let refused = (case error of Some e \<Rightarrow> isUnauthorized e | None \<Rightarrow> False);
          session = (if refused then None else data)
      in (session, session \<noteq> None, if refused then None else error))"

section \<open>Cookies\<close>

lemma not_component: "is_js_space c \<or> c = 59 \<Longrightarrow> \<not> component_cu c"
  by (auto simp: is_js_space_def component_cu_def uri_unreserved_def)

lemma dropWhile_none: "\<forall>c \<in> set s. \<not> P c \<Longrightarrow> dropWhile P s = s"
  by (cases s) auto

lemma js_trim_none: "\<forall>c \<in> set s. \<not> is_js_space c \<Longrightarrow> js_trim s = s"
  by (simp add: js_trim_def dropWhile_none)

definition cookie_items :: "jstr \<Rightarrow> jstr list" where
  "cookie_items cookie = map js_trim (split_cu 59 cookie)"

lemma cookie_items_space: "cookie_items (32 # s) = cookie_items s"
proof (cases "split_cu 59 s")
  case (Cons p ps)
  have "js_trim (32 # p) = js_trim p" by (simp add: js_trim_def is_js_space_def)
  then show ?thesis by (simp add: cookie_items_def Cons)
qed simp

lemma cookie_items_join:
  "59 \<notin> set x \<Longrightarrow> cookie_items (join (js ''; '') (x # y # ys)) = js_trim x # cookie_items (join (js ''; '') (y # ys))"
proof -
  have s: "js ''; '' = [59, 32]" by code_simp
  assume "59 \<notin> set x"
  then show ?thesis
    using split_cu_at [of 59 x "32 # join (js ''; '') (y # ys)"] cookie_items_space [of "join (js ''; '') (y # ys)"]
    by (simp add: s cookie_items_def)
qed

lemma cookie_items_hd: "59 \<notin> set x \<Longrightarrow> \<exists>ps. cookie_items (join (js ''; '') (x # ys)) = js_trim x # ps"
proof (cases ys)
  case (Cons y zs)
  assume "59 \<notin> set x"
  with Cons show ?thesis using cookie_items_join [of x y zs] by simp
qed (simp add: cookie_items_def split_cu_no)

lemma find_cookie:
  assumes "list_all (\<lambda>x. 59 \<notin> set x \<and> \<not> Q (js_trim x)) xs" "59 \<notin> set x" "Q (js_trim x)"
  shows "List.find Q (cookie_items (join (js ''; '') (xs @ x # ys))) = Some (js_trim x)"
  using assms(1)
proof (induction xs)
  case Nil
  then show ?case using cookie_items_hd [OF assms(2), of ys] assms(3) by auto
next
  case (Cons z xs)
  obtain y zs where "xs @ x # ys = y # zs" by (cases xs) auto
  then have "cookie_items (join (js ''; '') ((z # xs) @ x # ys)) = js_trim z # cookie_items (join (js ''; '') (xs @ x # ys))"
    using cookie_items_join [of z y zs] Cons.prems by simp
  then show ?case using Cons by simp
qed

lemma context_name: "\<forall>c \<in> set (WIKI_CONTEXT_COOKIE_NAME @ js ''=''). \<not> is_js_space c \<and> c \<noteq> 59"
proof -
  have "list_all (\<lambda>c. \<not> is_js_space c \<and> c \<noteq> 59) (WIKI_CONTEXT_COOKIE_NAME @ js ''='')" by code_simp
  then show ?thesis by (simp add: list_all_iff)
qed

lemma encoded_plain: "encodeURIComponent w = Some e \<Longrightarrow> \<forall>c \<in> set ((WIKI_CONTEXT_COOKIE_NAME @ js ''='') @ e). \<not> is_js_space c \<and> c \<noteq> 59"
  using context_name not_component by (fastforce dest: encoded_component)

lemma cookie_pair_persist:
  assumes "encodeURIComponent w = Some e" "persistSelectedWikiID w = Some assigned"
  shows "cookie_pair assigned = (WIKI_CONTEXT_COOKIE_NAME @ js ''='') @ e"
proof -
  have "js ''; Path=/; Max-Age='' = 59 # js '' Path=/; Max-Age=''" by code_simp
  then have "assigned = ((WIKI_CONTEXT_COOKIE_NAME @ js ''='') @ e) @
      59 # js '' Path=/; Max-Age='' @ nat_str cookieMaxAgeSeconds @ js ''; SameSite=Lax''"
    using assms by (auto simp: persistSelectedWikiID_def)
  then show ?thesis
    using encoded_plain [OF assms(1)]
    by (simp only: cookie_pair_def takeWhile_tail takeWhile_append2) (auto simp: takeWhile_eq_all_conv)
qed

text \<open>C34: a selected Wiki is read back from the cookies, trimmed, whatever other cookies there are, as long as
  no earlier cookie has the same name.\<close>

theorem wiki_context_roundtrip:
  assumes "persistSelectedWikiID w = Some assigned"
    "list_all (\<lambda>x. 59 \<notin> set x \<and> \<not> starts_with (js_trim x) (WIKI_CONTEXT_COOKIE_NAME @ js ''='')) xs"
  shows "selectedWikiIDFromDocument (Some (join (js ''; '') (xs @ cookie_pair assigned # ys))) =
     Inr (if js_trim w \<noteq> [] then Some (js_trim w) else None)"
proof -
  let ?pre = "WIKI_CONTEXT_COOKIE_NAME @ js ''=''"
  obtain e where e: "encodeURIComponent w = Some e" using assms(1) by (auto simp: persistSelectedWikiID_def)
  note ok = encoded_plain [OF e] and pair = cookie_pair_persist [OF e assms(1)]
  have trim: "js_trim (?pre @ e) = ?pre @ e" using ok by (intro js_trim_none) auto
  have "List.find (\<lambda>item. starts_with item ?pre) (cookie_items (join (js ''; '') (xs @ (?pre @ e) # ys))) = Some (?pre @ e)"
    using find_cookie [where Q = "\<lambda>item. starts_with item ?pre" and x = "?pre @ e", OF assms(2)] ok
    unfolding trim using starts_with_append [of ?pre e] by auto
  then show ?thesis
    unfolding selectedWikiIDFromDocument_def pair cookie_items_def [symmetric] using decode_encode [OF e]
    by (simp add: Let_def)
qed

lemma wiki_context_roundtrip_witness:
  "selectedWikiIDFromDocument (Some (js ''theme=dark; anby_wiki_id=w%3B1'')) = Inr (Some (js ''w;1''))"
proof -
  have e: "encodeURIComponent (js ''w;1'') = Some (js ''w%3B1'')" by code_simp
  then obtain a where a: "persistSelectedWikiID (js ''w;1'') = Some a" by (simp add: persistSelectedWikiID_def)
  have "list_all (\<lambda>x. 59 \<notin> set x \<and> \<not> starts_with (js_trim x) (WIKI_CONTEXT_COOKIE_NAME @ js ''='')) [js ''theme=dark'']"
    by code_simp
  note r = wiki_context_roundtrip [OF a this, of "[]"]
  have "join (js ''; '') ([js ''theme=dark''] @ cookie_pair a # []) = js ''theme=dark; anby_wiki_id=w%3B1''"
    unfolding cookie_pair_persist [OF e a] by code_simp
  moreover have "js_trim (js ''w;1'') = js ''w;1''" by code_simp
  ultimately show ?thesis using r by simp
qed

text \<open>A cookie value that is not an encoded text makes the header step of every request throw.\<close>

lemma malformed_cookie_throws: "request_headers r (Some (js ''anby_wiki_id=50%'')) hs = Inl URIError"
proof -
  have "selectedWikiIDFromDocument (Some (js ''anby_wiki_id=50%'')) = Inl URIError" by code_simp
  then show ?thesis by (simp add: request_headers_def Let_def)
qed

section \<open>Waiting\<close>

definition number_exact :: "time_env \<Rightarrow> bool" where
  "number_exact env \<longleftrightarrow> (\<forall>n. int n \<le> max_safe_integer \<longrightarrow> digits_number env (nat_str n) = Some (int n))"

lemma digits_not_space: "\<forall>c \<in> set (nat_str n). \<not> is_js_space c"
  using is_digit_nat_str by (fastforce simp: is_digit_def is_js_space_def)

lemma retry_header:
  assumes "number_exact env" "retry_after r = Some (nat_str n)" "r_deadline r = None" "int n \<le> max_safe_integer"
  shows "retryAfterSeconds env now r = Some (max 1 (int n))"
proof -
  have "js_trim (nat_str n) = nat_str n" by (rule js_trim_none [OF digits_not_space])
  moreover have "list_all is_digit (nat_str n)" using is_digit_nat_str by (auto simp: list_all_iff)
  ultimately show ?thesis
    using assms by (simp add: retryAfterSeconds_def Let_def number_exact_def)
qed

text \<open>After a refusal with a number of seconds to wait, the wait counts down from that number with the
  clock, second by second, and never falls below one second.\<close>

theorem rate_limit_countdown:
  assumes "number_exact env" "r_status r = 429" "retry_after r = Some (nat_str n)" "r_deadline r = None"
    "int n \<le> max_safe_integer" "0 \<le> elapsed"
  shows "retryAfterSeconds env (now + elapsed) (fst (post_response env w now r)) = Some (max 1 (max 1 (int n) - elapsed div 1000))"
proof -
  have "ceil_div (now + m * 1000 - (now + elapsed)) 1000 = m - elapsed div 1000" for m
  proof -
    have "- (now + m * 1000 - (now + elapsed)) = elapsed + (- m) * 1000" by simp
    then show ?thesis using div_mult_self1 [of 1000 elapsed "- m"] by (simp add: ceil_div_def)
  qed
  then show ?thesis
    using assms(2) retry_header [OF assms(1,3,4,5)]
    by (simp add: post_response_def retryAfterSeconds_def [of env "now + elapsed"] Let_def)
qed

definition plain_times :: time_env where
  "plain_times = \<lparr>digits_number = (\<lambda>s. Some (int (str_val s))), date_parse = (\<lambda>_. None)\<rparr>"

lemma plain_exact: "number_exact plain_times"
  by (simp add: number_exact_def plain_times_def)

definition limited :: response where
  "limited = \<lparr>r_status = 429, retry_after = Some (nat_str 5), r_deadline = None\<rparr>"

lemma rate_limit_countdown_witness:
  "retryAfterSeconds plain_times (1000 + 2500) (fst (post_response plain_times True 1000 limited)) = Some 3"
  using rate_limit_countdown [OF plain_exact, of limited 5 2500 1000 True] by (simp add: limited_def max_safe_integer_def)

text \<open>The session is asked for again after exactly the wait the server asked for, when that is at most
  2147483 seconds; after a refusal of the session it is not asked for again.\<close>

theorem session_retry_delay:
  assumes "number_exact env" "retry_after r = Some (nat_str n)" "r_deadline r = None" "1 \<le> n" "n \<le> 2147483"
  shows "sessionErrorRetry env now (ResponseError (r\<lparr>r_status := 429\<rparr>)) = RetryIn (n * 1000) \<and>
     sessionErrorRetry env now (ResponseError (r\<lparr>r_status := 401\<rparr>)) = NoRetry"
proof -
  have "retryAfterSeconds env now (r\<lparr>r_status := 429\<rparr>) = Some (int n)"
    using retry_header [of env "r\<lparr>r_status := 429\<rparr>" n now] assms by (simp add: max_safe_integer_def)
  moreover have "sint (word_of_int (int n * 1000) :: 32 word) = int n * 1000"
    by (subst signed_of_int, subst signed_take_bit_int_eq_self) (use assms(5) in simp_all)
  ultimately show ?thesis
    by (simp add: sessionErrorRetry_def isUnauthorized_def timer_delay_def)
qed

lemma session_retry_delay_witness: "sessionErrorRetry plain_times 0 (ResponseError limited) = RetryIn 5000"
  using session_retry_delay [OF plain_exact, of limited 5 0] by (simp add: limited_def)

text \<open>One second more, and the delay in milliseconds no longer fits a timer: the retry is immediate.\<close>

lemma session_retry_immediate:
  assumes "number_exact env" "retry_after r = Some (nat_str 2147484)" "r_deadline r = None" "r_status r = 429"
  shows "sessionErrorRetry env now (ResponseError r) = RetryIn 0"
proof -
  have "retryAfterSeconds env now r = Some 2147484"
    using retry_header [OF assms(1-3), of now] by (simp add: max_safe_integer_def)
  moreover have "timer_delay (Some 2147484000) = 0" by code_simp
  ultimately show ?thesis
    using assms(4) by (simp add: sessionErrorRetry_def isUnauthorized_def)
qed

end
