(* ===== verification/WorkspaceAccess.thy ===== *)
theory WorkspaceAccess
  imports Prelude
begin

text \<open>
  \<open>lib/workspace-access.ts\<close>: who may open which workspace. \<open>WORKSPACES\<close> is the table of the code;
  a row's optional fields are a flag and an option. A session is the part of \<open>AuthSession\<close> that
  the rule reads. Chinese texts are given by their code units.
\<close>

record workspace =
  ws_path :: jstr
  ws_title :: jstr
  ws_homeOnly :: bool
  ws_roles :: "jstr list option"
  ws_permission :: jstr
  ws_accountScope :: bool

record wiki_membership =
  m_wikiId :: jstr
  m_roles :: "jstr list"

record auth_session =
  s_actorType :: jstr
  s_homeWikiId :: jstr
  s_wikiId :: jstr
  s_wikis :: "wiki_membership list"

record notice =
  n_title :: jstr
  n_heading :: jstr
  n_message :: jstr

definition WIKI_ROLES :: "jstr list" where
  "WIKI_ROLES = [js ''editor'', js ''reviewer'', js ''applier'', js ''admin'']"

definition home_row :: "string \<Rightarrow> jstr \<Rightarrow> workspace" where
  "home_row path title = \<lparr>ws_path = js path, ws_title = title, ws_homeOnly = True, ws_roles = None,
     ws_permission = [], ws_accountScope = False\<rparr>"

definition role_row :: "string \<Rightarrow> jstr \<Rightarrow> jstr list \<Rightarrow> jstr \<Rightarrow> workspace" where
  "role_row path title roles permission = \<lparr>ws_path = js path, ws_title = title, ws_homeOnly = False,
     ws_roles = Some roles, ws_permission = permission, ws_accountScope = False\<rparr>"

definition WORKSPACES :: "workspace list" where
  "WORKSPACES =
    [home_row ''/imports'' [23548, 20837, 20013, 24515],
     home_row ''/governance/proposals/new'' [26032, 24314, 20154, 24037, 25552, 26696],
     home_row ''/components'' [32452, 20214, 20013, 24515],
     home_row ''/assets'' [23186, 20307, 19982, 38468, 20214],
     home_row ''/sources'' [26469, 28304, 19982, 35777, 25454],
     home_row ''/entities'' [23454, 20307, 19982, 30693, 35782],
     home_row ''/federation'' ([36328] @ js '' Wiki '' @ [36523, 20221]),
     home_row ''/governance/fact-check'' [20107, 23454, 19968, 33268, 24615, 26816, 26597],
     home_row ''/account'' [20010, 20154, 20013, 24515],
     home_row ''/settings/cli'' (js ''Agent CLI '' @ [25480, 26435]),
     role_row ''/new'' [21019, 24314, 39029, 38754] [js ''editor'', js ''admin''] [32534, 36753, 32773, 25110, 31649,
      29702, 21592],
     role_row ''/collections'' [19987, 39064, 21512, 38598] WIKI_ROLES (js ''Wiki '' @ [25104, 21592]),
     role_row ''/governance/review'' [20154, 24037, 23457, 26680, 38431, 21015] [js ''reviewer'',
      js ''admin''] [23457, 26680, 32773, 25110, 31649, 29702, 21592],
     role_row ''/governance/bulk'' [25209, 37327, 23457, 26680] [js ''reviewer'', js ''admin''] [23457, 26680, 32773,
      25110, 31649, 29702, 21592],
     role_row ''/governance/activity'' [23457, 35745, 19982, 21464, 26356, 26631, 31614] [js ''reviewer'',
      js ''admin''] [23457, 26680, 32773, 25110, 31649, 29702, 21592],
     role_row ''/governance/apply'' [24453, 24212, 29992] [js ''applier'', js ''admin''] [24212, 29992, 32773, 25110,
      31649, 29702, 21592],
     role_row ''/governance/protections'' [39029, 38754, 20445, 25252, 31574, 30053] [js ''admin''] [31649, 29702,
      21592],
     role_row ''/governance/ai-trust'' (js ''AI '' @ [20449, 20219, 31574, 30053]) [js ''admin''] [31649, 29702, 21592],
     role_row ''/admin/members'' [25104, 21592, 19982, 35282, 33394] [js ''admin''] [31649, 29702, 21592],
     role_row ''/admin/users'' [25104, 21592, 19982, 35282, 33394] [js ''admin''] [31649, 29702, 21592],
     (role_row ''/governance/revision-storage'' [21382, 21490, 29256, 26412, 23384, 20648] [js ''admin''] [31649,
      29702, 21592])
       \<lparr>ws_homeOnly := True, ws_accountScope := True\<rparr>]"

text \<open>\<open>href.split(/[?#]/, 1)[0]\<close>\<close>

definition href_path :: "jstr \<Rightarrow> jstr" where
  "href_path href = takeWhile (\<lambda>c. c \<noteq> 63 \<and> c \<noteq> 35) href"

definition covers :: "jstr \<Rightarrow> workspace \<Rightarrow> bool" where
  "covers href w \<longleftrightarrow> href_path href = ws_path w \<or> starts_with (href_path href) (ws_path w @ js ''/'')"

definition judged_wiki :: "workspace \<Rightarrow> auth_session \<Rightarrow> jstr" where
  "judged_wiki w s = (if ws_accountScope w then s_homeWikiId s else s_wikiId s)"

definition roles_in :: "auth_session \<Rightarrow> jstr \<Rightarrow> jstr list" where
  "roles_in s wiki = (case List.find (\<lambda>m. m_wikiId m = wiki) (s_wikis s) of Some m \<Rightarrow> m_roles m | None \<Rightarrow> [])"

definition workspaceAccessNotice :: "jstr \<Rightarrow> auth_session option \<Rightarrow> notice option" where
  "workspaceAccessNotice href session = (case List.find (covers href) WORKSPACES of
     None \<Rightarrow> None
   | Some w \<Rightarrow> (case session of
       None \<Rightarrow> Some \<lparr>n_title = ws_title w, n_heading = [38656, 35201, 30331, 24405],
      n_message = [30331, 24405, 21518, 25165, 33021, 35775, 38382, 35813, 24037, 20316, 21488, 12290]\<rparr>
     | Some s \<Rightarrow>
         if s_actorType s = js ''system'' then None
         else if ws_homeOnly w \<and> s_homeWikiId s \<noteq> s_wikiId s then
           Some \<lparr>n_title = ws_title w, n_heading = ([35831, 20999, 25442, 21040, 33258, 24049,
      30340] @ js '' Wiki''),
             n_message = ws_title w @ ([20165, 25903, 25345, 24403, 21069, 36134, 25143, 33258, 24049,
      30340] @ js '' Wiki'' @ [12290, 24403, 21069, 36873, 20013, 30340, 26159, 21327,
      20316] @ js '' Wiki'' @ [65292, 35831, 20999, 25442, 21040, 33258, 24049, 30340] @ js '' Wiki '' @ [21518,
      20351, 29992, 12290])\<rparr>
         else case ws_roles w of
           None \<Rightarrow> None
         | Some required \<Rightarrow>
             if list_ex (\<lambda>role. role \<in> set (roles_in s (judged_wiki w s))) required then None
             else Some \<lparr>n_title = ws_title w, n_heading = [38656, 35201] @ ws_permission w @ [26435, 38480],
               n_message = (if ws_accountScope w
                 then ([38656, 35201, 24403, 21069, 36134, 25143] @ js '' Wiki '' @ [30340, 31649, 29702, 21592,
      26435, 38480, 25165, 33021, 26597, 30475, 23481, 37327, 32479, 35745, 21644, 25191, 34892, 25163, 21160, 24402,
      26723, 12290])
                 else ([24403, 21069, 36134, 25143, 27809, 26377,
      27492] @ js '' Wiki '' @ [30340]) @ ws_permission w @ [26435, 38480, 65292, 26080, 27861, 35775,
      38382] @ ws_title w @ [12290])\<rparr>))"

section \<open>The table\<close>

text \<open>No row covers a path that another covers: their order does not matter.\<close>

definition apart :: "jstr \<Rightarrow> jstr \<Rightarrow> bool" where
  "apart p q \<longleftrightarrow> \<not> starts_with (p @ js ''/'') (q @ js ''/'') \<and> \<not> starts_with (q @ js ''/'') (p @ js ''/'')"

lemma covers_prefix: "covers href w \<Longrightarrow> starts_with (href_path href @ js ''/'') (ws_path w @ js ''/'')"
  by (auto simp: covers_def starts_with_iff)

lemma prefixes_comparable: "starts_with s p \<Longrightarrow> starts_with s q \<Longrightarrow> starts_with p q \<or> starts_with q p"
  by (auto simp: starts_with_iff append_eq_append_conv2)

lemma covers_apart: "covers href v \<Longrightarrow> covers href w \<Longrightarrow> \<not> apart (ws_path v) (ws_path w)"
  using covers_prefix [of href v] covers_prefix [of href w] prefixes_comparable unfolding apart_def by blast

lemma rows_apart: "sorted_wrt (\<lambda>v w. apart (ws_path v) (ws_path w)) WORKSPACES"
  by code_simp

lemma apart_sym: "apart p q = apart q p"
  by (auto simp: apart_def)

lemma sorted_wrt_all:
  "sorted_wrt P xs \<Longrightarrow> x \<in> set xs \<Longrightarrow> y \<in> set xs \<Longrightarrow> x = y \<or> P x y \<or> P y x"
  by (induction xs) auto

lemma covering_row:
  assumes "w \<in> set WORKSPACES" "covers href w"
  shows "List.find (covers href) WORKSPACES = Some w"
proof -
  obtain v where v: "List.find (covers href) WORKSPACES = Some v"
    using assms by (metis find_None_iff not_None_eq)
  then have "v \<in> set WORKSPACES" "covers href v" by (auto simp: find_Some_iff)
  then have "v = w"
    using sorted_wrt_all [OF rows_apart, of v w] covers_apart assms apart_sym by blast
  with v show ?thesis by simp
qed

text \<open>
  Who may open a row, said on its own: in the collaboration Wiki that is selected, or in the account's own
  Wiki where the row is about the account, the session has a membership, the first one of that Wiki counts,
  with one of the roles.
\<close>

definition holds_role :: "auth_session \<Rightarrow> jstr \<Rightarrow> jstr list \<Rightarrow> bool" where
  "holds_role s wiki required \<longleftrightarrow>
     (\<exists>before m after role. s_wikis s = before @ m # after \<and> wiki \<notin> m_wikiId ` set before \<and> m_wikiId m = wiki \<and>
        role \<in> set (m_roles m) \<and> role \<in> set required)"

lemma roles_in_iff: "holds_role s wiki required \<longleftrightarrow> (\<exists>role. role \<in> set required \<and> role \<in> set (roles_in s wiki))"
proof (cases "List.find (\<lambda>m. m_wikiId m = wiki) (s_wikis s)")
  case None
  then have "roles_in s wiki = []" by (simp add: roles_in_def)
  with None show ?thesis by (auto simp: holds_role_def find_None_iff)
next
  case (Some m)
  then obtain i where i: "i < length (s_wikis s)" "m_wikiId m = wiki" "m = s_wikis s ! i"
    "\<And>j. j < i \<Longrightarrow> m_wikiId (s_wikis s ! j) \<noteq> wiki" by (auto simp: find_Some_iff)
  have split: "s_wikis s = take i (s_wikis s) @ m # drop (Suc i) (s_wikis s)" using i(1,3) by (simp add: id_take_nth_drop)
  have first: "wiki \<notin> m_wikiId ` set (take i (s_wikis s))" using i(1,4) by (force simp: in_set_conv_nth)
  have uniq: "n = m" if "s_wikis s = before @ n # after" "wiki \<notin> m_wikiId ` set before" "m_wikiId n = wiki" for before n after
  proof -
    have "List.find (\<lambda>m. m_wikiId m = wiki) (before @ n # after) = Some n"
      using that(2,3) by (induction before) auto
    then show ?thesis using Some that(1) by simp
  qed
  have r: "roles_in s wiki = m_roles m" by (simp add: roles_in_def Some)
  show ?thesis
  proof
    assume "holds_role s wiki required"
    then show "\<exists>role. role \<in> set required \<and> role \<in> set (roles_in s wiki)"
      using uniq unfolding holds_role_def r by blast
  next
    assume "\<exists>role. role \<in> set required \<and> role \<in> set (roles_in s wiki)"
    then show "holds_role s wiki required" using split first i(2) unfolding holds_role_def r by blast
  qed
qed

text \<open>C35: whatever row of the table covers an address, it opens without a notice exactly for the system, and
  for an account that is in its own Wiki where the row asks for that and holds one of the row's roles, in its
  own Wiki where the row is about the account's storage and in the selected one everywhere else.\<close>

theorem access_granted:
  assumes "w \<in> set WORKSPACES" "covers href w"
  shows "workspaceAccessNotice href session = None \<longleftrightarrow>
     (case session of None \<Rightarrow> False
      | Some s \<Rightarrow> s_actorType s = js ''system'' \<or>
          (ws_homeOnly w \<longrightarrow> s_homeWikiId s = s_wikiId s) \<and>
          (case ws_roles w of None \<Rightarrow> True
           | Some required \<Rightarrow> holds_role s (if ws_accountScope w then s_homeWikiId s else s_wikiId s) required))"
  unfolding workspaceAccessNotice_def covering_row [OF assms]
  by (auto simp: list_ex_iff roles_in_iff judged_wiki_def split: option.split)

definition reviewer_session :: auth_session where
  "reviewer_session = \<lparr>s_actorType = js ''user'', s_homeWikiId = js ''h'', s_wikiId = js ''w'',
     s_wikis = [\<lparr>m_wikiId = js ''w'', m_roles = [js ''reviewer'']\<rparr>]\<rparr>"

lemma access_granted_witness: "workspaceAccessNotice (js ''/governance/review/7?tab=1'') (Some reviewer_session) = None"
proof -
  have "WORKSPACES ! 12 \<in> set WORKSPACES" by (rule nth_mem) code_simp
  moreover have "covers (js ''/governance/review/7?tab=1'') (WORKSPACES ! 12)" by code_simp
  moreover have "ws_homeOnly (WORKSPACES ! 12) = False" "ws_accountScope (WORKSPACES ! 12) = False"
    "ws_roles (WORKSPACES ! 12) = Some [js ''reviewer'', js ''admin'']" by code_simp+
  moreover have "holds_role reviewer_session (s_wikiId reviewer_session) [js ''reviewer'', js ''admin'']"
    unfolding holds_role_def
    by (rule exI [of _ "[]"], rule exI [of _ "hd (s_wikis reviewer_session)"]) (simp add: reviewer_session_def)
  ultimately show ?thesis using access_granted [of "WORKSPACES ! 12" "js ''/governance/review/7?tab=1''" "Some reviewer_session"] by simp
qed

end
