(* ===== verification/Render.thy ===== *)
theory Render
  imports Toc HttpUrl FromAst
begin

text \<open>
  \<open>components/ast/index.tsx\<close>: a document as the tree of elements React renders, with
  \<open>lib/display-id.ts\<close>.

  A node is a text or an element with its attributes and children. Attributes without a value are
  left out, as React does; so are keys, class names, styles and icons. A component of another file
  (\<open>Link\<close>, \<open>AssetImage\<close> and so on) is an element of its own name with the properties it is given.
  \<open>render_env\<close> holds \<open>JSON.stringify\<close> of the host and the environment of the URL functions. Durations
  are below 2 ^ 53. Texts that are not ASCII are given by their code units.
\<close>

record render_env =
  r_urls :: zenv
  r_stringify :: "jsval \<Rightarrow> jstr"

datatype html = Txt jstr | El string "(string \<times> jstr) list" "html list"

section \<open>Optional parts\<close>

text \<open>\<open>attr={value}\<close>, \<open>{value ? node : null}\<close> and \<open>value || default\<close> on an optional text.\<close>

definition attr_opt :: "string \<Rightarrow> jstr option \<Rightarrow> (string \<times> jstr) list" where
  "attr_opt k v = (case v of None \<Rightarrow> [] | Some s \<Rightarrow> [(k, s)])"

definition filled :: "jstr option \<Rightarrow> bool" where
  "filled v \<longleftrightarrow> v \<noteq> None \<and> v \<noteq> Some []"

definition shown :: "jstr option \<Rightarrow> (jstr \<Rightarrow> html) \<Rightarrow> html list" where
  "shown v f = (case v of None \<Rightarrow> [] | Some s \<Rightarrow> if s = [] then [] else [f s])"

definition or_else :: "jstr option \<Rightarrow> jstr \<Rightarrow> jstr" where
  "or_else v d = (case v of None \<Rightarrow> d | Some s \<Rightarrow> if s = [] then d else s)"

definition figcaption :: "jstr option \<Rightarrow> html list" where
  "figcaption cap = shown cap (\<lambda>c. El ''figcaption'' [] [Txt c])"

text \<open>\<open>xs.map((x, i) => ...)\<close>\<close>

definition mapi :: "(nat \<Rightarrow> 'a \<Rightarrow> 'b) \<Rightarrow> 'a list \<Rightarrow> 'b list" where
  "mapi f xs = map (\<lambda>(i, x). f i x) (enumerate 0 xs)"

definition int_text :: "int \<Rightarrow> jstr" where
  "int_text i = num_str (num_of_int i)"

section \<open>Texts\<close>

definition compactId :: "jstr \<Rightarrow> jstr" where
  "compactId i = (if length i \<le> 16 then i else take 4 i @ [8230] @ drop (length i - 8) i)"

definition isolatedHTMLDocument :: "jstr \<Rightarrow> jstr" where
  "isolatedHTMLDocument content =
     js ''<!doctype html><html><head><meta charset='' @ [34] @ js ''utf-8'' @ [34] @ js ''><meta http-equiv='' @
     [34] @ js ''Content-Security-Policy'' @ [34] @ js '' content='' @ [34] @ js ''default-src '' @ [39] @
     js ''none'' @ [39] @ js ''; img-src data:; font-src data:; style-src '' @ [39] @ js ''unsafe-inline'' @
     [39] @ js ''; form-action '' @ [39] @ js ''none'' @ [39] @ js ''; base-uri '' @ [39] @ js ''none'' @ [39] @
     [34] @ js ''><meta name='' @ [34] @ js ''viewport'' @ [34] @ js '' content='' @ [34] @
     js ''width=device-width,initial-scale=1'' @ [34] @
     js ''><style>html{color-scheme:light}body{margin:0;padding:12px;'' @
     js ''font:14px/1.5 system-ui,sans-serif;'' @
     js ''overflow-wrap:anywhere}img,video,canvas,svg{max-width:100%;'' @
     js ''height:auto}table{max-width:100%;border-collapse:collapse}pre{max-width:100%;'' @
     js ''overflow:auto}</style></head><body>'' @ content @ js ''</body></html>''"

text \<open>\<open>Math.round\<close>: to the nearest integer, a half upwards.\<close>

fun round_num :: "jsnum \<Rightarrow> int" where
  "round_num (Dec b s e) =
     (let v = (if b then - int s else int s)
      in if 0 \<le> e then v * 10 ^ nat e else (2 * v + 10 ^ nat (- e)) div (2 * 10 ^ nat (- e)))"
| "round_num n = 0"

definition padStart2 :: "jstr \<Rightarrow> jstr" where
  "padStart2 s = replicate (2 - length s) 48 @ s"

definition formatDuration :: "jsnum option \<Rightarrow> jstr option" where
  "formatDuration d = map_option (\<lambda>n. let total = max 0 (round_num n)
     in int_text (total div 60) @ js '':'' @ padStart2 (int_text (total mod 60))) d"

section \<open>Citation numbers\<close>

type_synonym citation_numbers = "(jstr \<times> nat) list"

definition number_citation :: "inline \<Rightarrow> citation_numbers \<Rightarrow> citation_numbers" where
  "number_citation n numbers =
     (case n of CitationReference c d \<Rightarrow>
        if c \<in> fst ` set numbers then numbers else assoc_put c (length numbers + 1) numbers
      | _ \<Rightarrow> numbers)"

text \<open>The inline content of the four block types that have one.\<close>

fun block_content :: "block \<Rightarrow> inline list" where
  "block_content (Heading _ _ _ c _) = c"
| "block_content (Paragraph _ c) = c"
| "block_content (Todo _ _ c _) = c"
| "block_content (Toggle _ c _) = c"
| "block_content _ = []"

fun visit_block :: "block \<Rightarrow> citation_numbers \<Rightarrow> citation_numbers" where
  "visit_block b numbers = fold visit_block (block_children b) (fold number_citation (block_content b) numbers)"

declare visit_block.simps [simp del]

definition collectCitationNumbers :: "document \<Rightarrow> citation_numbers" where
  "collectCitationNumbers d = fold visit_block d []"

definition citationNumbersFromOrder :: "jstr list \<Rightarrow> citation_numbers" where
  "citationNumbersFromOrder order = fold (\<lambda>(i, c). assoc_put c (i + 1)) (enumerate 0 order) []"

section \<open>Inline nodes\<close>

definition mark_tag :: "mark \<Rightarrow> string" where
  "mark_tag m = (case m of Bold \<Rightarrow> ''strong'' | Italic \<Rightarrow> ''em'' | Underline \<Rightarrow> ''u'' | Strikethrough \<Rightarrow> ''s''
     | Code \<Rightarrow> ''code'')"

definition applyMarks :: "jstr \<Rightarrow> mark list option \<Rightarrow> inline_color option \<Rightarrow> inline_color option \<Rightarrow> html" where
  "applyMarks t ms c g =
     (let out = fold (\<lambda>m out. El (mark_tag m) [] [out]) (case ms of None \<Rightarrow> [] | Some ms \<Rightarrow> ms) (Txt t)
      in if c \<noteq> None \<or> g \<noteq> None
         then El ''span'' (attr_opt ''data-text-color'' (map_option (enum_name inline_colors) c) @
           attr_opt ''data-background-color'' (map_option (enum_name inline_colors) g)) [out]
         else out)"

definition page_href :: "jstr \<Rightarrow> jstr option \<Rightarrow> jstr" where
  "page_href p h = js ''/pages/'' @ p @ (case h of None \<Rightarrow> [] | Some s \<Rightarrow> if s = [] then [] else js ''#'' @ s)"

definition outside_link :: "jstr \<Rightarrow> html list \<Rightarrow> html" where
  "outside_link u = El ''a'' [(''href'', u), (''target'', js ''_blank''), (''rel'', js ''noopener noreferrer'')]"

text \<open>\<open>const href = safeHttpUrl(url); if (!href) ...\<close>\<close>

definition safe_or :: "zenv \<Rightarrow> jstr \<Rightarrow> html \<Rightarrow> (jstr \<Rightarrow> html) \<Rightarrow> html" where
  "safe_or z u unsafe f = (case safeHttpUrl z (JStr u) of None \<Rightarrow> unsafe | Some s \<Rightarrow> if s = [] then unsafe else f s)"

fun InlineNodeView :: "zenv \<Rightarrow> nat \<Rightarrow> jstr option \<Rightarrow> inline \<Rightarrow> html" where
  "InlineNodeView z n anchor (Text t ms c g) = applyMarks t ms c g"
| "InlineNodeView z n anchor (InlineCode t) = El ''code'' [] [Txt t]"
| "InlineNodeView z n anchor (UnresolvedReference s t e) =
     El ''span'' [(''title'', [39029, 38754, 19981, 23384, 22312, 65306] @ t), (''data-unresolved-ref'', t)] [Txt t]"
| "InlineNodeView z n anchor (PageReference p h d) = El ''Link'' [(''href'', page_href p h)] [Txt d]"
| "InlineNodeView z n anchor (PageAnchorReference p h d) =
     El ''Link'' [(''href'', js ''/pages/'' @ p @ js ''#'' @ h)] [Txt d]"
| "InlineNodeView z n anchor (ExternalLink u d) =
     safe_or z u (El ''span'' [(''data-unsafe-external-link'', [])] [Txt d]) (\<lambda>s. outside_link s [Txt d])"
| "InlineNodeView z n anchor (EntityReference e d) =
     El ''a'' [(''href'', js ''/concepts/'' @ e), (''data-entity-ref'', e)] [Txt d]"
| "InlineNodeView z n anchor (ClaimReference c d) =
     El ''Link'' [(''href'', js ''/claims/'' @ c), (''data-claim-ref'', c)] [Txt d]"
| "InlineNodeView z n anchor (CitationReference c d) =
     El ''sup'' (attr_opt ''id'' anchor @ [(''data-citation-ref'', c), (''title'', case d of None \<Rightarrow> c | Some t \<Rightarrow> t)])
       [El ''a'' [(''href'', js ''#cite-note-'' @ nat_str n), (''aria-label'', ([21442, 32771, 25991,
      29486] @ js '' '') @ nat_str n)]
          [Txt (js ''[''), Txt (nat_str n), Txt (js '']'')]]"
| "InlineNodeView z n anchor (Math e) =
     El ''code'' [(''data-math-expression'', e), (''title'', [25968, 23398, 34920, 36798, 24335])] [Txt e]"
| "InlineNodeView z n anchor (Mention a d) = El ''span'' [(''data-actor-id'', a)] [Txt d]"
| "InlineNodeView z n anchor (DateMention a e d) =
     El ''time'' ([(''dateTime'', a), (''data-date-mention'', [])] @ attr_opt ''data-end-date'' e) [Txt d]"

definition InlineNodes :: "zenv \<Rightarrow> citation_numbers \<Rightarrow> jstr \<Rightarrow> inline list \<Rightarrow> html list" where
  "InlineNodes z numbers blockId nodes =
     mapi (\<lambda>i n. case n of
         CitationReference c d \<Rightarrow> InlineNodeView z (case map_of numbers c of None \<Rightarrow> 1 | Some k \<Rightarrow> k)
           (Some (js ''cite-ref-'' @ blockId @ js ''-'' @ nat_str i)) n
       | _ \<Rightarrow> InlineNodeView z 1 None n) nodes"

section \<open>Blocks, given their rendered children\<close>

definition heading_tag :: "int \<Rightarrow> string" where
  "heading_tag level = [''h1'', ''h2'', ''h3'', ''h4'', ''h5'', ''h6''] ! nat (level - 1)"

definition HeadingView :: "html list \<Rightarrow> jstr \<Rightarrow> int \<Rightarrow> bool option \<Rightarrow> html list \<Rightarrow> html" where
  "HeadingView content i l toggleable children =
     (let level = min 6 (max 1 l)
      in if toggleable = Some True then
           El ''details'' [] [El ''summary'' [(''id'', i)]
               [El ''span'' [(''role'', js ''heading''), (''aria-level'', int_text level)] content],
             El ''div'' [] children]
         else El (heading_tag level) [(''id'', i)] content)"

definition TableRowView :: "nat \<Rightarrow> bool \<Rightarrow> bool \<Rightarrow> html list list \<Rightarrow> html" where
  "TableRowView rowIndex columnHeader rowHeader cells =
     El ''tr'' [] (mapi (\<lambda>cellIndex content.
       let header = columnHeader \<or> (rowHeader \<and> cellIndex = 0)
       in El (if header then ''th'' else ''td'')
            ((if header then [(''scope'', if columnHeader then js ''col'' else js ''row'')] else []) @
             [(''data-row'', nat_str rowIndex), (''data-column'', nat_str cellIndex)]) content) cells)"

definition TableView :: "jstr option \<Rightarrow> bool \<Rightarrow> bool \<Rightarrow> html list list list \<Rightarrow> html" where
  "TableView caption columnHeader rowHeader rows =
     (let skip = (if columnHeader then 1 else 0)
      in El ''figure'' [] [El ''table'' []
       (shown caption (\<lambda>c. El ''caption'' [] [Txt c]) @
        (if columnHeader \<and> rows \<noteq> [] then [El ''thead'' [] [TableRowView 0 True rowHeader (hd rows)]] else []) @
        [El ''tbody'' [] (mapi (\<lambda>index row. TableRowView (index + skip) False rowHeader row) (drop skip rows))])])"

definition BreadcrumbView :: "(jstr option \<times> jstr) list \<Rightarrow> html" where
  "BreadcrumbView its = El ''nav'' [(''aria-label'', js ''Breadcrumb'')] [El ''ol'' [] (map (\<lambda>(p, t).
     El ''li'' [] [if filled p then El ''Link'' [(''href'', js ''/pages/'' @ the p)] [Txt t]
       else El ''span'' [(''aria-current'', js ''page'')] [Txt t]]) its)]"

definition CodeView :: "jstr \<Rightarrow> jstr option \<Rightarrow> jstr option \<Rightarrow> html" where
  "CodeView c language cap =
     El ''figure'' [] ((if filled cap \<or> filled language
       then [El ''figcaption'' [] (El ''span'' [] (case cap of None \<Rightarrow> [] | Some t \<Rightarrow> [Txt t]) #
         shown language (\<lambda>l. El ''span'' [] [Txt l]))] else []) @
       [El ''pre'' [] [El ''code'' [] [Txt c]]])"

definition HtmlView :: "jstr \<Rightarrow> int \<Rightarrow> jstr option \<Rightarrow> html" where
  "HtmlView h height cap =
     El ''figure'' [] (El ''iframe'' [(''sandbox'', []), (''loading'', js ''lazy''), (''referrerPolicy'', js ''no-referrer''),
       (''title'', or_else cap (js ''HTML content'')), (''height'', int_text height), (''srcDoc'', isolatedHTMLDocument h)] []
       # figcaption cap)"

definition callout_label :: "callout_kind \<Rightarrow> jstr" where
  "callout_label k = (case k of Info \<Rightarrow> [20449, 24687] | Warning \<Rightarrow> [35686,
      21578] | Danger \<Rightarrow> [21361, 38505])"

definition AudioMeta :: "jstr option \<Rightarrow> jstr option \<Rightarrow> jsnum option \<Rightarrow> html list" where
  "AudioMeta artist album du =
     (if filled artist \<or> filled album
      then [El ''p'' [] [Txt (join ((js '' '' @ [183] @ js '' '')) (map the (filter filled [artist, album, formatDuration du])))]]
      else case formatDuration du of None \<Rightarrow> [] | Some t \<Rightarrow> [El ''p'' [] [Txt t]])"

definition PreviewView :: "zenv \<Rightarrow> bool \<Rightarrow> jstr \<Rightarrow> jstr \<Rightarrow> jstr option \<Rightarrow> jstr option \<Rightarrow> jstr option \<Rightarrow> html" where
  "PreviewView z bookmark u t description siteName cap =
     safe_or z u (El ''span'' [] [Txt ([26080, 27861, 25171, 24320, 19981, 23433, 20840, 30340, 39044, 35272, 22320,
      22336])])
       (\<lambda>s. El ''figure'' []
         (outside_link s
           ([El ''span'' [] [Txt (or_else siteName (case parse_url z s of None \<Rightarrow> [] | Some v \<Rightarrow> hostname v))],
             El ''strong'' [] [Txt t]] @ shown description (\<lambda>d. El ''span'' [] [Txt d]))
          # (if bookmark then figcaption cap else [])))"

definition player :: "embed_provider \<Rightarrow> provider" where
  "player p = (case p of PYoutube \<Rightarrow> Youtube | PVimeo \<Rightarrow> Vimeo | PFigma \<Rightarrow> Figma)"

definition EmbedView :: "zenv \<Rightarrow> jstr \<Rightarrow> jstr option \<Rightarrow> embed_provider option \<Rightarrow> jstr option \<Rightarrow> html" where
  "EmbedView z u t p cap =
     safe_or z u (El ''span'' [] [Txt ([26080, 27861, 25171, 24320, 19981, 23433, 20840, 30340, 23884, 20837, 22320,
      22336])])
       (\<lambda>s. case interactiveEmbedUrl z (map_option player p) s of
          Some src \<Rightarrow> El ''figure'' (attr_opt ''data-embed-provider'' (map_option (enum_name embed_providers) p))
            (El ''iframe'' [(''src'', src), (''title'', or_else t (js ''Interactive embed'')), (''loading'', js ''lazy''),
               (''referrerPolicy'', js ''strict-origin-when-cross-origin''),
               (''sandbox'', js ''allow-scripts allow-same-origin allow-presentation''),
               (''allow'', js ''accelerometer; autoplay; encrypted-media; gyroscope; picture-in-picture; fullscreen''),
               (''allowFullScreen'', [])] []
             # figcaption cap)
        | None \<Rightarrow> outside_link s [El ''span'' [] [El ''span'' [] [Txt (or_else t ([22806, 37096, 23884,
      20837, 20869, 23481]))], El ''span'' [] [Txt u]]])"

section \<open>Blocks and documents\<close>

lemma size_table_cell [termination_simp]:
  assumes "row \<in> set k" "cell \<in> set (block_children row)" "b \<in> set (block_children cell)"
  shows "size b \<le> size_list size k" "size b < Suc (size_list size k)"
proof -
  have "size b < size cell" "size cell < size row" "size row \<le> size_list size k"
    using assms by (simp_all add: size_block_children size_mem_le)
  then show "size b \<le> size_list size k" "size b < Suc (size_list size k)" by simp_all
qed

fun BlockView :: "render_env \<Rightarrow> citation_numbers \<Rightarrow> block \<Rightarrow> html" where
  "BlockView e ns (Heading i l t c k) =
     HeadingView (InlineNodes (r_urls e) ns i c) i l t (map (BlockView e ns) (kids k))"
| "BlockView e ns (Paragraph i c) = El ''p'' [] (InlineNodes (r_urls e) ns i c)"
| "BlockView e ns (Todo i checked c k) =
     El ''div'' [] (El ''div'' []
       [El ''span'' [(''role'', js ''checkbox''), (''aria-checked'', if checked then js ''true'' else js ''false'')] [],
        El ''span'' [] (InlineNodes (r_urls e) ns i c)]
       # (if kids k \<noteq> [] then [El ''div'' [] (map (BlockView e ns) (kids k))] else []))"
| "BlockView e ns (Toggle i c k) =
     El ''details'' [] [El ''summary'' [] (InlineNodes (r_urls e) ns i c), El ''div'' [] (map (BlockView e ns) (kids k))]"
| "BlockView e ns (Breadcrumb i its) = BreadcrumbView its"
| "BlockView e ns (ColumnList i k) = El ''div'' [] (map (BlockView e ns) k)"
| "BlockView e ns (Column i w k) = El ''section'' [] (map (BlockView e ns) k)"
| "BlockView e ns (Button i l c as) =
     El ''button'' ([(''type'', js ''button''), (''data-page-button'', []), (''data-block-id'', i),
       (''data-actions-json'', r_stringify e (enc_actions as))] @ attr_opt ''data-confirmation'' c) [Txt l]"
| "BlockView e ns (Html i h n cap) = HtmlView h n cap"
| "BlockView e ns (BulletList i k) = El ''ul'' [] (map (BlockView e ns) k)"
| "BlockView e ns (OrderedList i k) = El ''ol'' [] (map (BlockView e ns) k)"
| "BlockView e ns (ListItem i k) = El ''li'' [] (map (BlockView e ns) k)"
| "BlockView e ns (Table i cap h r k) =
     TableView cap (h = Some True) (r = Some True)
       (map (\<lambda>row. map (\<lambda>cell. map (BlockView e ns) (block_children cell)) (block_children row)) k)"
| "BlockView e ns (TableRow i k) = El ''tr'' [] (map (BlockView e ns) k)"
| "BlockView e ns (TableCell i k) = El ''td'' [] (map (BlockView e ns) k)"
| "BlockView e ns (CodeBlock i c l cap) = CodeView c l cap"
| "BlockView e ns (Preformatted i k c cap) =
     El ''figure'' [(''data-preformatted-kind'', enum_name preformatted_kinds k)]
       (figcaption cap @ [El ''pre'' [] [El ''code'' [] [Txt c]]])"
| "BlockView e ns (Equation i x cap) =
     El ''figure'' [(''data-math-expression'', x)] (El ''div'' [] [Txt x] # figcaption cap)"
| "BlockView e ns (Quote i k) = El ''blockquote'' [] (map (BlockView e ns) k)"
| "BlockView e ns (Callout i kd ic co k) =
     El ''aside'' [(''role'', js ''note''), (''aria-label'', callout_label kd)]
       (shown ic (\<lambda>t. El ''span'' [] [Txt t]) @ [El ''div'' [] (map (BlockView e ns) k)])"
| "BlockView e ns (Component i c v x d) =
     El ''aside'' [] [El ''div'' [] [El ''p'' [] [Txt ([30693, 35782, 32452, 20214])],
       El ''p'' [] [Txt (([32452, 20214, 29256, 26412] @ js '' '')), Txt (int_text v),
      Txt (js '' '' @ [183] @ js '' '' @ [23454, 20307]), Txt (js '' ''), Txt (compactId x)]]]"
| "BlockView e ns (Image i a t cap) =
     El ''figure'' [] (El ''AssetImage'' [(''revisionId'', a), (''alt'', t)] [] # figcaption cap)"
| "BlockView e ns (Video i a p t cap) =
     El ''figure'' [] (El ''AssetVideo'' ((''revisionId'', a) # attr_opt ''posterRevisionId'' p @ attr_opt ''title'' t) []
       # figcaption cap)"
| "BlockView e ns (Audio i a t ar al du cap) =
     El ''figure'' [] (El ''div'' [] (El ''p'' [] [Txt t] # AudioMeta ar al du) #
       El ''div'' [] [El ''AssetAudio'' [(''revisionId'', a), (''title'', t)] []] # figcaption cap)"
| "BlockView e ns (File i a n cap) =
     El ''aside'' [] (El ''AssetFile'' [(''revisionId'', a), (''name'', n)] [] # shown cap (\<lambda>c. El ''p'' [] [Txt c]))"
| "BlockView e ns (Pdf i a t s h cap) =
     El ''figure'' [] (El ''AssetPDF'' ([(''revisionId'', a), (''title'', or_else t (js ''PDF document''))] @
       attr_opt ''startPage'' (map_option int_text s) @ [(''height'', int_text h)]) [] # figcaption cap)"
| "BlockView e ns (Bookmark i u t d s cap) = PreviewView (r_urls e) True u t d s cap"
| "BlockView e ns (LinkPreview i u t d s) = PreviewView (r_urls e) False u t d s None"
| "BlockView e ns (Embed i u t p cap) = EmbedView (r_urls e) u t p cap"
| "BlockView e ns (Divider i) = El ''hr'' [] []"

definition AstDocument :: "render_env \<Rightarrow> jstr list option \<Rightarrow> document \<Rightarrow> html" where
  "AstDocument e citationOrder d =
     (let numbers = (case citationOrder of Some order \<Rightarrow> citationNumbersFromOrder order | None \<Rightarrow> collectCitationNumbers d)
      in El ''div'' [(''data-ast-document'', js ''true'')] (map (BlockView e numbers) d))"

text \<open>Every node of a tree, and the value of an attribute.\<close>

fun html_nodes :: "html \<Rightarrow> html list" where
  "html_nodes (Txt t) = [Txt t]"
| "html_nodes (El t as ks) = El t as ks # concat (map html_nodes ks)"

fun attr :: "html \<Rightarrow> string \<Rightarrow> jstr option" where
  "attr (Txt t) k = None"
| "attr (El t as ks) k = map_of as k"

section \<open>Nodes of a tree\<close>

definition deep :: "(html \<Rightarrow> bool) \<Rightarrow> html \<Rightarrow> bool" where
  "deep P x \<longleftrightarrow> (\<forall>n \<in> set (html_nodes x). P n)"

lemma deep_simps [simp]:
  "deep P (Txt s) \<longleftrightarrow> P (Txt s)"
  "deep P (El t as ks) \<longleftrightarrow> P (El t as ks) \<and> list_all (deep P) ks"
  by (auto simp: deep_def list_all_iff)

lemma deep_shown [simp]: "list_all (deep P) (shown v f) \<longleftrightarrow> (\<forall>s. v = Some s \<longrightarrow> s \<noteq> [] \<longrightarrow> deep P (f s))"
  by (auto simp: shown_def split: option.split)

lemma list_all_mapi: "(\<And>i x. x \<in> set xs \<Longrightarrow> P (f i x)) \<Longrightarrow> list_all P (mapi f xs)"
  by (auto simp: mapi_def list_all_iff in_set_enumerate_eq)

lemma valid_children: "valid_block z b \<Longrightarrow> c \<in> set (block_children b) \<Longrightarrow> valid_block z c"
  by (cases b) (auto simp: list_all_iff split: option.splits)

text \<open>What \<open>InlineNodes\<close> passes on for a node.\<close>

definition inline_view :: "zenv \<Rightarrow> citation_numbers \<Rightarrow> jstr \<Rightarrow> nat \<Rightarrow> inline \<Rightarrow> html" where
  "inline_view z ns blockId i n = (case n of
       CitationReference c d \<Rightarrow> InlineNodeView z (case map_of ns c of None \<Rightarrow> 1 | Some k \<Rightarrow> k)
         (Some (js ''cite-ref-'' @ blockId @ js ''-'' @ nat_str i)) n
     | _ \<Rightarrow> InlineNodeView z 1 None n)"

lemma inline_view: "\<exists>k a. inline_view z ns i j n = InlineNodeView z k a n"
  by (cases n) (auto simp: inline_view_def)

section \<open>Properties of every node\<close>

text \<open>
  A property of nodes holds throughout a page when it holds of the nodes the inline content becomes,
  of links and frames, and of every element that has only the attributes below.
\<close>

definition plain_keys :: "string list" where
  "plain_keys = [''id'', ''title'', ''role'', ''aria-label'', ''aria-level'', ''aria-checked'', ''aria-current'', ''type'',
     ''data-page-button'', ''data-block-id'', ''data-actions-json'', ''data-confirmation'', ''scope'', ''data-row'',
     ''data-column'', ''data-preformatted-kind'', ''data-math-expression'', ''data-embed-provider'', ''revisionId'',
     ''alt'', ''posterRevisionId'', ''name'', ''startPage'', ''height'', ''data-ast-document'']"

definition plain :: "string \<Rightarrow> (string \<times> jstr) list \<Rightarrow> bool" where
  "plain t as \<longleftrightarrow> t \<noteq> ''iframe'' \<and> t \<noteq> ''script'' \<and> list_all (\<lambda>p. fst p \<in> set plain_keys) as"

lemma attr_opt_all [simp]: "list_all P (attr_opt k v) \<longleftrightarrow> (\<forall>s. v = Some s \<longrightarrow> P (k, s))"
  by (auto simp: attr_opt_def split: option.split)

lemma plain_heading: "plain (heading_tag (min 6 (max 1 l))) [(''id'', i)]"
proof -
  have "heading_tag (min 6 (max 1 l)) \<in> set [''h1'', ''h2'', ''h3'', ''h4'', ''h5'', ''h6'']"
    unfolding heading_tag_def by (rule nth_mem) simp
  then show ?thesis by (auto simp: plain_def plain_keys_def)
qed

locale page_check =
  fixes e :: render_env and ns :: citation_numbers and P :: "html \<Rightarrow> bool" and inline_ok :: "inline \<Rightarrow> bool"
  assumes text_ok: "P (Txt s)"
    and plain_ok: "plain t as \<Longrightarrow> P (El t as ks)"
    and link_ok: "z_uuid (r_urls e) i \<Longrightarrow> P (El ''Link'' [(''href'', js ''/pages/'' @ i)] ks)"
    and outside_ok: "http_protocol (r_urls e) u \<Longrightarrow> P (outside_link u ks)"
    and frame_ok: "t = ''iframe'' \<Longrightarrow> map_of as ''href'' = None \<Longrightarrow> map_of as ''target'' = None \<Longrightarrow>
        map_of as ''data-citation-ref'' = None \<Longrightarrow> list_all (\<lambda>p. take 2 (fst p) \<noteq> ''on'') as \<Longrightarrow>
        (case map_of as ''src'' of None \<Rightarrow> map_of as ''sandbox'' = Some [] | Some s \<Rightarrow> \<exists>p. embed_target_ok p s) \<Longrightarrow>
        P (El t as ks)"
    and inline_ok: "inline_ok n \<Longrightarrow> deep P (inline_view (r_urls e) ns i j n)"
begin

lemma inlines_ok: "list_all inline_ok c \<Longrightarrow> list_all (deep P) (InlineNodes (r_urls e) ns i c)"
  unfolding InlineNodes_def inline_view_def [symmetric] by (rule list_all_mapi) (auto simp: inline_ok list_all_iff)

lemma caption_ok: "list_all (deep P) (figcaption cap)"
  by (simp add: figcaption_def text_ok plain_ok plain_def)

lemma safe_or_ok:
  assumes "deep P unsafe" "\<And>s. http_protocol (r_urls e) s \<Longrightarrow> deep P (f s)"
  shows "deep P (safe_or (r_urls e) u unsafe f)"
  using assms by (auto simp: safe_or_def safeHttpUrl_def httpUrlSchema_Some split: option.split)

lemma outside_deep: "http_protocol (r_urls e) u \<Longrightarrow> list_all (deep P) ks \<Longrightarrow> deep P (outside_link u ks)"
  using outside_ok [of u ks] by (simp add: outside_link_def)

lemma preview_ok: "deep P (PreviewView (r_urls e) b u t d s cap)"
  by (auto simp: PreviewView_def text_ok plain_ok plain_def caption_ok intro!: safe_or_ok outside_deep)

lemma embed_ok: "deep P (EmbedView (r_urls e) u t p cap)"
proof -
  have "\<exists>q. embed_target_ok q x" if "interactiveEmbedUrl (r_urls e) (map_option player p) s = Some x" for s x
    using embed_targets [OF that] by blast
  then show ?thesis
    by (auto simp: EmbedView_def text_ok plain_ok plain_def plain_keys_def caption_ok frame_ok
        intro!: safe_or_ok outside_deep split: option.split)
qed

lemma plain_deep: "plain t as \<Longrightarrow> list_all (deep P) ks \<Longrightarrow> deep P (El t as ks)"
  by (simp add: plain_ok)

lemma row_ok: "list_all (list_all (deep P)) cells \<Longrightarrow> deep P (TableRowView i columnHeader rowHeader cells)"
  unfolding TableRowView_def
  by (intro plain_deep list_all_mapi) (auto simp: plain_def plain_keys_def Let_def list_all_iff plain_ok)

lemma table_ok:
  assumes "list_all (list_all (list_all (deep P))) rows"
  shows "deep P (TableView cap h r rows)"
proof -
  have "list_all (deep P) (mapi (\<lambda>i row. TableRowView (i + k) False r row) (drop k rows))" for k
    using assms by (intro list_all_mapi row_ok) (auto simp: list_all_iff dest: in_set_dropD)
  moreover have "rows \<noteq> [] \<Longrightarrow> deep P (TableRowView 0 True r (hd rows))"
    using assms by (intro row_ok) (cases rows; simp)
  ultimately show ?thesis
    by (simp add: TableView_def Let_def plain_ok plain_def text_ok)
qed

lemma block_ok:
  "valid_block (r_urls e) b \<Longrightarrow> \<forall>c \<in> set (preorder b). list_all inline_ok (block_content c) \<Longrightarrow> deep P (BlockView e ns b)"
proof (induction "size b" arbitrary: b rule: less_induct)
  case less
  have below: "deep P (BlockView e ns c)" if "c \<in> set (block_children b)" for c
    using that less.prems valid_children [OF less.prems(1) that]
    by (intro less.hyps size_block_children) (auto simp: preorder.simps [of b])
  then have kids: "list_all (deep P) (map (BlockView e ns) k)" if "set k \<subseteq> set (block_children b)" for k
    using that by (auto simp: list_all_iff)
  have own: "list_all (deep P) (InlineNodes (r_urls e) ns i (block_content b))" for i
    using less.prems(2) by (intro inlines_ok) (simp add: preorder.simps [of b])
  show ?case
  proof (cases b)
    case (Heading i l t c k)
    then show ?thesis
      using kids own [of i] plain_ok [OF plain_heading] by (auto simp: HeadingView_def Let_def plain_ok plain_def plain_keys_def kids_def
          split: option.splits)
  next
    case (Table i cap h r k)
    have "deep P (BlockView e ns d)" if "row \<in> set k" "cell \<in> set (block_children row)" "d \<in> set (block_children cell)" for row cell d
    proof -
      have "valid_block (r_urls e) row" using valid_children [OF less.prems(1), of row] that(1) by (simp add: Table)
      from valid_children [OF valid_children [OF this that(2)] that(3)] have v: "valid_block (r_urls e) d" .
      have "size d < size b" using size_table_cell that by (simp add: Table)
      moreover have "set (preorder d) \<subseteq> set (preorder b)"
      proof -
        have sub: "set (preorder c) \<subseteq> set (preorder x)" if "c \<in> set (block_children x)" for c x
          using that by (auto simp: preorder.simps [of x])
        from sub [OF that(3)] sub [OF that(2)] sub [of row b] that(1) Table show ?thesis by simp
      qed
      ultimately show ?thesis using less.hyps v less.prems(2) by blast
    qed
    then show ?thesis
      unfolding Table BlockView.simps by (intro table_ok) (auto simp: list_all_iff)
  next
    case (Breadcrumb i its)
    then show ?thesis
      using less.prems(1) by (auto simp: BreadcrumbView_def plain_ok plain_def plain_keys_def text_ok link_ok filled_def
          list_all_iff pred_option_iff split: prod.splits)
  next
    case (Html i h n cap)
    then show ?thesis
      by (auto simp: HtmlView_def plain_ok plain_def caption_ok frame_ok)
  next
    case (Bookmark i u t d s cap)
    then show ?thesis by (simp add: preview_ok)
  next
    case (LinkPreview i u t d s)
    then show ?thesis by (simp add: preview_ok)
  next
    case (Embed i u t p cap)
    then show ?thesis by (simp add: embed_ok)
  qed (use kids own in \<open>auto simp: plain_ok plain_def plain_keys_def text_ok caption_ok kids_def CodeView_def AudioMeta_def
      split: option.splits\<close>)
qed

end

text \<open>A page with two notes, cited three times, a link and a toggle.\<close>

definition note_a :: jstr where
  "note_a = js ''01890a5d-ac96-774b-bcce-b302099a8057''"

definition note_b :: jstr where
  "note_b = js ''01890a5d-ac96-774b-bcce-b302099a8058''"

definition sample_article :: document where
  "sample_article =
     [Heading note_a 2 (Some True) [Text (js ''a'') None None None, CitationReference note_b None]
        (Some [Paragraph note_b [CitationReference note_a None, CitationReference note_b (Some (js ''b''))]]),
      Paragraph note_a [ExternalLink (href sample_url) (js ''x''), PageReference note_a None (js ''y'')]]"

definition sample_render :: render_env where
  "sample_render = \<lparr>r_urls = sample_env, r_stringify = (\<lambda>_. js ''[]'')\<rparr>"

lemma sample_article_valid: "valid_document (r_urls sample_render) sample_article"
  by (simp add: valid_document_def sample_article_def sample_render_def sample_env_def note_a_def note_b_def int_in_def
      valid_url_def httpUrlSchema_def http_protocol_def sample_url_def js_trim_def is_js_space_def js_eval)

section \<open>What a page can point to\<close>

text \<open>
  A link leads to a page, concept or claim of the wiki by id, to a note of the page, or to an http(s)
  address; a frame shows one of the players, or is cut off from the page; a link that opens elsewhere
  does not hand the page over; and no element carries a script.
\<close>

definition safe_href :: "zenv \<Rightarrow> jstr \<Rightarrow> bool" where
  "safe_href z h \<longleftrightarrow> http_protocol z h \<or> starts_with h (js ''#cite-note-'') \<or>
     (\<exists>i. z_uuid z i \<and> (h = js ''/concepts/'' @ i \<or> h = js ''/claims/'' @ i \<or> h = js ''/pages/'' @ i \<or>
        (\<exists>j. z_uuid z j \<and> h = js ''/pages/'' @ i @ js ''#'' @ j)))"

definition safe_node :: "zenv \<Rightarrow> html \<Rightarrow> bool" where
  "safe_node z n \<longleftrightarrow> (case n of Txt t \<Rightarrow> True
     | El t as ks \<Rightarrow>
         (\<forall>h. map_of as ''href'' = Some h \<longrightarrow> safe_href z h) \<and>
         (map_of as ''target'' \<noteq> None \<longrightarrow> map_of as ''rel'' = Some (js ''noopener noreferrer'')) \<and>
         (t = ''iframe'' \<longrightarrow> (\<exists>p s. map_of as ''src'' = Some s \<and> embed_target_ok p s) \<or>
            map_of as ''src'' = None \<and> map_of as ''sandbox'' = Some []) \<and>
         (map_of as ''src'' \<noteq> None \<longrightarrow> t = ''iframe'') \<and>
         t \<noteq> ''script'' \<and> list_all (\<lambda>p. take 2 (fst p) \<noteq> ''on'') as)"

lemma safe_node_simps [simp]:
  "safe_node z (Txt s)"
  "safe_node z (El t as ks) \<longleftrightarrow>
     (\<forall>h. map_of as ''href'' = Some h \<longrightarrow> safe_href z h) \<and>
     (map_of as ''target'' \<noteq> None \<longrightarrow> map_of as ''rel'' = Some (js ''noopener noreferrer'')) \<and>
     (t = ''iframe'' \<longrightarrow> (\<exists>p s. map_of as ''src'' = Some s \<and> embed_target_ok p s) \<or>
        map_of as ''src'' = None \<and> map_of as ''sandbox'' = Some []) \<and>
     (map_of as ''src'' \<noteq> None \<longrightarrow> t = ''iframe'') \<and>
     t \<noteq> ''script'' \<and> list_all (\<lambda>p. take 2 (fst p) \<noteq> ''on'') as"
  by (simp_all add: safe_node_def)

declare map_of_append [simp del]

lemma attr_opt_simps [simp]:
  "map_of (attr_opt k v @ as) j = (if j = k \<and> v \<noteq> None then v else map_of as j)"
  "map_of (attr_opt k v) j = (if j = k then v else None)"
  by (auto simp: attr_opt_def map_of_append split: option.split)

lemma safe_marks: "deep (safe_node z) (applyMarks t ms c g)"
proof -
  have "deep (safe_node z) (fold (\<lambda>m out. El (mark_tag m) [] [out]) ms x)" if "deep (safe_node z) x" for ms x
    using that
  proof (induction ms arbitrary: x)
    case (Cons m ms)
    then show ?case by (cases m) (simp_all add: mark_tag_def)
  qed simp
  then show ?thesis by (simp add: applyMarks_def Let_def)
qed

lemma safe_or_safe:
  assumes "deep (safe_node z) unsafe" "\<And>s. http_protocol z s \<Longrightarrow> deep (safe_node z) (f s)"
  shows "deep (safe_node z) (safe_or z u unsafe f)"
  using assms by (auto simp: safe_or_def safeHttpUrl_def httpUrlSchema_Some split: option.split)

lemma safe_outside: "http_protocol z u \<Longrightarrow> list_all (deep (safe_node z)) ks \<Longrightarrow> deep (safe_node z) (outside_link u ks)"
  by (simp add: outside_link_def safe_href_def)

lemma safe_inline: "valid_inline z n \<Longrightarrow> deep (safe_node z) (InlineNodeView z k a n)"
  by (cases n) (auto simp: safe_marks safe_href_def page_href_def starts_with_append
      intro!: safe_or_safe safe_outside split: option.splits)

lemma plain_none: "plain t as \<Longrightarrow> k \<notin> set plain_keys \<Longrightarrow> map_of as k = None"
  by (auto simp: plain_def list_all_iff map_of_eq_None_iff)

interpretation safe: page_check e ns "safe_node (r_urls e)" "valid_inline (r_urls e)" for e ns
proof
  fix t as ks
  assume plain: "plain t as"
  moreover have "take 2 k \<noteq> ''on''" if "k \<in> set plain_keys" for k
    using that by (auto simp: plain_keys_def)
  ultimately show "safe_node (r_urls e) (El t as ks)"
    using plain_none [OF plain, of "''href''"] plain_none [OF plain, of "''target''"] plain_none [OF plain, of "''src''"]
    by (auto simp: plain_def list_all_iff plain_keys_def)
next
  fix n i j
  assume "valid_inline (r_urls e) n"
  then show "deep (safe_node (r_urls e)) (inline_view (r_urls e) ns i j n)"
    using inline_view [of "r_urls e" ns i j n] safe_inline by auto
qed (auto simp: safe_href_def outside_link_def split: option.splits)

lemma contents_valid:
  "valid_block z b \<Longrightarrow> \<forall>c \<in> set (preorder b). list_all (valid_inline z) (block_content c)"
proof (induction b rule: preorder.induct)
  case (1 b)
  have "list_all (valid_inline z) (block_content b)" using 1(2) by (cases b) simp_all
  with 1 show ?case by (auto simp: preorder.simps [of b] dest: valid_children)
qed

lemma page_ok:
  assumes "page_check e ns P ok" "valid_document (r_urls e) d" "\<forall>c \<in> set (all_blocks d). list_all ok (block_content c)"
  shows "deep P (El ''div'' [(''data-ast-document'', js ''true'')] (map (BlockView e ns) d))"
proof -
  have "deep P (BlockView e ns b)" if "b \<in> set d" for b
    using assms that by (intro page_check.block_ok [OF assms(1)]) (auto simp: valid_document_def list_all_iff all_blocks_def)
  then show ?thesis
    using page_check.plain_deep [OF assms(1)] by (simp add: plain_def plain_keys_def list_all_iff)
qed



section \<open>Anchors of the table of contents\<close>

definition anchors :: "html \<Rightarrow> jstr set" where
  "anchors x = {i. \<exists>n \<in> set (html_nodes x). attr n ''id'' = Some i}"

lemma anchors_simps [simp]:
  "anchors (Txt s) = {}"
  "anchors (El t as ks) = (case map_of as ''id'' of None \<Rightarrow> {} | Some i \<Rightarrow> {i}) \<union> (\<Union>k \<in> set ks. anchors k)"
  by (auto simp: anchors_def split: option.splits)

definition heading_ids :: "block \<Rightarrow> jstr set" where
  "heading_ids b = {block_id h | h. h \<in> set (preorder b) \<and> kind_of h = ''heading''}"

lemma heading_ids_step:
  "heading_ids b = (if kind_of b = ''heading'' then {block_id b} else {}) \<union> (\<Union>c \<in> set (block_children b). heading_ids c)"
  by (auto simp: heading_ids_def preorder.simps [of b])

lemma anchors_mapi:
  assumes "\<And>i x. x \<in> set xs \<Longrightarrow> g x \<subseteq> anchors (f i x)"
  shows "(\<Union>x \<in> set xs. g x) \<subseteq> (\<Union>k \<in> set (mapi f xs). anchors k)"
proof
  fix i assume "i \<in> (\<Union>x \<in> set xs. g x)"
  then obtain j where "j < length xs" "i \<in> g (xs ! j)" by (auto simp: in_set_conv_nth)
  then have "f j (xs ! j) \<in> set (mapi f xs)" "i \<in> anchors (f j (xs ! j))"
    using assms [of "xs ! j" j] by (force simp: mapi_def in_set_enumerate_eq)+
  then show "i \<in> (\<Union>k \<in> set (mapi f xs). anchors k)" by blast
qed

lemma row_anchors: "(\<Union>content \<in> set cells. \<Union>k \<in> set content. anchors k) \<subseteq> anchors (TableRowView i columnHeader rowHeader cells)"
proof -
  let ?cell = "\<lambda>j content. let header = columnHeader \<or> (rowHeader \<and> j = 0) in El (if header then ''th'' else ''td'')
      ((if header then [(''scope'', if columnHeader then js ''col'' else js ''row'')] else []) @
       [(''data-row'', nat_str i), (''data-column'', nat_str j)]) content"
  have "(\<Union>content \<in> set cells. \<Union>k \<in> set content. anchors k) \<subseteq> (\<Union>k \<in> set (mapi ?cell cells). anchors k)"
    by (rule anchors_mapi) (auto simp: Let_def)
  then show ?thesis by (simp add: TableRowView_def)
qed

lemma table_anchors:
  "(\<Union>row \<in> set rows. \<Union>content \<in> set row. \<Union>k \<in> set content. anchors k) \<subseteq> anchors (TableView cap h r rows)"
proof -
  define g where "g = (\<lambda>row. \<Union>content \<in> set row. \<Union>k \<in> set content. anchors k)"
  have row: "g row \<subseteq> anchors (TableRowView i hd1 hd2 row)" for i hd1 hd2 row
    unfolding g_def by (rule row_anchors)
  have body: "(\<Union>row \<in> set xs. g row) \<subseteq> (\<Union>x \<in> set (mapi (\<lambda>i row. TableRowView (i + k) False r row) xs). anchors x)" for xs k
    by (rule anchors_mapi) (rule row)
  have "(\<Union>row \<in> set rows. g row) \<subseteq> anchors (TableView cap h r rows)"
  proof (cases "h \<and> rows \<noteq> []")
    case True
    then obtain first rest where rows: "rows = first # rest" by (cases rows) auto
    have "anchors (TableRowView 0 True r first) \<union>
        (\<Union>x \<in> set (mapi (\<lambda>i row. TableRowView (i + 1) False r row) rest). anchors x) \<subseteq> anchors (TableView cap h r rows)"
      using True by (auto simp: TableView_def Let_def rows)
    with row [of first 0 True r] body [of rest 1] show ?thesis unfolding rows list.set UN_insert by blast
  next
    case False
    have "(\<Union>x \<in> set (mapi (\<lambda>i row. TableRowView (i + 0) False r row) rows). anchors x) \<subseteq> anchors (TableView cap h r rows)"
      using False by (auto simp: TableView_def Let_def mapi_def)
    with body [of rows 0] show ?thesis by blast
  qed
  then show ?thesis by (simp add: g_def)
qed

lemma heading_anchors: "valid_block z b \<Longrightarrow> heading_ids b \<subseteq> anchors (BlockView e ns b)"
proof (induction "size b" arbitrary: b rule: less_induct)
  case less
  have below: "heading_ids c \<subseteq> anchors (BlockView e ns c)" if "c \<in> set (block_children b)" for c
    using that valid_children [OF less.prems that] by (intro less.hyps size_block_children)
  show ?case
  proof (cases b)
    case (Table i cap h r k)
    have "heading_ids b \<subseteq> (\<Union>row \<in> set k. \<Union>cell \<in> set (block_children row). \<Union>c \<in> set (block_children cell). heading_ids c)"
    proof -
      have row: "kind_of row = ''table_row'' \<and> valid_block z row" if "row \<in> set k" for row
        using less.prems that by (simp add: Table list_all_iff)
      have cell: "kind_of cell = ''table_cell''" if "row \<in> set k" "cell \<in> set (block_children row)" for row cell
        using row [OF that(1)] that(2) by (cases row) (simp_all add: list_all_iff)
      have "i \<in> (\<Union>row \<in> set k. \<Union>cell \<in> set (block_children row). \<Union>c \<in> set (block_children cell). heading_ids c)"
        if i: "i \<in> heading_ids b" for i
      proof -
        obtain row where r: "row \<in> set k" "i \<in> heading_ids row"
          using i heading_ids_step [of b] by (auto simp: Table)
        obtain cell where c: "cell \<in> set (block_children row)" "i \<in> heading_ids cell"
          using r row heading_ids_step [of row] by auto
        obtain x where "x \<in> set (block_children cell)" "i \<in> heading_ids x"
          using c cell [OF r(1) c(1)] heading_ids_step [of cell] by auto
        with r c show ?thesis by blast
      qed
      then show ?thesis by blast
    qed
    also have "\<dots> \<subseteq> (\<Union>row \<in> set k. \<Union>cell \<in> set (block_children row). \<Union>c \<in> set (block_children cell). anchors (BlockView e ns c))"
    proof -
      have cells: "heading_ids c \<subseteq> anchors (BlockView e ns c)" if "row \<in> set k" "cell \<in> set (block_children row)" "c \<in> set (block_children cell)"
        for row cell c
      proof (rule less.hyps)
        show "size c < size b" using size_table_cell [OF that] by (simp add: Table)
        have "valid_block z row" using valid_children [OF less.prems, of row] that(1) by (simp add: Table)
        from valid_children [OF valid_children [OF this that(2)] that(3)] show "valid_block z c" .
      qed
      show ?thesis by (intro UN_mono order_refl cells)
    qed
    also have "\<dots> \<subseteq> anchors (BlockView e ns b)"
      using table_anchors [of "map (\<lambda>row. map (\<lambda>cell. map (BlockView e ns) (block_children cell)) (block_children row)) k" cap "h = Some True" "r = Some True"]
      by (simp add: Table)
    finally show ?thesis .
  next
    case (Heading i l t c k)
    then show ?thesis
      using below [THEN subsetD] less.prems
      by (subst heading_ids_step) (auto simp: HeadingView_def Let_def kids_def split: option.splits)
  qed (use below [THEN subsetD] heading_ids_step [of b] in \<open>auto simp: kids_def split: option.splits\<close>)
qed

text \<open>C19: every entry of the table of contents leads to an element of the rendered page.\<close>

theorem toc_entries_resolve:
  assumes "valid_document z d" "entry \<in> set (extractToc d)"
  shows "\<exists>n \<in> set (html_nodes (AstDocument e order d)). attr n ''id'' = Some (toc_id entry)"
proof -
  have "entry_data entry \<in> set (concat (map heading_entry (all_blocks d)))"
    using toc_headings assms(2) by (metis in_set_conv_nth image_eqI length_map list.set_map)
  then obtain b where "b \<in> set d" "toc_id entry \<in> heading_ids b"
    by (force simp: heading_ids_def entry_data_def heading_entry_def all_blocks_def split: block.splits)
  then have "toc_id entry \<in> anchors (AstDocument e order d)"
    using heading_anchors assms(1) by (fastforce simp: AstDocument_def Let_def valid_document_def list_all_iff)
  then show ?thesis by (auto simp: anchors_def)
qed

lemma toc_entries_resolve_witness:
  "\<exists>entry n. extractToc sample_article = [entry] \<and>
     n \<in> set (html_nodes (AstDocument sample_render None sample_article)) \<and> attr n ''id'' = Some (toc_id entry)"
proof -
  obtain entry where "extractToc sample_article = [entry]"
    using toc_headings [of sample_article]
    by (auto simp: sample_article_def all_blocks_def preorder.simps heading_entry_def)
  moreover then have "\<exists>n \<in> set (html_nodes (AstDocument sample_render None sample_article)). attr n ''id'' = Some (toc_id entry)"
    by (intro toc_entries_resolve [OF sample_article_valid]) simp
  ultimately show ?thesis by blast
qed

section \<open>Numbers of citations\<close>

text \<open>The citations of a document in order, and each at its first use.\<close>

definition cites_of :: "inline list \<Rightarrow> jstr list" where
  "cites_of c = concat (map (\<lambda>n. case n of CitationReference c t \<Rightarrow> [c] | _ \<Rightarrow> []) c)"

definition cited :: "document \<Rightarrow> jstr list" where
  "cited d = concat (map (\<lambda>b. cites_of (block_content b)) (all_blocks d))"

definition first_uses :: "'a list \<Rightarrow> 'a list" where
  "first_uses xs = rev (remdups (rev xs))"

definition numbered :: "jstr list \<Rightarrow> citation_numbers" where
  "numbered cs = zip cs (map Suc [0..<length cs])"

definition add_citation :: "jstr \<Rightarrow> citation_numbers \<Rightarrow> citation_numbers" where
  "add_citation c numbers = (if c \<in> fst ` set numbers then numbers else assoc_put c (length numbers + 1) numbers)"

lemma fold_concat: "fold f (concat xss) s = fold (fold f) xss s"
  by (induction xss arbitrary: s) simp_all

lemma fold_contents: "fold number_citation c ns = fold add_citation (cites_of c) ns"
  by (induction c arbitrary: ns) (auto simp: cites_of_def number_citation_def add_citation_def split: inline.split)

lemma fold_through:
  "(\<And>b m. b \<in> set bs \<Longrightarrow> f b m = fold g (h b) m) \<Longrightarrow> fold f bs ns = fold g (concat (map h bs)) ns"
  by (induction bs arbitrary: ns) simp_all

lemma visit_preorder: "visit_block b ns = fold (\<lambda>b. fold number_citation (block_content b)) (preorder b) ns"
proof (induction b arbitrary: ns rule: preorder.induct)
  case (1 b)
  show ?case
    unfolding visit_block.simps [of b] preorder.simps [of b] fold.simps comp_def by (rule fold_through) (rule 1)
qed

lemma collect_cited: "collectCitationNumbers d = fold add_citation (cited d) []"
proof -
  have "fold visit_block d [] = fold (\<lambda>b. fold number_citation (block_content b)) (all_blocks d) []"
    unfolding all_blocks_def by (rule fold_through) (rule visit_preorder)
  also have "\<dots> = fold add_citation (cited d) []"
    unfolding cited_def by (rule fold_through) (rule fold_contents)
  finally show ?thesis by (simp add: collectCitationNumbers_def)
qed

lemma first_uses_snoc: "first_uses (xs @ [x]) = (if x \<in> set xs then first_uses xs else first_uses xs @ [x])"
  by (simp add: first_uses_def)

lemma numbered_snoc: "numbered (cs @ [c]) = numbered cs @ [(c, Suc (length cs))]"
  by (simp add: numbered_def)

lemma numbered_keys: "fst ` set (numbered cs) = set cs"
  by (simp add: numbered_def flip: set_map)

lemma add_numbered: "fold add_citation cs [] = numbered (first_uses cs)"
proof (induction cs rule: rev_induct)
  case Nil
  then show ?case by (simp add: numbered_def first_uses_def)
next
  case (snoc c cs)
  have "set (first_uses cs) = set cs" by (simp add: first_uses_def)
  moreover have "length (numbered (first_uses cs)) = length (first_uses cs)" by (simp add: numbered_def)
  ultimately show ?case
    using snoc numbered_keys [of "first_uses cs"]
    by (auto simp: add_citation_def first_uses_snoc assoc_put_new numbered_snoc)
qed

definition cites_resolve :: "citation_numbers \<Rightarrow> html \<Rightarrow> bool" where
  "cites_resolve ns n \<longleftrightarrow> (\<forall>c. attr n ''data-citation-ref'' = Some c \<longrightarrow>
     (\<exists>k as a ks. map_of ns c = Some k \<and> n = El ''sup'' as (a # ks) \<and> attr a ''href'' = Some (js ''#cite-note-'' @ nat_str k)))"

lemma cites_marks: "deep (cites_resolve ns) (applyMarks t ms c g)"
proof -
  have "deep (cites_resolve ns) (fold (\<lambda>m out. El (mark_tag m) [] [out]) ms x)" if "deep (cites_resolve ns) x" for ms x
    using that by (induction ms arbitrary: x) (simp_all add: cites_resolve_def)
  then show ?thesis by (simp add: applyMarks_def Let_def cites_resolve_def)
qed

interpretation cites: page_check e ns "cites_resolve ns"
    "\<lambda>n. case n of CitationReference c t \<Rightarrow> c \<in> fst ` set ns | _ \<Rightarrow> True" for e ns
proof
  fix t as ks
  assume "plain t as"
  from plain_none [OF this, of "''data-citation-ref''"] show "cites_resolve ns (El t as ks)"
    by (simp add: cites_resolve_def plain_keys_def)
next
  fix n i j
  assume ok: "case n of CitationReference c t \<Rightarrow> c \<in> fst ` set ns | _ \<Rightarrow> True"
  show "deep (cites_resolve ns) (inline_view (r_urls e) ns i j n)"
  proof (cases n)
    case (CitationReference c t)
    then obtain k where "map_of ns c = Some k" using ok by simp (metis map_of_eq_None_iff not_None_eq)
    with CitationReference show ?thesis by (simp add: inline_view_def cites_resolve_def)
  qed (auto simp: inline_view_def cites_marks cites_resolve_def safe_or_def outside_link_def split: option.split)
qed (simp_all add: cites_resolve_def outside_link_def)

text \<open>C20: citations are numbered from 1 in the order of their first use, and every citation on the page links to
  the note of its number.\<close>

theorem citations_numbered:
  assumes "valid_document (r_urls e) d"
  shows "collectCitationNumbers d = numbered (first_uses (cited d)) \<and>
    (\<forall>n \<in> set (html_nodes (AstDocument e None d)). cites_resolve (collectCitationNumbers d) n)"
proof -
  have numbers: "collectCitationNumbers d = numbered (first_uses (cited d))"
    by (simp add: collect_cited add_numbered)
  have keys: "fst ` set (collectCitationNumbers d) = set (cited d)"
    by (simp add: numbers numbered_keys first_uses_def)
  have "deep (cites_resolve (collectCitationNumbers d)) (AstDocument e None d)"
    unfolding AstDocument_def Let_def option.case
  proof (intro page_ok [OF cites.page_check_axioms] assms ballI)
    fix b assume "b \<in> set (all_blocks d)"
    then have "set (cites_of (block_content b)) \<subseteq> fst ` set (collectCitationNumbers d)"
      unfolding keys by (auto simp: cited_def)
    then show "list_all (\<lambda>n. case n of CitationReference c t \<Rightarrow> c \<in> fst ` set (collectCitationNumbers d) | _ \<Rightarrow> True)
        (block_content b)"
      by (force simp: list_all_iff cites_of_def split: inline.split)
  qed
  with numbers show ?thesis by (simp add: deep_def)
qed

lemma citations_numbered_witness:
  "collectCitationNumbers sample_article = [(note_b, 1), (note_a, 2)] \<and>
   list_all (cites_resolve [(note_b, 1), (note_a, 2)]) (html_nodes (AstDocument sample_render None sample_article))"
proof -
  have "numbered (first_uses (cited sample_article)) = [(note_b, 1), (note_a, 2)]"
    by (simp add: sample_article_def cited_def all_blocks_def preorder.simps cites_of_def first_uses_def numbered_def
        note_a_def note_b_def js_eval)
  then show ?thesis
    using citations_numbered [OF sample_article_valid] by (auto simp: list_all_iff)
qed

text \<open>With numbers given from outside, a citation that has none is shown as, and linked to, the first note.\<close>

lemma unnumbered_citation:
  assumes "c \<notin> set order"
  shows "InlineNodes z (citationNumbersFromOrder order) i [CitationReference c t] =
    [InlineNodeView z 1 (Some (js ''cite-ref-'' @ i @ js ''-'' @ nat_str 0)) (CitationReference c t)]"
proof -
  have "map_of (fold (\<lambda>(j, x). assoc_put x (j + 1)) xs m) c = None"
    if "map_of m c = None" "c \<notin> snd ` set xs" for xs and m :: citation_numbers
    using that
  proof (induction xs arbitrary: m)
    case (Cons p xs)
    then show ?case by (cases p) (simp add: map_of_assoc_put)
  qed simp
  from this [of "[]" "enumerate 0 order"] assms show ?thesis
    by (simp add: InlineNodes_def mapi_def citationNumbersFromOrder_def in_set_enumerate_eq flip: set_map)
qed

end
