(* ===== verification/PageButton.thy ===== *)
theory PageButton
  imports PagePatch Render ClientUuid
begin

text \<open>
  \<open>components/page-button-runtime.tsx\<close>: what a click on a page button does. Its actions are read from the
  attributes of the element \<open>Render\<close> gives it, and run one after the other; an insertion becomes a change
  proposal whose operations are those of \<open>PagePatch\<close>.

  The run is a function of the state: the calls made so far, the block ids drawn and the state of
  \<open>clientUUID\<close>. \<open>button_env\<close> is what is outside of it: the answers of the server and of the person at the
  confirmation as functions of the calls made so far, with None where a request fails, and \<open>JSON.parse\<close>,
  \<open>atob\<close> (None where they throw) and \<open>TextDecoder\<close> of the host. \<open>toast\<close> is a call.
\<close>

section \<open>New ids for the blocks of an action\<close>

fun with_id :: "jstr \<Rightarrow> block \<Rightarrow> block" where
  "with_id j (Heading i l t c k) = Heading j l t c k"
| "with_id j (Paragraph i c) = Paragraph j c"
| "with_id j (BulletList i k) = BulletList j k"
| "with_id j (OrderedList i k) = OrderedList j k"
| "with_id j (ListItem i k) = ListItem j k"
| "with_id j (Table i c h r k) = Table j c h r k"
| "with_id j (TableRow i k) = TableRow j k"
| "with_id j (TableCell i k) = TableCell j k"
| "with_id j (CodeBlock i c l cap) = CodeBlock j c l cap"
| "with_id j (Preformatted i k c cap) = Preformatted j k c cap"
| "with_id j (Equation i x cap) = Equation j x cap"
| "with_id j (Todo i d c k) = Todo j d c k"
| "with_id j (Toggle i c k) = Toggle j c k"
| "with_id j (Breadcrumb i its) = Breadcrumb j its"
| "with_id j (ColumnList i k) = ColumnList j k"
| "with_id j (Column i w k) = Column j w k"
| "with_id j (Button i l c as) = Button j l c as"
| "with_id j (Html i h n cap) = Html j h n cap"
| "with_id j (Quote i k) = Quote j k"
| "with_id j (Callout i kd ic co k) = Callout j kd ic co k"
| "with_id j (Component i c v x d) = Component j c v x d"
| "with_id j (Image i a t cap) = Image j a t cap"
| "with_id j (Video i a p t cap) = Video j a p t cap"
| "with_id j (Audio i a t ar al du cap) = Audio j a t ar al du cap"
| "with_id j (File i a n cap) = File j a n cap"
| "with_id j (Pdf i a t s h cap) = Pdf j a t s h cap"
| "with_id j (Bookmark i u t d s cap) = Bookmark j u t d s cap"
| "with_id j (LinkPreview i u t d s) = LinkPreview j u t d s"
| "with_id j (Embed i u t p cap) = Embed j u t p cap"
| "with_id j (Divider i) = Divider j"

fun block_actions :: "block \<Rightarrow> block button_action list" where
  "block_actions (Button i l c as) = as"
| "block_actions _ = []"

fun set_actions :: "block button_action list \<Rightarrow> block \<Rightarrow> block" where
  "set_actions as (Button i l c _) = Button i l c as"
| "set_actions as b = b"

text \<open>\<open>for (const x of xs) f(x)\<close>, with the changed elements.\<close>

fun each :: "('a \<Rightarrow> 's \<Rightarrow> 'b \<times> 's) \<Rightarrow> 'a list \<Rightarrow> 's \<Rightarrow> 'b list \<times> 's" where
  "each f [] s = ([], s)"
| "each f (x # xs) s = (let (y, s) = f x s; (ys, s) = each f xs s in (y # ys, s))"

lemma each_cong [fundef_cong]:
  "xs = ys \<Longrightarrow> s = t \<Longrightarrow> (\<And>x u. x \<in> set ys \<Longrightarrow> f x u = g x u) \<Longrightarrow> each f xs s = each g ys t"
  by (induction xs arbitrary: ys s t) (auto split: prod.splits)

fun remap_action :: "('b \<Rightarrow> 's \<Rightarrow> 'b \<times> 's) \<Rightarrow> 'b button_action \<Rightarrow> 's \<Rightarrow> 'b button_action \<times> 's" where
  "remap_action f (InsertBlocks p bs) s = (let (bs, s) = each f bs s in (InsertBlocks p bs, s))"
| "remap_action f a s = (a, s)"

lemma remap_action_cong [fundef_cong]:
  "a = b \<Longrightarrow> s = t \<Longrightarrow> (\<And>x u. x \<in> set_button_action b \<Longrightarrow> f x u = g x u) \<Longrightarrow> remap_action f a s = remap_action g b t"
  by (cases b) (auto split: prod.splits cong: each_cong)

lemma size_block_action [termination_simp]:
  "a \<in> set (block_actions b) \<Longrightarrow> c \<in> set_button_action a \<Longrightarrow> size c < size b"
  by (cases b) (auto dest: size_button_action)

text \<open>
  \<open>remap\<close> on the block after \<open>structuredClone\<close>: its own id, then the blocks below it, then those of the
  actions of a button.
\<close>

fun remap :: "id_env \<Rightarrow> block \<Rightarrow> adapter \<Rightarrow> block \<times> adapter" where
  "remap env b s =
     (let (i, s) = newBlockId env s;
          (k, s) = each (remap env) (block_children b) s;
          (as, s) = each (remap_action (remap env)) (block_actions b) s;
          b = with_id i b
      in (set_actions as (if has_children b then set_children k b else b), s))"

declare remap.simps [simp del]

definition cloneBlockWithNewIDs :: "id_env \<Rightarrow> block \<Rightarrow> adapter \<Rightarrow> block \<times> adapter" where
  "cloneBlockWithNewIDs env b s = remap env b s"

section \<open>Calls\<close>

datatype call =
    GetPageByID jstr
  | CreateProposal jstr jsval
  | AddProposalOperation jstr jsval
  | SubmitProposal jstr
  | ExecutePageButtonWebhook jstr jstr nat jstr
  | Toast string jstr "jstr option"
  | Confirm jstr

record page_content =
  content_revision :: jstr
  content_ast :: jsval

record button_env =
  b_urls :: zenv
  b_ids :: id_env
  b_host :: "nat \<Rightarrow> uuid_host"
  b_parse :: "jstr \<Rightarrow> jsval option"
  b_atob :: "jstr \<Rightarrow> jstr option"
  b_decode :: "8 word list \<Rightarrow> jstr"
  b_page :: "call list \<Rightarrow> page_content option option"
  b_create :: "call list \<Rightarrow> jstr option"
  b_done :: "call list \<Rightarrow> bool"
  b_confirm :: "call list \<Rightarrow> bool"

record button_state =
  calls :: "call list"
  blockIds :: adapter
  uuids_drawn :: nat
  fallbackSequence :: nat

text \<open>A step that can throw keeps what it has done.\<close>

type_synonym 'a run = "button_state \<Rightarrow> 'a option \<times> button_state"

definition returns :: "'a \<Rightarrow> 'a run" where
  "returns x s = (Some x, s)"

definition followed :: "'a run \<Rightarrow> ('a \<Rightarrow> 'b run) \<Rightarrow> 'b run" where
  "followed m f s = (case m s of (Some x, s) \<Rightarrow> f x s | (None, s) \<Rightarrow> (None, s))"

definition request :: "(call list \<Rightarrow> 'a option) \<Rightarrow> call \<Rightarrow> 'a run" where
  "request answer c s = (let cs = calls s @ [c] in (answer cs, s\<lparr>calls := cs\<rparr>))"

definition acknowledged :: "button_env \<Rightarrow> call \<Rightarrow> unit run" where
  "acknowledged e = request (\<lambda>cs. if b_done e cs then Some () else None)"

definition toast :: "string \<Rightarrow> jstr \<Rightarrow> unit run" where
  "toast kind message = request (\<lambda>_. Some ()) (Toast kind message None)"

definition draw_uuid :: "button_env \<Rightarrow> jstr run" where
  "draw_uuid e s = (let (u, n) = clientUUID (b_host e (uuids_drawn s)) (fallbackSequence s)
     in (Some u, s\<lparr>uuids_drawn := uuids_drawn s + 1, fallbackSequence := n\<rparr>))"

definition clone_run :: "button_env \<Rightarrow> block \<Rightarrow> block run" where
  "clone_run e b s = (let (c, t) = cloneBlockWithNewIDs (b_ids e) b (blockIds s) in (Some c, s\<lparr>blockIds := t\<rparr>))"

fun for_each :: "('a \<Rightarrow> unit run) \<Rightarrow> 'a list \<Rightarrow> unit run" where
  "for_each f [] = returns ()"
| "for_each f (x # xs) = followed (f x) (\<lambda>_. for_each f xs)"

section \<open>Actions\<close>

record button_element =
  actionsJson :: "jstr option"
  actions_data :: "jstr option"
  confirmation :: "jstr option"
  element_block :: "jstr option"
  disabled :: bool
  aria_busy :: bool
  textContent :: jstr

definition url_alphabet :: "jstr \<Rightarrow> jstr" where
  "url_alphabet s = map (\<lambda>c. if c = 95 then 47 else c) (map (\<lambda>c. if c = 45 then 43 else c) s)"

definition decodeActions :: "button_env \<Rightarrow> button_element \<Rightarrow> block button_action list option" where
  "decodeActions e button =
     (let raw = or_else (actionsJson button) [];
          encoded = or_else (actions_data button) [];
          parsed = (if raw \<noteq> [] then b_parse e raw
            else if encoded = [] then None
            else case b_atob e (url_alphabet encoded) of
                None \<Rightarrow> None
              | Some t \<Rightarrow> b_parse e (b_decode e (map ucast t)))
      in case parsed of None \<Rightarrow> None
         | Some v \<Rightarrow> list_max 10 (list_min 1 (z_array (buttonActionSchema (b_urls e) (blockSchema (b_urls e))))) v)"

definition base_revision :: "page_content option \<Rightarrow> jstr option" where
  "base_revision content = (case content of None \<Rightarrow> None
     | Some c \<Rightarrow> if content_revision c = [] then None else Some (content_revision c))"

definition proposal_request :: "jstr \<Rightarrow> jstr option \<Rightarrow> jsval" where
  "proposal_request page base = JObj
     ([(js ''targetType'', JStr (js ''page'')), (js ''targetId'', JStr page),
       (case base of Some r \<Rightarrow> (js ''baseRevisionId'', JStr r) | None \<Rightarrow> (js ''baseStateVersion'', encode_int 0)),
       (js ''riskLevel'', JStr (js ''medium''))])"

text \<open>The set of reasons is written as the array the client sends for it.\<close>

definition insert_operation :: "jstr \<Rightarrow> jstr option \<Rightarrow> nat \<Rightarrow> block \<Rightarrow> jsval" where
  "insert_operation page base index block = JObj
     [(js ''schemaVersion'', encode_int 1),
      (js ''operationType'', JStr (js ''insert_block'')),
      (js ''base'', case base of Some r \<Rightarrow> JObj [(js ''revisionId'', JStr r)] | None \<Rightarrow> JObj [(js ''stateVersion'', encode_int 0)]),
      (js ''target'', JObj [(js ''pageId'', JStr page)]),
      (js ''expectedHash'', JNull),
      (js ''evidence'', JArr []),
      (js ''risk'', JObj [(js ''level'', JStr (js ''medium'')),
         (js ''reasons'', JArr [JStr (js ''confirmed page button inserts reviewed blocks'')])]),
      (js ''payload'', JObj [(js ''parent_block_id'', JNull), (js ''index'', encode_int (int index)),
         (js ''block'', encode_block block)])]"

definition page_blocks :: "button_env \<Rightarrow> page_content option \<Rightarrow> document run" where
  "page_blocks e content s = (case content of
       Some c \<Rightarrow> if truthy (content_ast c) then (parseDocument (b_urls e) (content_ast c), s) else (Some [], s)
     | None \<Rightarrow> (Some [], s))"

definition add_operation :: "button_env \<Rightarrow> jstr \<Rightarrow> jstr option \<Rightarrow> nat \<Rightarrow> jstr \<Rightarrow> nat \<times> block \<Rightarrow> unit run" where
  "add_operation e page base len proposal = (\<lambda>(offset, source).
     followed (clone_run e source) (\<lambda>block.
       acknowledged e (AddProposalOperation proposal (insert_operation page base (len + offset) block))))"

definition insertBlocks :: "button_env \<Rightarrow> jstr \<Rightarrow> block list \<Rightarrow> unit run" where
  "insertBlocks e page blocks =
     followed (request (b_page e) (GetPageByID page)) (\<lambda>content.
     followed (page_blocks e content) (\<lambda>document.
     followed (draw_uuid e) (\<lambda>key.
     followed (request (b_create e) (CreateProposal key (proposal_request page (base_revision content)))) (\<lambda>proposal.
     followed (for_each (add_operation e page (base_revision content) (length document) proposal) (enumerate 0 blocks)) (\<lambda>_.
     followed (acknowledged e (SubmitProposal proposal)) (\<lambda>_.
     toast ''success'' ([25554, 20837, 20869, 23481, 24050, 25552, 20132, 27835, 29702, 23457, 26680])))))))"

definition showNotification :: "jstr \<Rightarrow> tone option \<Rightarrow> unit run" where
  "showNotification message tone = toast (case tone of Some TSuccess \<Rightarrow> ''success'' | Some TInfo \<Rightarrow> ''info''
     | Some TWarning \<Rightarrow> ''warning'' | Some TError \<Rightarrow> ''error'' | _ \<Rightarrow> ''message'') message"

definition executeAction :: "button_env \<Rightarrow> jstr \<Rightarrow> jstr \<Rightarrow> nat \<times> block button_action \<Rightarrow> unit run" where
  "executeAction e pageId blockId = (\<lambda>(actionIndex, action). case action of
       InsertBlocks p bs \<Rightarrow> insertBlocks e p bs
     | UpdateDatasetRecord r x vs \<Rightarrow> toast ''warning'' ([36825, 20010, 26087, 25353, 38062, 25805, 20316,
      24050, 20572, 29992])
     | Notification m t \<Rightarrow> showNotification m t
     | Webhook u p \<Rightarrow>
         followed (draw_uuid e) (\<lambda>executionId.
         followed (acknowledged e (ExecutePageButtonWebhook pageId blockId actionIndex executionId)) (\<lambda>_.
         toast ''success'' ((js ''Webhook '' @ [24050, 36865, 36798])))))"

definition executeActions :: "button_env \<Rightarrow> jstr \<Rightarrow> jstr \<Rightarrow> block button_action list \<Rightarrow> unit run" where
  "executeActions e pageId blockId actions = for_each (executeAction e pageId blockId) (enumerate 0 actions)"

section \<open>Clicks\<close>

text \<open>
  \<open>button\<close> is what \<open>closest\<close> finds. The first half runs up to the execution and tells what to execute;
  while that is under way the button is disabled.
\<close>

definition default_question :: jstr where
  "default_question = [30830, 23450, 25191, 34892, 36825, 20010, 39029, 38754, 25353, 38062, 30340, 25805, 20316, 21527, 65311]"

definition failure_notice :: call where
  "failure_notice = Toast ''error'' ([39029, 38754, 25353, 38062, 25191, 34892, 22833, 36133])
     (Some ([25805, 20316, 24050, 20572, 27490, 65292, 21518, 32493, 21160, 20316, 26410, 25191, 34892, 12290]))"

definition click_begins :: "button_env \<Rightarrow> button_element \<Rightarrow> button_state \<Rightarrow>
    (block button_action list option \<times> button_element) \<times> button_state" where
  "click_begins e button s =
     (if disabled button then ((None, button), s)
      else case decodeActions e button of
        None \<Rightarrow> ((None, button), snd (toast ''error'' ([39029, 38754, 25353, 38062, 37197, 32622, 26080,
      25928]) s))
      | Some actions \<Rightarrow>
          (let (answer, s) = request (\<lambda>cs. Some (b_confirm e cs)) (Confirm (or_else (confirmation button) default_question)) s
           in if answer \<noteq> Some True then ((None, button), s)
              else ((Some actions, button\<lparr>disabled := True, aria_busy := True\<rparr>), s)))"

definition onClick :: "button_env \<Rightarrow> jstr \<Rightarrow> button_element option \<Rightarrow> button_state \<Rightarrow> button_element option \<times> button_state" where
  "onClick e pageId target s = (case target of None \<Rightarrow> (None, s)
     | Some button \<Rightarrow> (case click_begins e button s of
         ((None, button), s) \<Rightarrow> (Some button, s)
       | ((Some actions, button'), s) \<Rightarrow>
           (let (r, s) = executeActions e pageId (case element_block button' of None \<Rightarrow> [] | Some b \<Rightarrow> b) actions s;
                s = (if r = None then snd (request (\<lambda>_. Some ()) failure_notice s) else s)
            in (Some (button'\<lparr>disabled := False, aria_busy := False, textContent := textContent button\<rparr>), s))))"

section \<open>Copies of blocks\<close>

text \<open>Every block of a block, also in the actions of buttons, in the order of \<open>remap\<close>; and a block without its ids.\<close>

definition action_blocks :: "'b button_action \<Rightarrow> 'b list" where
  "action_blocks a = (case a of InsertBlocks p bs \<Rightarrow> bs | _ \<Rightarrow> [])"

lemma set_action_blocks [simp]: "set (action_blocks a) = set_button_action a"
  by (cases a) (simp_all add: action_blocks_def)

fun nested :: "block \<Rightarrow> block list" where
  "nested b = b # concat (map nested (block_children b)) @
     concat (map (\<lambda>a. concat (map nested (action_blocks a))) (block_actions b))"

fun blank :: "block \<Rightarrow> block" where
  "blank b = set_actions (map (map_button_action blank) (block_actions b))
     (if has_children b then set_children (map blank (block_children b)) (with_id [] b) else with_id [] b)"

declare nested.simps [simp del] blank.simps [simp del]

text \<open>\<open>renewed\<close>: the ids of what \<open>g\<close> finds in the copy are the ids drawn for it, as many as it finds in the original.\<close>

definition renewed :: "id_env \<Rightarrow> ('a \<Rightarrow> block list) \<Rightarrow> 'a \<Rightarrow> adapter \<Rightarrow> 'a \<Rightarrow> adapter \<Rightarrow> bool" where
  "renewed env g x s y t \<longleftrightarrow> map block_id (g y) = map (uuid_v7 env) [drawn s..<drawn t] \<and>
     drawn t = drawn s + length (g x) \<and> generatedIds t = generatedIds s"

lemma map_upt_append: "j \<le> k \<Longrightarrow> i \<le> j \<Longrightarrow> map f [i..<j] @ map f [j..<k] = map f [i..<k]"
  using upt_add_eq_append [of i j "k - j"] by (simp flip: map_append)

lemma has_children_with_id [simp]: "has_children (with_id i b) \<longleftrightarrow> has_children b"
  by (cases b) simp_all

lemma renewed_each:
  assumes "\<And>x s y t. x \<in> set xs \<Longrightarrow> f x s = (y, t) \<Longrightarrow> renewed env g x s y t" "each f xs s = (ys, t)"
  shows "renewed env (\<lambda>xs. concat (map g xs)) xs s ys t"
  using assms
proof (induction xs arbitrary: s ys)
  case Nil
  then show ?case by (simp add: renewed_def)
next
  case (Cons x xs)
  obtain y u where y: "f x s = (y, u)" by (cases "f x s")
  obtain zs where zs: "each f xs u = (zs, t)" "ys = y # zs"
    using Cons.prems(2) by (auto simp: y split: prod.splits)
  have "renewed env g x s y u" using Cons.prems(1) y by simp
  moreover have "renewed env (\<lambda>xs. concat (map g xs)) xs u zs t" using Cons zs by simp
  ultimately show ?case
    by (simp add: renewed_def zs(2) map_upt_append del: map_map upt_Suc)
qed

lemma renewed_action:
  assumes "\<And>x s y t. x \<in> set_button_action a \<Longrightarrow> f x s = (y, t) \<Longrightarrow> renewed env g x s y t" "remap_action f a s = (c, t)"
  shows "renewed env (\<lambda>a. concat (map g (action_blocks a))) a s c t"
proof (cases a)
  case (InsertBlocks p bs)
  then obtain cs where "each f bs s = (cs, t)" "c = InsertBlocks p cs"
    using assms(2) by (auto split: prod.splits)
  with renewed_each [of bs f env g s cs t] assms(1) InsertBlocks show ?thesis
    by (simp add: action_blocks_def renewed_def)
qed (use assms(2) in \<open>auto simp: renewed_def action_blocks_def\<close>)

lemma each_all2:
  assumes "\<And>x s y t. x \<in> set xs \<Longrightarrow> f x s = (y, t) \<Longrightarrow> R x y" "each f xs s = (ys, t)"
  shows "list_all2 R xs ys"
  using assms
proof (induction xs arbitrary: s ys)
  case (Cons x xs)
  then show ?case by (auto split: prod.splits)
qed simp

lemma action_rel:
  assumes "\<And>x s y t. x \<in> set_button_action a \<Longrightarrow> f x s = (y, t) \<Longrightarrow> R x y" "remap_action f a s = (c, t)"
  shows "rel_button_action R a c"
  using assms each_all2 [of _ f R] by (cases a) (auto split: prod.splits)

text \<open>The parts of a copy.\<close>

lemma remap_parts:
  assumes "remap env b s = (c, t)"
  obtains u k v as where "newBlockId env s = (uuid_v7 env (drawn s), u)" "drawn u = drawn s + 1" "generatedIds u = generatedIds s"
    "each (remap env) (block_children b) u = (k, v)" "each (remap_action (remap env)) (block_actions b) v = (as, t)"
    "c = set_actions as (if has_children b then set_children k (with_id (uuid_v7 env (drawn s)) b)
       else with_id (uuid_v7 env (drawn s)) b)"
proof -
  define u where "u = s\<lparr>drawn := drawn s + 1\<rparr>"
  have u: "newBlockId env s = (uuid_v7 env (drawn s), u)" "drawn u = drawn s + 1" "generatedIds u = generatedIds s"
    by (simp_all add: newBlockId_def u_def)
  obtain k v where k: "each (remap env) (block_children b) u = (k, v)" by (cases "each (remap env) (block_children b) u")
  obtain as w where as: "each (remap_action (remap env)) (block_actions b) v = (as, w)"
    by (cases "each (remap_action (remap env)) (block_actions b) v")
  show ?thesis
    using assms u k as by (intro that [of u k v as]) (simp_all add: remap.simps [of env b] Let_def)
qed

lemma rebuilt_parts:
  assumes "length k = length (block_children b)" "length as = length (block_actions b)"
    and "c = set_actions as (if has_children b then set_children k (with_id i b) else with_id i b)"
  shows "block_id c = i" "block_children c = k" "block_actions c = as" "kind_of c = kind_of b"
  using assms by (cases b; auto split: option.splits)+

lemma remap_rebuilt:
  assumes "remap env b s = (c, t)"
  shows "\<exists>k as. length k = length (block_children b) \<and> length as = length (block_actions b) \<and>
    c = set_actions as (if has_children b then set_children k (with_id (uuid_v7 env (drawn s)) b)
       else with_id (uuid_v7 env (drawn s)) b) \<and>
    list_all2 (\<lambda>x y. \<exists>s t. remap env x s = (y, t)) (block_children b) k \<and>
    list_all2 (rel_button_action (\<lambda>x y. \<exists>s t. remap env x s = (y, t))) (block_actions b) as"
  using assms
proof (cases rule: remap_parts)
  case (1 u k v as)
  have "list_all2 (\<lambda>x y. \<exists>s t. remap env x s = (y, t)) (block_children b) k"
    by (rule each_all2 [OF _ 1(4)]) blast
  moreover have "list_all2 (rel_button_action (\<lambda>x y. \<exists>s t. remap env x s = (y, t))) (block_actions b) as"
    by (rule each_all2 [OF _ 1(5)]) (rule action_rel, blast)
  moreover note list_all2_lengthD [OF calculation(1)] list_all2_lengthD [OF calculation(2)]
  ultimately show ?thesis using 1(6) by (intro exI [of _ k] exI [of _ as]) simp
qed

lemma remap_renewed: "remap env b s = (c, t) \<Longrightarrow> renewed env nested b s c t"
proof (induction "size b" arbitrary: b s c t rule: less_induct)
  case less
  from less.prems show ?case
  proof (cases rule: remap_parts)
    case (1 u k v as)
    have k: "renewed env (\<lambda>bs. concat (map nested bs)) (block_children b) u k v"
      by (rule renewed_each [OF _ 1(4)]) (rule less.hyps, simp_all add: size_block_children)
    have as: "renewed env (\<lambda>as. concat (map (\<lambda>a. concat (map nested (action_blocks a))) as)) (block_actions b) v as t"
      by (rule renewed_each [OF _ 1(5)], rule renewed_action, rule less.hyps) (auto dest: size_block_action)
    from each_all2 [OF _ 1(4), of "\<lambda>_ _. True"] each_all2 [OF _ 1(5), of "\<lambda>_ _. True"]
    have len: "length k = length (block_children b)" "length as = length (block_actions b)"
      by (auto dest: list_all2_lengthD)
    note parts = rebuilt_parts [OF len 1(6)]
    have le: "drawn u \<le> drawn v" "drawn v \<le> drawn t" using k as by (simp_all add: renewed_def)
    have "map block_id (nested c) = uuid_v7 env (drawn s) # map (uuid_v7 env) [drawn u..<drawn v] @ map (uuid_v7 env) [drawn v..<drawn t]"
      using k as by (simp add: nested.simps [of c] parts renewed_def)
    also have "\<dots> = uuid_v7 env (drawn s) # map (uuid_v7 env) [drawn u..<drawn t]"
      by (simp only: map_upt_append [OF le(2,1)])
    also have "\<dots> = map (uuid_v7 env) [drawn s..<drawn t]"
      using le 1(2) by (simp add: upt_conv_Cons)
    finally show ?thesis
      using k as 1(2,3) by (simp add: renewed_def nested.simps [of b])
  qed
qed

lemma rebuilt_shell:
  assumes "length k = length (block_children b)" "length as = length (block_actions b)"
    and "c = set_actions as (if has_children b then set_children k (with_id i b) else with_id i b)"
  shows "set_actions xs (if has_children c then set_children ks (with_id j c) else with_id j c) =
    set_actions xs (if has_children b then set_children ks (with_id j b) else with_id j b)"
  using assms by (cases b) simp_all

lemma all2_map: "list_all2 R xs ys \<Longrightarrow> (\<And>x y. x \<in> set xs \<Longrightarrow> R x y \<Longrightarrow> g y = g x) \<Longrightarrow> map g ys = map g xs"
  by (induction rule: list_all2_induct) simp_all

lemma all2_all:
  "list_all2 R xs ys \<Longrightarrow> (\<And>x y. x \<in> set xs \<Longrightarrow> R x y \<Longrightarrow> P x \<Longrightarrow> P y) \<Longrightarrow> list_all P xs \<Longrightarrow> list_all P ys"
  by (induction rule: list_all2_induct) auto

lemma action_map:
  assumes "rel_button_action R a c" "\<And>x y. x \<in> set_button_action a \<Longrightarrow> R x y \<Longrightarrow> g y = g x"
  shows "map_button_action g c = map_button_action g a"
  using assms all2_map [of R _ _ g] by (cases a; cases c) simp_all

lemma action_valid:
  assumes "rel_button_action R a c" "\<And>x y. x \<in> set_button_action a \<Longrightarrow> R x y \<Longrightarrow> valid_block z x \<Longrightarrow> valid_block z y"
    and "valid_action z (map_button_action (valid_block z) a)"
  shows "valid_action z (map_button_action (valid_block z) c)"
  using assms all2_all [of R _ _ "valid_block z"] list_all2_lengthD [of R]
  by (cases a; cases c) (simp_all add: len_in_def list.pred_map comp_def)

lemma remap_blank: "remap env b s = (c, t) \<Longrightarrow> blank c = blank b"
proof (induction "size b" arbitrary: b s c t rule: less_induct)
  case less
  obtain k as where len: "length k = length (block_children b)" "length as = length (block_actions b)"
    and c: "c = set_actions as (if has_children b then set_children k (with_id (uuid_v7 env (drawn s)) b)
       else with_id (uuid_v7 env (drawn s)) b)"
    and k: "list_all2 (\<lambda>x y. \<exists>s t. remap env x s = (y, t)) (block_children b) k"
    and as: "list_all2 (rel_button_action (\<lambda>x y. \<exists>s t. remap env x s = (y, t))) (block_actions b) as"
    using remap_rebuilt [OF less.prems] by blast
  have "map blank k = map blank (block_children b)"
    by (rule all2_map [OF k]) (use less.hyps size_block_children in blast)
  moreover have "map (map_button_action blank) as = map (map_button_action blank) (block_actions b)"
    by (rule all2_map [OF as], rule action_map, assumption) (use less.hyps size_block_action in blast)
  ultimately show ?case
    using rebuilt_parts [OF len c] rebuilt_shell [OF len c]
    by (simp add: blank.simps [of c] blank.simps [of b])
qed

lemma remap_kind: "remap env b s = (c, t) \<Longrightarrow> kind_of c = kind_of b"
  using remap_rebuilt rebuilt_parts(4) by metis

lemma valid_rebuilt:
  assumes "valid_block z b" "length k = length (block_children b)" "length as = length (block_actions b)"
    and "c = set_actions as (if has_children b then set_children k (with_id i b) else with_id i b)"
    and "z_uuid z i" "list_all (valid_block z) k" "map kind_of k = map kind_of (block_children b)"
    and "list_all (\<lambda>a. valid_action z (map_button_action (valid_block z) a)) as"
  shows "valid_block z c"
proof -
  have kinds: "list_all (\<lambda>c. kind_of c = t) k \<longleftrightarrow> list_all (\<lambda>c. kind_of c = t) (block_children b)" for t
    using assms(7) by (metis (mono_tags, lifting) list.pred_map comp_def list.pred_cong)
  show ?thesis
    using assms kinds by (cases b) (auto simp: len_in_def split: option.splits)
qed

lemma remap_valid:
  assumes uuid: "\<And>n. z_uuid z (uuid_v7 env n)"
  shows "remap env b s = (c, t) \<Longrightarrow> valid_block z b \<Longrightarrow> valid_block z c"
proof (induction "size b" arbitrary: b s c t rule: less_induct)
  case less
  obtain k as where len: "length k = length (block_children b)" "length as = length (block_actions b)"
    and c: "c = set_actions as (if has_children b then set_children k (with_id (uuid_v7 env (drawn s)) b)
       else with_id (uuid_v7 env (drawn s)) b)"
    and k: "list_all2 (\<lambda>x y. \<exists>s t. remap env x s = (y, t)) (block_children b) k"
    and as: "list_all2 (rel_button_action (\<lambda>x y. \<exists>s t. remap env x s = (y, t))) (block_actions b) as"
    using remap_rebuilt [OF less.prems(1)] by blast
  have "list_all (valid_block z) k"
  proof (rule all2_all [OF k])
    show "list_all (valid_block z) (block_children b)"
      using valid_children [OF less.prems(2)] by (simp add: list_all_iff)
  qed (use less.hyps size_block_children in blast)
  moreover have "map kind_of k = map kind_of (block_children b)"
    by (rule all2_map [OF k]) (use remap_kind in blast)
  moreover have "list_all (\<lambda>a. valid_action z (map_button_action (valid_block z) a)) as"
  proof (rule all2_all [OF as])
    show "list_all (\<lambda>a. valid_action z (map_button_action (valid_block z) a)) (block_actions b)"
      using less.prems(2) by (cases b) simp_all
  qed (rule action_valid, assumption, use less.hyps size_block_action in blast)
  ultimately show ?case using valid_rebuilt [OF less.prems(2) len c uuid] by blast
qed

section \<open>Proposals\<close>

lemma followed_Some:
  "followed m f s = (Some y, t) \<longleftrightarrow> (\<exists>x u. m s = (Some x, u) \<and> f x u = (Some y, t))"
  by (auto simp: followed_def split: prod.splits option.splits)

lemma request_Some: "request answer c s = (Some x, t) \<longleftrightarrow> answer (calls s @ [c]) = Some x \<and> t = s\<lparr>calls := calls s @ [c]\<rparr>"
  by (auto simp: request_def Let_def)

lemma parse_valid: "valid_block z b \<Longrightarrow> parseBlock z (encode_block b) = Inr b"
  using document_complete [of z "[b]"]
  by (simp add: parseBlock_def parseDocument_def encode_document_def valid_document_def)

lemma insert_appends:
  assumes "valid_block z b"
  shows "applyOperation z (insert_operation p base (length d) b) d = Inr (d @ [b])"
  using assms
  by (simp add: applyOperation_def insert_operation_def Let_def field_of_def nullish_def insert_at_def findContainer_def
      payloadField_def integerIndex_def parse_valid js_splice_def encode_int_def js_eval)

text \<open>The operations of a proposal among calls.\<close>

definition operations_of :: "jstr \<Rightarrow> call list \<Rightarrow> jsval list" where
  "operations_of proposal cs = concat (map (\<lambda>c. case c of AddProposalOperation p v \<Rightarrow> if p = proposal then [v] else [] | _ \<Rightarrow> []) cs)"

lemma operations_simps [simp]:
  "operations_of proposal [] = []"
  "operations_of proposal (cs @ cs') = operations_of proposal cs @ operations_of proposal cs'"
  by (simp_all add: operations_of_def)

lemma add_operations:
  assumes uuid: "\<And>n. z_uuid z (uuid_v7 (b_ids e) n)"
    and "for_each (add_operation e page base len proposal) (enumerate i bs) s = (Some (), t)"
    and "list_all (valid_block z) bs" "length d = len + i"
  shows "\<exists>cs copies. calls t = calls s @ cs \<and> list_all (valid_block z) copies \<and>
    each (cloneBlockWithNewIDs (b_ids e)) bs (blockIds s) = (copies, blockIds t) \<and>
    (\<forall>records. map operation records = operations_of proposal cs \<longrightarrow> apply_records z [] records d = Inr (d @ copies))"
  using assms(2-)
proof (induction bs arbitrary: i s d)
  case Nil
  then show ?case by (simp add: returns_def)
next
  case (Cons b bs)
  obtain c w where c: "cloneBlockWithNewIDs (b_ids e) b (blockIds s) = (c, w)" by (cases "cloneBlockWithNewIDs (b_ids e) b (blockIds s)")
  have v: "valid_block z c" using remap_valid [OF uuid] c Cons.prems(2) by (auto simp: cloneBlockWithNewIDs_def)
  let ?call = "AddProposalOperation proposal (insert_operation page base (len + i) c)"
  obtain u where u: "u = s\<lparr>blockIds := w, calls := calls s @ [?call]\<rparr>"
    and rest: "for_each (add_operation e page base len proposal) (enumerate (Suc i) bs) u = (Some (), t)"
    using Cons.prems(1)
    by (auto simp: followed_Some add_operation_def clone_run_def c acknowledged_def request_Some split: if_splits)
  obtain cs copies where IH: "calls t = calls u @ cs" "list_all (valid_block z) copies"
      "each (cloneBlockWithNewIDs (b_ids e)) bs (blockIds u) = (copies, blockIds t)"
      "\<forall>records. map operation records = operations_of proposal cs \<longrightarrow> apply_records z [] records (d @ [c]) = Inr ((d @ [c]) @ copies)"
    using Cons.IH [OF rest, of "d @ [c]"] Cons.prems(2,3) by auto
  have first: "applyOperation z (insert_operation page base (len + i) c) d = Inr (d @ [c])"
    using insert_appends [OF v, of page base d] Cons.prems(3) by simp
  have "\<not> skipped [] x" for x by (simp add: skipped_def split: jsval.splits)
  then have "apply_records z [] records d = Inr (d @ c # copies)"
    if "map operation records = operations_of proposal (?call # cs)" for records
    using that IH(4) first by (cases records) (auto simp: operations_of_def)
  then show ?case
    using IH(1-3) v c u by (intro exI [of _ "?call # cs"] exI [of _ "c # copies"]) simp
qed

section \<open>Properties\<close>

text \<open>C29: a copy of a block is the block except for its ids, and so valid; every block in it, also in the
  actions of buttons, has an id of its own that was never handed out before.\<close>

theorem clone_fresh:
  assumes "cloneBlockWithNewIDs env b s = (c, t)" "valid_block z b" "\<forall>n. z_uuid z (uuid_v7 env n)"
    and "inj_on (uuid_v7 env) {..<drawn t}"
  shows "blank c = blank b \<and> valid_block z c \<and> length (nested c) = length (nested b) \<and>
    distinct (map block_id (nested c)) \<and> block_id ` set (nested c) \<inter> uuid_v7 env ` {..<drawn s} = {}"
proof -
  have copy: "remap env b s = (c, t)" using assms(1) by (simp add: cloneBlockWithNewIDs_def)
  have new: "map block_id (nested c) = map (uuid_v7 env) [drawn s..<drawn t]" "drawn t = drawn s + length (nested b)"
    using remap_renewed [OF copy] by (simp_all add: renewed_def)
  have "distinct (map block_id (nested c))"
    unfolding new(1) distinct_map using assms(4) by (auto intro: inj_on_subset)
  moreover have "block_id ` set (nested c) = uuid_v7 env ` {drawn s..<drawn t}"
    using arg_cong [OF new(1), of set] by simp
  moreover have "uuid_v7 env ` {drawn s..<drawn t} \<inter> uuid_v7 env ` {..<drawn s} = {}"
    using assms(4) new(2) by (fastforce simp: inj_on_eq_iff)
  moreover have "length (nested c) = length (nested b)" using arg_cong [OF new(1), of length] new(2) by simp
  ultimately show ?thesis
    using remap_blank [OF copy] remap_valid [OF _ copy assms(2)] assms(3) by simp
qed

lemma each_copies:
  assumes "each (cloneBlockWithNewIDs env) bs s = (cs, t)"
  shows "map blank cs = map blank bs" "map block_id (concat (map nested cs)) = map (uuid_v7 env) [drawn s..<drawn t]"
proof -
  show "map blank cs = map blank bs"
    by (rule all2_map [where R = "\<lambda>x y. blank y = blank x"], rule each_all2 [OF _ assms])
      (simp_all add: cloneBlockWithNewIDs_def remap_blank)
  show "map block_id (concat (map nested cs)) = map (uuid_v7 env) [drawn s..<drawn t]"
    using renewed_each [of bs "cloneBlockWithNewIDs env" env nested s cs t] assms remap_renewed
    by (simp add: cloneBlockWithNewIDs_def renewed_def)
qed

lemma insert_parts:
  assumes "insertBlocks e page bs s = (Some (), t)"
  obtains content d key u proposal w m
  where "b_page e (calls s @ [GetPageByID page]) = Some content" "\<And>s'. page_blocks e content s' = (Some d, s')"
    and "blockIds u = blockIds s"
    and "calls u = calls s @ [GetPageByID page, CreateProposal key (proposal_request page (base_revision content))]"
    and "for_each (add_operation e page (base_revision content) (length d) proposal) (enumerate 0 bs) u = (Some (), w)"
    and "t = w\<lparr>calls := calls w @ [SubmitProposal proposal, m]\<rparr>" "\<And>p x. m \<noteq> AddProposalOperation p x"
proof -
  let ?s1 = "s\<lparr>calls := calls s @ [GetPageByID page]\<rparr>"
  obtain content d key v proposal w
    where content: "b_page e (calls s @ [GetPageByID page]) = Some content"
      and d: "page_blocks e content ?s1 = (Some d, ?s1)"
      and key: "draw_uuid e ?s1 = (Some key, v)"
      and ops: "for_each (add_operation e page (base_revision content) (length d) proposal) (enumerate 0 bs)
        (v\<lparr>calls := calls v @ [CreateProposal key (proposal_request page (base_revision content))]\<rparr>) = (Some (), w)"
      and t: "\<exists>m. t = w\<lparr>calls := calls w @ [SubmitProposal proposal, m]\<rparr> \<and> (\<forall>p x. m \<noteq> AddProposalOperation p x)"
    using assms
    by (fastforce simp: insertBlocks_def followed_Some request_Some acknowledged_def toast_def page_blocks_def
        split: option.splits if_splits)
  have "calls v = calls ?s1" "blockIds v = blockIds s"
    using key by (auto simp: draw_uuid_def split: prod.splits)
  moreover have "page_blocks e content s' = (Some d, s')" for s'
    using d by (auto simp: page_blocks_def split: option.splits if_splits)
  ultimately show ?thesis using t by (auto intro!: that [OF content _ _ _ ops])
qed

text \<open>C8: what a button inserts is a proposal that, applied to the page it was made for, leaves the page as it is
  and appends copies of the blocks of the action in their order; the copies have new ids.\<close>

theorem button_proposal_appends:
  assumes "insertBlocks e page bs s = (Some (), t)" "list_all (valid_block (b_urls e)) bs"
    and "url_pure (b_urls e)" "\<forall>n. z_uuid (b_urls e) (uuid_v7 (b_ids e) n)"
  shows "\<exists>content d proposal more copies.
    b_page e (calls s @ [GetPageByID page]) = Some content \<and> fst (page_blocks e content s) = Some d \<and>
    calls t = calls s @ more \<and> SubmitProposal proposal \<in> set more \<and>
    map blank copies = map blank bs \<and>
    map block_id (concat (map nested copies)) = map (uuid_v7 (b_ids e)) [drawn (blockIds s)..<drawn (blockIds t)] \<and>
    (\<forall>records. map operation (sort_key sequence_no records) = operations_of proposal more \<longrightarrow>
       applyPageProposalOperations (b_urls e) d records [] = Inr (d @ copies))"
proof -
  obtain content d key u proposal w m
    where content: "b_page e (calls s @ [GetPageByID page]) = Some content" "\<And>s'. page_blocks e content s' = (Some d, s')"
      and u: "blockIds u = blockIds s"
        "calls u = calls s @ [GetPageByID page, CreateProposal key (proposal_request page (base_revision content))]"
      and ops: "for_each (add_operation e page (base_revision content) (length d) proposal) (enumerate 0 bs) u = (Some (), w)"
      and t: "t = w\<lparr>calls := calls w @ [SubmitProposal proposal, m]\<rparr>" "\<And>p x. m \<noteq> AddProposalOperation p x"
    using insert_parts [OF assms(1)] by metis
  have dv: "valid_document (b_urls e) d"
    using content(2) [of s] by (auto simp: page_blocks_def valid_document_def split: option.splits if_splits dest: document_gives [OF assms(3)])
  obtain cs copies where cs: "calls w = calls u @ cs" "list_all (valid_block (b_urls e)) copies"
      "each (cloneBlockWithNewIDs (b_ids e)) bs (blockIds u) = (copies, blockIds w)"
      "\<forall>records. map operation records = operations_of proposal cs \<longrightarrow>
         apply_records (b_urls e) [] records d = Inr (d @ copies)"
    using add_operations [OF _ ops assms(2), of d] assms(4) by auto
  let ?more = "[GetPageByID page, CreateProposal key (proposal_request page (base_revision content))] @ cs @ [SubmitProposal proposal, m]"
  have "operations_of proposal ?more = operations_of proposal cs"
    using t(2) by (cases m) (auto simp: operations_of_def)
  moreover have "parseDocument (b_urls e) (encode_document (d @ copies)) = Some (d @ copies)"
    using dv cs(2) by (intro document_complete) (simp add: valid_document_def)
  ultimately have "\<forall>records. map operation (sort_key sequence_no records) = operations_of proposal ?more \<longrightarrow>
      applyPageProposalOperations (b_urls e) d records [] = Inr (d @ copies)"
    using cs(4) by (auto simp: applyPageProposalOperations_def of_option_def)
  moreover have "calls t = calls s @ ?more" "blockIds t = blockIds w" using t(1) cs(1) u by simp_all
  moreover have "fst (page_blocks e content s) = Some d" using content(2) by simp
  moreover have "SubmitProposal proposal \<in> set ?more" by simp
  ultimately show ?thesis
    using content(1) each_copies [OF cs(3)] u(1) by metis
qed

text \<open>Actions that complete one after the other, from a number on.\<close>

inductive completes :: "button_env \<Rightarrow> jstr \<Rightarrow> jstr \<Rightarrow> nat \<Rightarrow> block button_action list \<Rightarrow> button_state \<Rightarrow> button_state \<Rightarrow> bool"
  for e page block where
  none: "completes e page block n [] s s"
| one: "executeAction e page block (n, a) s = (Some (), u) \<Longrightarrow> completes e page block (Suc n) as u t \<Longrightarrow>
    completes e page block n (a # as) s t"

inductive_simps completes_simps [simp]: "completes e page block n [] s t" "completes e page block n (a # as) s t"

lemma completes_first:
  "completes e page block n as s u \<Longrightarrow>
   for_each (executeAction e page block) (enumerate n (as @ bs)) s =
     for_each (executeAction e page block) (enumerate (n + length as) bs) u"
  by (induction n as s u rule: completes.induct) (simp_all add: followed_def)

text \<open>C40: an action that throws ends the run: when the actions before it complete and it throws, a confirmed click has
  done exactly those and what the action did before it threw, tells the user of the failure, does nothing of the
  actions after it, and gives the button back as it was.\<close>

theorem failed_action_stops:
  assumes "\<not> disabled el" "\<not> aria_busy el" "decodeActions e el = Some (as @ a # bs)"
    and "asked = s\<lparr>calls := calls s @ [Confirm (or_else (confirmation el) default_question)]\<rparr>" "b_confirm e (calls asked)"
    and "completes e pageId (or_else (element_block el) []) 0 as asked u"
    and "executeAction e pageId (or_else (element_block el) []) (length as, a) u = (None, t)"
  shows "onClick e pageId (Some el) s = (Some el, t\<lparr>calls := calls t @ [failure_notice]\<rparr>)"
proof -
  have "executeActions e pageId (or_else (element_block el) []) (as @ a # bs) asked = (None, t)"
    using completes_first [OF assms(6), of "a # bs"] assms(7) by (simp add: executeActions_def followed_def)
  moreover have "or_else (element_block el) [] = (case element_block el of None \<Rightarrow> [] | Some b \<Rightarrow> b)"
    by (simp add: or_else_def split: option.split)
  ultimately show ?thesis
    using assms(1-5) by (simp add: onClick_def click_begins_def request_def Let_def)
qed

section \<open>The button of a rendered page\<close>

text \<open>What \<open>closest("[data-page-button]")\<close>, \<open>dataset\<close> and \<open>textContent\<close> give for a rendered element.\<close>

fun html_text :: "html \<Rightarrow> jstr" where
  "html_text (Txt t) = t"
| "html_text (El t as ks) = concat (map html_text ks)"

definition button_of :: "html \<Rightarrow> button_element option" where
  "button_of n = (if attr n ''data-page-button'' = None then None
     else Some \<lparr>actionsJson = attr n ''data-actions-json'', actions_data = attr n ''data-actions'',
       confirmation = attr n ''data-confirmation'', element_block = attr n ''data-block-id'', disabled = False,
       aria_busy = False, textContent = html_text n\<rparr>)"

definition json_inverse :: "button_env \<Rightarrow> render_env \<Rightarrow> jsval \<Rightarrow> bool" where
  "json_inverse e r v \<longleftrightarrow> b_parse e (r_stringify r v) = Some v \<and> r_stringify r v \<noteq> []"

text \<open>C31: a click on the button of a valid document, as it is rendered, asks the question of the document and, if it
  is answered with yes, runs exactly the actions of the document; in the end the button is as it was before.\<close>

theorem button_acts_as_written:
  assumes "valid_block (b_urls e) (Button i l c as)" "json_inverse e r (enc_actions as)"
  shows "\<exists>el. button_of (BlockView r ns (Button i l c as)) = Some el \<and>
    onClick e pageId (Some el) s = (Some el,
      (let asked = s\<lparr>calls := calls s @ [Confirm (or_else c default_question)]\<rparr>
       in if b_confirm e (calls asked) then
            (case executeActions e pageId i as asked of
               (Some _, t) \<Rightarrow> t
             | (None, t) \<Rightarrow> t\<lparr>calls := calls t @ [failure_notice]\<rparr>)
          else asked))"
proof -
  let ?el = "\<lparr>actionsJson = Some (r_stringify r (enc_actions as)), actions_data = None, confirmation = c, element_block = Some i,
     disabled = False, aria_busy = False, textContent = l\<rparr>"
  have "button_of (BlockView r ns (Button i l c as)) = Some ?el"
    by (simp add: button_of_def)
  moreover have "decodeActions e ?el = Some as"
    using assms actions_complete [of "b_urls e" as]
    by (simp add: decodeActions_def or_else_def json_inverse_def Let_def enc_actions_def list_max_def list_min_def z_refine_def
        len_in_def block_complete)
  then have "onClick e pageId (Some ?el) s = (Some ?el,
      (let asked = s\<lparr>calls := calls s @ [Confirm (or_else c default_question)]\<rparr>
       in if b_confirm e (calls asked) then
            (case executeActions e pageId i as asked of
               (Some _, t) \<Rightarrow> t
             | (None, t) \<Rightarrow> t\<lparr>calls := calls t @ [failure_notice]\<rparr>)
          else asked))"
    by (simp add: onClick_def click_begins_def request_def Let_def split: prod.split option.split)
  ultimately show ?thesis by blast
qed

section \<open>Samples\<close>

definition sample_uuids :: id_env where
  "sample_uuids = \<lparr>uuid_validate = (\<lambda>s. s \<noteq> []), uuid_version = (\<lambda>_. Some 7),
     uuid_v7 = (\<lambda>n. replicate 35 48 @ [word_of_nat n])\<rparr>"

lemma sample_uuids_inj: "n \<le> 65536 \<Longrightarrow> inj_on (uuid_v7 sample_uuids) {..<n}"
proof (rule inj_onI)
  fix i j assume "n \<le> 65536" "i \<in> {..<n}" "j \<in> {..<n}" "uuid_v7 sample_uuids i = uuid_v7 sample_uuids j"
  then have "unat (word_of_nat i :: cu) = unat (word_of_nat j :: cu)" "i < 65536" "j < 65536"
    by (simp_all add: sample_uuids_def)
  then show "i = j" by (simp add: unat_of_nat)
qed

definition sample_insert :: block where
  "sample_insert = Quote note_a [Button note_b (js ''b'') None [InsertBlocks note_a [Divider note_a]], Divider note_b]"

lemma sample_insert_valid: "valid_block sample_env sample_insert"
  by (simp add: sample_insert_def sample_env_def note_a_def note_b_def len_in_def)

lemma clone_fresh_witness:
  "\<exists>c t. cloneBlockWithNewIDs sample_uuids sample_insert createAdapterState = (c, t) \<and> blank c = blank sample_insert \<and>
     valid_block sample_env c \<and> length (nested c) = 4 \<and> distinct (map block_id (nested c))"
proof -
  obtain c t where ct: "cloneBlockWithNewIDs sample_uuids sample_insert createAdapterState = (c, t)"
    by (cases "cloneBlockWithNewIDs sample_uuids sample_insert createAdapterState")
  have four: "length (nested sample_insert) = 4"
    by (simp add: sample_insert_def nested.simps action_blocks_def)
  have "drawn t = 4"
    using remap_renewed [OF ct [unfolded cloneBlockWithNewIDs_def]] four by (simp add: renewed_def createAdapterState_def)
  then have "inj_on (uuid_v7 sample_uuids) {..<drawn t}" using sample_uuids_inj by simp
  moreover have "\<forall>n. z_uuid sample_env (uuid_v7 sample_uuids n)"
    by (simp add: sample_env_def sample_uuids_def)
  ultimately show ?thesis
    using clone_fresh [OF ct sample_insert_valid] ct four by simp
qed

definition sample_host :: "bool \<Rightarrow> button_env" where
  "sample_host works = \<lparr>b_urls = sample_env, b_ids = sample_uuids, b_host = (\<lambda>_. old_host),
     b_parse = (\<lambda>_. Some (enc_actions [InsertBlocks note_a [sample_insert]])), b_atob = (\<lambda>_. None), b_decode = (\<lambda>_. []),
     b_page = (\<lambda>_. Some (Some \<lparr>content_revision = js ''r'', content_ast = encode_document sample_article\<rparr>)),
     b_create = (\<lambda>_. Some (js ''p'')), b_done = (\<lambda>_. works), b_confirm = (\<lambda>_. True)\<rparr>"

definition no_calls :: button_state where
  "no_calls = \<lparr>calls = [], blockIds = createAdapterState, uuids_drawn = 0, fallbackSequence = 0\<rparr>"

lemma sample_article_parses: "parseDocument sample_env (encode_document sample_article) = Some sample_article"
  by (rule document_complete) (use sample_article_valid in \<open>simp add: sample_render_def\<close>)

lemma sample_page_blocks:
  "page_blocks (sample_host b) (Some \<lparr>content_revision = js ''r'', content_ast = encode_document sample_article\<rparr>) s =
     (Some sample_article, s)"
proof -
  have "truthy (encode_document sample_article)" by (simp add: encode_document_def)
  then show ?thesis by (simp add: page_blocks_def sample_host_def sample_article_parses)
qed

lemma sample_run:
  "\<exists>t key v k m d. insertBlocks (sample_host True) note_a [sample_insert] no_calls = (Some (), t) \<and>
     calls t = [GetPageByID note_a, CreateProposal key v, AddProposalOperation (js ''p'') k, SubmitProposal (js ''p''), Toast ''success'' m d]"
proof -
  let ?e = "sample_host True"
  obtain key n where key: "clientUUID old_host 0 = (key, n)" by (cases "clientUUID old_host 0")
  obtain c w where c: "cloneBlockWithNewIDs sample_uuids sample_insert createAdapterState = (c, w)"
    by (cases "cloneBlockWithNewIDs sample_uuids sample_insert createAdapterState")
  show ?thesis
    by (simp add: insertBlocks_def followed_def request_def acknowledged_def toast_def returns_def draw_uuid_def key clone_run_def c
        add_operation_def sample_page_blocks [unfolded sample_host_def, simplified] sample_host_def no_calls_def)
qed

lemma button_proposal_appends_witness:
  "\<exists>t records copies. insertBlocks (sample_host True) note_a [sample_insert] no_calls = (Some (), t) \<and>
     map operation records = operations_of (js ''p'') (calls t) \<and> length records = 1 \<and>
     applyPageProposalOperations sample_env sample_article records [] = Inr (sample_article @ copies) \<and>
     map blank copies = [blank sample_insert]"
proof -
  let ?e = "sample_host True"
  obtain t key v k m d where t: "insertBlocks ?e note_a [sample_insert] no_calls = (Some (), t)"
    "calls t = [GetPageByID note_a, CreateProposal key v, AddProposalOperation (js ''p'') k, SubmitProposal (js ''p''), Toast ''success'' m d]"
    using sample_run by blast
  have valid: "list_all (valid_block (b_urls ?e)) [sample_insert]" "url_pure (b_urls ?e)"
      "\<forall>n. z_uuid (b_urls ?e) (uuid_v7 (b_ids ?e) n)"
    using sample_insert_valid sample_env_pure by (simp_all add: sample_host_def sample_env_def sample_uuids_def)
  obtain content d proposal more copies where r: "b_page ?e (calls no_calls @ [GetPageByID note_a]) = Some content"
      "fst (page_blocks ?e content no_calls) = Some d" "calls t = calls no_calls @ more" "SubmitProposal proposal \<in> set more"
      "map blank copies = map blank [sample_insert]"
      "\<forall>records. map operation (sort_key sequence_no records) = operations_of proposal more \<longrightarrow>
         applyPageProposalOperations (b_urls ?e) d records [] = Inr (d @ copies)"
    using button_proposal_appends [OF t(1) valid] by blast
  have "more = calls t" "proposal = js ''p''" using r(3,4) t(2) by (auto simp: no_calls_def)
  moreover have "d = sample_article"
    using r(1,2) sample_page_blocks [of True no_calls] by (simp add: sample_host_def)
  ultimately have "applyPageProposalOperations sample_env sample_article [\<lparr>sequence_no = 1, operation = k\<rparr>] [] = Inr (sample_article @ copies)"
    using r(6) [THEN spec, of "[\<lparr>sequence_no = 1, operation = k\<rparr>]"] t(2) by (simp add: operations_of_def sample_host_def)
  then show ?thesis
    using t r(5) by (intro exI [of _ t] exI [of _ "[\<lparr>sequence_no = 1, operation = k\<rparr>]"] exI [of _ copies])
      (simp add: operations_of_def)
qed

definition failing_actions :: "block button_action list" where
  "failing_actions = [Notification (js ''m'') None, InsertBlocks note_a [sample_insert], Notification (js ''n'') None]"

definition failing_host :: button_env where
  "failing_host = (sample_host False)\<lparr>b_parse := (\<lambda>_. Some (enc_actions failing_actions))\<rparr>"

definition sample_button :: button_element where
  "sample_button = \<lparr>actionsJson = Some (js ''a''), actions_data = None, confirmation = None, element_block = Some note_b,
     disabled = False, aria_busy = False, textContent = js ''b''\<rparr>"

lemma failing_actions_decode: "decodeActions failing_host sample_button = Some failing_actions"
proof -
  have "valid_block sample_env (Button note_b (js ''b'') None failing_actions)"
    using sample_insert_valid by (simp add: failing_actions_def sample_env_def note_a_def note_b_def len_in_def)
  then show ?thesis
    using actions_complete [of sample_env failing_actions]
    by (simp add: decodeActions_def or_else_def Let_def enc_actions_def list_max_def list_min_def z_refine_def failing_host_def
        sample_host_def sample_button_def len_in_def block_complete)
qed

lemma failing_insert:
  "\<exists>t. executeAction failing_host note_a note_b (1, InsertBlocks note_a [sample_insert]) s = (None, t)"
proof -
  obtain key n where key: "clientUUID old_host (fallbackSequence s) = (key, n)" by (cases "clientUUID old_host (fallbackSequence s)")
  obtain c w where c: "cloneBlockWithNewIDs sample_uuids sample_insert (blockIds s) = (c, w)"
    by (cases "cloneBlockWithNewIDs sample_uuids sample_insert (blockIds s)")
  have "page_blocks failing_host content = page_blocks (sample_host False) content" for content
    by (rule ext) (simp add: page_blocks_def failing_host_def split: option.split)
  then show ?thesis
    by (simp add: executeAction_def insertBlocks_def followed_def request_def acknowledged_def draw_uuid_def key clone_run_def c
        add_operation_def sample_page_blocks [unfolded sample_host_def, simplified] sample_host_def failing_host_def)
qed

lemma failed_action_stops_witness:
  "\<exists>t. onClick failing_host note_a (Some sample_button) no_calls = (Some sample_button, t\<lparr>calls := calls t @ [failure_notice]\<rparr>)"
proof -
  let ?asked = "no_calls\<lparr>calls := calls no_calls @ [Confirm (or_else (confirmation sample_button) default_question)]\<rparr>"
  obtain u where "executeAction failing_host note_a note_b (0, Notification (js ''m'') None) ?asked = (Some (), u)"
    by (simp add: executeAction_def showNotification_def toast_def request_def Let_def)
  then have c: "completes failing_host note_a (or_else (element_block sample_button) []) 0 [Notification (js ''m'') None] ?asked u"
    by (simp add: sample_button_def or_else_def note_b_def)
  obtain t where "executeAction failing_host note_a note_b (1, InsertBlocks note_a [sample_insert]) u = (None, t)"
    using failing_insert by blast
  then have f: "executeAction failing_host note_a (or_else (element_block sample_button) [])
      (length [Notification (js ''m'') None], InsertBlocks note_a [sample_insert]) u = (None, t)"
    by (simp add: sample_button_def or_else_def note_b_def)
  have "onClick failing_host note_a (Some sample_button) no_calls = (Some sample_button, t\<lparr>calls := calls t @ [failure_notice]\<rparr>)"
  proof (rule failed_action_stops [OF _ _ _ refl _ c f])
    show "decodeActions failing_host sample_button = Some ([Notification (js ''m'') None] @
        InsertBlocks note_a [sample_insert] # [Notification (js ''n'') None])"
      by (simp add: failing_actions_decode, simp add: failing_actions_def)
  qed (simp_all add: sample_button_def failing_host_def sample_host_def)
  then show ?thesis by blast
qed

lemma button_acts_as_written_witness:
  "\<exists>el. button_of (BlockView sample_render [] (Button note_b (js ''b'') (Some (js ''?'')) [InsertBlocks note_a [sample_insert]])) = Some el \<and>
     onClick (sample_host True) note_a (Some el) no_calls = (Some el,
       case executeActions (sample_host True) note_a note_b [InsertBlocks note_a [sample_insert]] (no_calls\<lparr>calls := [Confirm (js ''?'')]\<rparr>) of
         (Some _, t) \<Rightarrow> t
       | (None, t) \<Rightarrow> t\<lparr>calls := calls t @ [failure_notice]\<rparr>)"
proof -
  have valid: "valid_block (b_urls (sample_host True)) (Button note_b (js ''b'') (Some (js ''?'')) [InsertBlocks note_a [sample_insert]])"
    using sample_insert_valid by (simp add: sample_host_def sample_env_def note_a_def note_b_def len_in_def)
  have json: "json_inverse (sample_host True) sample_render (enc_actions [InsertBlocks note_a [sample_insert]])"
    by (simp add: json_inverse_def sample_host_def sample_render_def)
  have "b_confirm (sample_host True) cs" for cs by (simp add: sample_host_def)
  then show ?thesis
    using button_acts_as_written [OF valid json, where s = no_calls and pageId = note_a and ns = "[]"]
    by (simp add: or_else_def no_calls_def)
qed

end
