(* ===== verification/EditorCaret.thy ===== *)
theory EditorCaret
  imports Presence ToAst
begin

text \<open>
  \<open>lib/editor/presence.ts\<close>: cursors in the editor as positions in blocks and back, and the carets of the
  others. \<open>lib/editor/references.ts\<close> with \<open>lib/ast/title.ts\<close>: what the editor inserts.

  Positions are those of ProseMirror, which is a parameter: \<open>caret_kit\<close> tells which nodes are text
  blocks, texts and leaves. As it documents, a text is as long as its string, a leaf is one
  position, and any other node has a position before and after its content; \<open>descendants\<close> visits the nodes
  in document order with the position before each. A resolved position is the nodes around it, outermost
  first, and the offset in the innermost.
\<close>

record caret_kit =
  isTextblock :: "pm_node \<Rightarrow> bool"
  isText :: "pm_node \<Rightarrow> bool"
  isLeaf :: "pm_node \<Rightarrow> bool"

fun nodeSize :: "caret_kit \<Rightarrow> pm_node \<Rightarrow> nat" where
  "nodeSize k n = (if isText k n then length (case pm_text n of None \<Rightarrow> [] | Some t \<Rightarrow> t)
     else if isLeaf k n then 1 else 2 + sum_list (map (nodeSize k) (content_of n)))"

declare nodeSize.simps [simp del]

definition contentSize :: "caret_kit \<Rightarrow> pm_node \<Rightarrow> nat" where
  "contentSize k n = sum_list (map (nodeSize k) (content_of n))"

text \<open>\<open>typeof node.attrs.id === "string"\<close>\<close>

definition id_attr :: "pm_node \<Rightarrow> jstr option" where
  "id_attr n = (case getp (pm_attrs n) (js ''id'') of JStr i \<Rightarrow> Some i | _ \<Rightarrow> None)"

lemma size_contents [termination_simp]: "size_list size (content_of n) < Suc (size n + m)"
  by (cases n) (auto simp: content_of_def split: option.splits)

section \<open>Positions\<close>

record resolved_pos =
  around :: "pm_node list"
  parentOffset :: nat

definition astId :: "'a id_env_scheme \<Rightarrow> jstr \<Rightarrow> adapter \<Rightarrow> jstr \<times> adapter" where
  "astId env i st = resolveBlockId env i st"

fun nearest_id :: "'a id_env_scheme \<Rightarrow> pm_node list \<Rightarrow> nat \<Rightarrow> adapter \<Rightarrow> editor_position option \<times> adapter" where
  "nearest_id env [] n st = (None, st)"
| "nearest_id env (b # bs) n st = (case id_attr b of
     Some i \<Rightarrow> (let (j, st) = astId env i st in (Some \<lparr>pos_blockId = j, pos_offset = int n\<rparr>, st))
   | None \<Rightarrow> nearest_id env bs n st)"

definition editorPosition :: "'a id_env_scheme \<Rightarrow> caret_kit \<Rightarrow> resolved_pos \<Rightarrow> adapter \<Rightarrow> editor_position option \<times> adapter" where
  "editorPosition env k p st =
     (if around p = [] \<or> \<not> isTextblock k (last (around p)) then (None, st)
      else nearest_id env (rev (around p)) (parentOffset p) st)"

text \<open>\<open>start + 1 + Math.min(position.offset, node.content.size)\<close>\<close>

definition place :: "caret_kit \<Rightarrow> int \<Rightarrow> nat \<Rightarrow> pm_node \<Rightarrow> int" where
  "place k offset start n = int start + 1 + min offset (int (contentSize k n))"

fun firstTextblock :: "caret_kit \<Rightarrow> int \<Rightarrow> nat \<Rightarrow> pm_node list \<Rightarrow> int option" where
  "firstTextblock k offset start [] = None"
| "firstTextblock k offset start (c # cs) =
     (if isTextblock k c then Some (place k offset start c)
      else case firstTextblock k offset (start + 1) (content_of c) of
        Some r \<Rightarrow> Some r
      | None \<Rightarrow> firstTextblock k offset (start + nodeSize k c) cs)"

fun resolve_nodes :: "'a id_env_scheme \<Rightarrow> caret_kit \<Rightarrow> editor_position \<Rightarrow> nat \<Rightarrow> pm_node list \<Rightarrow> adapter \<Rightarrow> int option \<times> adapter" where
  "resolve_nodes env k p start [] st = (None, st)"
| "resolve_nodes env k p start (n # ns) st =
     (let (here, st) = (case id_attr n of
            None \<Rightarrow> (False, st)
          | Some i \<Rightarrow> (let (j, st) = astId env i st in (j = pos_blockId p, st)));
          (r, st) = (if here then
              (if isTextblock k n then Some (place k (pos_offset p) start n)
               else firstTextblock k (pos_offset p) (start + 1) (content_of n), st)
            else resolve_nodes env k p (start + 1) (content_of n) st)
      in case r of Some x \<Rightarrow> (Some x, st) | None \<Rightarrow> resolve_nodes env k p (start + nodeSize k n) ns st)"

definition resolveEditorPosition :: "'a id_env_scheme \<Rightarrow> caret_kit \<Rightarrow> pm_node \<Rightarrow> editor_position \<Rightarrow> adapter \<Rightarrow> int option \<times> adapter" where
  "resolveEditorPosition env k doc p st = resolve_nodes env k p 0 (content_of doc) st"

section \<open>The carets of the others\<close>

definition COLORS :: "string list" where
  "COLORS = [''#2563eb'', ''#9333ea'', ''#0891b2'', ''#c2410c'', ''#15803d'']"

text \<open>\<open>Array.from(s)\<close> takes a surrogate pair as one; \<open>charCodeAt(0)\<close> is the first unit of each.\<close>

fun first_units :: "jstr \<Rightarrow> cu list" where
  "first_units (c # d # s) = (if 0xD800 \<le> c \<and> c \<le> 0xDBFF \<and> 0xDC00 \<le> d \<and> d \<le> 0xDFFF
     then c # first_units s else c # first_units (d # s))"
| "first_units s = s"

definition peer_color :: "jstr \<Rightarrow> string" where
  "peer_color clientId = COLORS ! (sum_list (map unat (first_units clientId)) mod length COLORS)"

record editor_peer =
  peer_clientId :: jstr
  peer_label :: jstr
  peer_cursor :: editor_cursor

datatype decoration =
    InlineDecoration int int string jstr
  | WidgetDecoration int string jstr jstr jstr

definition peer_decorations :: "editor_peer \<Rightarrow> int \<Rightarrow> int \<Rightarrow> decoration list" where
  "peer_decorations peer a h =
     (let color = peer_color (peer_clientId peer)
      in (if a \<noteq> h then [InlineDecoration (min a h) (max a h) (color @ ''25'') (peer_clientId peer)] else []) @
         [WidgetDecoration h color (peer_clientId peer) (peer_label peer)
            (peer_clientId peer @ js '':'' @ peer_label peer)])"

fun decorations :: "'a id_env_scheme \<Rightarrow> caret_kit \<Rightarrow> pm_node \<Rightarrow> editor_peer list \<Rightarrow> adapter \<Rightarrow> decoration list \<times> adapter" where
  "decorations env k doc [] st = ([], st)"
| "decorations env k doc (peer # peers) st =
     (let (a, st) = resolveEditorPosition env k doc (cur_anchor (peer_cursor peer)) st;
          (h, st) = resolveEditorPosition env k doc (cur_head (peer_cursor peer)) st;
          here = (case (a, h) of (Some a, Some h) \<Rightarrow> peer_decorations peer a h | _ \<Rightarrow> []);
          (ds, st) = decorations env k doc peers st
      in (here @ ds, st))"

section \<open>What the editor inserts\<close>

text \<open>The content each helper hands to \<open>insertContent\<close>. \<open>title_host\<close> is Unicode of the host.\<close>

record title_host =
  nfc :: "jstr \<Rightarrow> jstr"
  toLowerCase :: "jstr \<Rightarrow> jstr"

fun collapse_space :: "bool \<Rightarrow> jstr \<Rightarrow> jstr" where
  "collapse_space b [] = []"
| "collapse_space b (c # s) = (if is_js_space c then (if b then collapse_space True s else 32 # collapse_space True s)
     else c # collapse_space False s)"

definition normalizeTitle :: "title_host \<Rightarrow> jstr \<Rightarrow> jstr" where
  "normalizeTitle t raw = toLowerCase t (js_trim (collapse_space False (nfc t raw)))"

definition pageReferenceInlineContent :: "(string \<times> jsval) list \<Rightarrow> pm_node" where
  "pageReferenceInlineContent attrs = atom_node ''pageReference'' attrs"

definition insertResolvedPageReference :: "jstr \<Rightarrow> jstr \<Rightarrow> pm_node" where
  "insertResolvedPageReference targetPageId displayText = pageReferenceInlineContent
     [(''targetPageId'', JStr targetPageId), (''targetHeadingBlockId'', JStr []), (''displayText'', JStr displayText),
      (''resolutionStatus'', JStr []), (''targetNamespace'', JStr []), (''normalizedTitle'', JStr []),
      (''expectedEntityType'', JStr [])]"

definition insertUnresolvedPageReference :: "title_host \<Rightarrow> jstr \<Rightarrow> jstr option \<Rightarrow> pm_node" where
  "insertUnresolvedPageReference t rawTitle targetNamespace = pageReferenceInlineContent
     [(''targetPageId'', JStr []), (''targetHeadingBlockId'', JStr []), (''displayText'', JStr []),
      (''resolutionStatus'', JStr (js ''unresolved'')),
      (''targetNamespace'', JStr (case targetNamespace of None \<Rightarrow> js ''main'' | Some n \<Rightarrow> n)),
      (''normalizedTitle'', JStr (normalizeTitle t rawTitle)), (''expectedEntityType'', JStr [])]"

definition insertExternalLink :: "jstr \<Rightarrow> jstr \<Rightarrow> pm_node" where
  "insertExternalLink u displayText =
     PM (Some (js ''text'')) [] None (Some displayText) (Some [(js ''link'', [(js ''href'', JStr u)])])"

definition insertPersonMention :: "jstr \<Rightarrow> jstr \<Rightarrow> pm_node" where
  "insertPersonMention actorId displayText = atom_node ''mention'' [(''actorId'', JStr actorId), (''displayText'', JStr displayText)]"

definition insertDateMention :: "jstr \<Rightarrow> jstr \<Rightarrow> jstr \<Rightarrow> pm_node" where
  "insertDateMention date endDate displayText =
     atom_node ''dateMention'' [(''date'', JStr date), (''endDate'', JStr endDate), (''displayText'', JStr displayText)]"

text \<open>They are the nodes opening a document gives for the same inline nodes.\<close>

lemma inserted_as_opened:
  "[insertResolvedPageReference p d] = inlineToTiptap (PageReference p None d)"
  "[insertUnresolvedPageReference t raw n] =
     inlineToTiptap (UnresolvedReference (case n of None \<Rightarrow> js ''main'' | Some n \<Rightarrow> n) (normalizeTitle t raw) None)"
  "d \<noteq> [] \<Longrightarrow> [insertExternalLink u d] = inlineToTiptap (ExternalLink u d)"
  "[insertPersonMention a d] = inlineToTiptap (Mention a d)"
  "[insertDateMention a e d] = inlineToTiptap (DateMention a (if e = [] then None else Some e) d)"
  by (simp_all add: insertResolvedPageReference_def insertUnresolvedPageReference_def insertExternalLink_def
      insertPersonMention_def insertDateMention_def pageReferenceInlineContent_def or_empty_def textNode_def)

section \<open>Where a position lies\<close>

text \<open>ProseMirror documents: text blocks are neither texts nor leaves, and neither of those has content.\<close>

definition caret_laws :: "caret_kit \<Rightarrow> bool" where
  "caret_laws k \<longleftrightarrow> (\<forall>n. isTextblock k n \<or> content_of n \<noteq> [] \<longrightarrow> \<not> isText k n \<and> \<not> isLeaf k n)"

lemma inner_size: "caret_laws k \<Longrightarrow> isTextblock k n \<or> content_of n \<noteq> [] \<Longrightarrow> nodeSize k n = 2 + contentSize k n"
  by (auto simp: caret_laws_def nodeSize.simps [of k n] contentSize_def)

lemma place_inside:
  assumes "caret_laws k" "0 \<le> offset" "isTextblock k n"
  shows "int start < place k offset start n" "place k offset start n < int (start + nodeSize k n)"
  using assms inner_size [of k n] by (simp_all add: place_def)

lemma content_inside: "caret_laws k \<Longrightarrow> content_of n \<noteq> [] \<Longrightarrow> sum_list (map (nodeSize k) (content_of n)) + 2 = nodeSize k n"
  using inner_size [of k n] by (simp add: contentSize_def)

lemma first_inside:
  assumes "caret_laws k" "0 \<le> offset" "firstTextblock k offset start ns = Some r"
  shows "int start < r \<and> r < int (start + sum_list (map (nodeSize k) ns))"
  using assms
proof (induction k offset start ns rule: firstTextblock.induct)
  case (2 k offset start c cs)
  have "isTextblock k c \<and> r = place k offset start c \<or> \<not> isTextblock k c \<and>
      (firstTextblock k offset (start + 1) (content_of c) = Some r \<or>
       firstTextblock k offset (start + 1) (content_of c) = None \<and> firstTextblock k offset (start + nodeSize k c) cs = Some r)"
    using "2.prems"(3) by (cases "firstTextblock k offset (start + 1) (content_of c)") (simp_all split: if_splits)
  then show ?case
  proof (elim disjE conjE)
    assume "isTextblock k c" "r = place k offset start c"
    then show ?thesis using place_inside [OF "2.prems"(1,2), of c start] by simp
  next
    assume below: "\<not> isTextblock k c" "firstTextblock k offset (start + 1) (content_of c) = Some r"
    then have "content_of c \<noteq> []" by auto
    with "2.IH"(1) [OF below(1) "2.prems"(1,2) below(2)] content_inside [OF "2.prems"(1), of c] show ?thesis
      by simp
  next
    assume later: "\<not> isTextblock k c" "firstTextblock k offset (start + 1) (content_of c) = None"
      "firstTextblock k offset (start + nodeSize k c) cs = Some r"
    from "2.IH"(2) [OF later(1,2) "2.prems"(1,2) later(3)] show ?thesis by simp
  qed
qed simp

lemma resolve_step:
  assumes "resolve_nodes env k p start (n # ns) st = (Some r, st')"
  shows "isTextblock k n \<and> r = place k (pos_offset p) start n \<or>
    firstTextblock k (pos_offset p) (start + 1) (content_of n) = Some r \<or>
    (\<exists>u v. resolve_nodes env k p (start + 1) (content_of n) u = (Some r, v)) \<or>
    (\<exists>u v. resolve_nodes env k p (start + nodeSize k n) ns u = (Some r, v))"
proof -
  obtain here st1 where own: "(case id_attr n of None \<Rightarrow> (False, st)
      | Some i \<Rightarrow> (case astId env i st of (j, st) \<Rightarrow> (j = pos_blockId p, st))) = (here, st1)" by (metis surj_pair)
  obtain x st2 where inner: "(if here then
        (if isTextblock k n then Some (place k (pos_offset p) start n)
         else firstTextblock k (pos_offset p) (start + 1) (content_of n), st1)
      else resolve_nodes env k p (start + 1) (content_of n) st1) = (x, st2)" by (metis surj_pair)
  have "(case x of Some y \<Rightarrow> (Some y, st2) | None \<Rightarrow> resolve_nodes env k p (start + nodeSize k n) ns st2) = (Some r, st')"
    using assms unfolding resolve_nodes.simps Let_def own prod.case inner .
  then show ?thesis using inner by (cases x) (auto split: if_splits)
qed

lemma resolve_inside:
  assumes "caret_laws k" "0 \<le> pos_offset p"
  shows "resolve_nodes env k p start ns st = (Some r, st') \<Longrightarrow> int start < r \<and> r < int (start + sum_list (map (nodeSize k) ns))"
proof (induction "size_list size ns" arbitrary: start ns st r st' rule: less_induct)
  case less
  then obtain n ms where ns: "ns = n # ms" by (cases ns) auto
  from resolve_step [OF less.prems [unfolded ns]]
  show ?case
  proof (elim disjE exE conjE)
    assume "isTextblock k n" "r = place k (pos_offset p) start n"
    then show ?thesis using place_inside [OF assms, of n start] by (simp add: ns)
  next
    assume first: "firstTextblock k (pos_offset p) (start + 1) (content_of n) = Some r"
    then have "content_of n \<noteq> []" by auto
    with first_inside [OF assms first] content_inside [OF assms(1), of n] show ?thesis by (simp add: ns)
  next
    fix u v assume below: "resolve_nodes env k p (start + 1) (content_of n) u = (Some r, v)"
    then have "content_of n \<noteq> []" by auto
    moreover have "size_list size (content_of n) < size_list size ns"
      using size_contents [of n "size_list size ms"] by (simp add: ns)
    ultimately show ?thesis
      using less.hyps [OF _ below] content_inside [OF assms(1), of n] by (simp add: ns)
  next
    fix u v assume later: "resolve_nodes env k p (start + nodeSize k n) ms u = (Some r, v)"
    then show ?thesis using less.hyps [OF _ later] by (simp add: ns)
  qed
qed

section \<open>A caret and back\<close>

text \<open>The string ids of the nodes, in document order; \<open>known\<close>: the session resolves them without drawing new ones.\<close>

fun node_ids :: "pm_node \<Rightarrow> jstr list" where
  "node_ids n = (case id_attr n of None \<Rightarrow> [] | Some i \<Rightarrow> [i]) @ concat (map node_ids (content_of n))"

declare node_ids.simps [simp del]

definition content_ids :: "pm_node list \<Rightarrow> jstr list" where
  "content_ids ns = concat (map node_ids ns)"

lemma content_ids_simps [simp]:
  "content_ids [] = []"
  "content_ids (n # ns) = (case id_attr n of None \<Rightarrow> [] | Some i \<Rightarrow> [i]) @ content_ids (content_of n) @ content_ids ns"
  by (simp_all add: content_ids_def node_ids.simps [of n])

definition known :: "'a id_env_scheme \<Rightarrow> adapter \<Rightarrow> (jstr \<Rightarrow> jstr) \<Rightarrow> jstr set \<Rightarrow> bool" where
  "known env st f I \<longleftrightarrow> (\<forall>i \<in> I. resolveBlockId env i st = (f i, st)) \<and> inj_on f I"

lemma known_subset: "known env st f I \<Longrightarrow> J \<subseteq> I \<Longrightarrow> known env st f J"
  by (auto simp: known_def intro: inj_on_subset)

text \<open>What \<open>doc.resolve\<close> finds at the position an index path and an offset in its last node stand for.\<close>

fun caret_at :: "caret_kit \<Rightarrow> nat \<Rightarrow> pm_node list \<Rightarrow> nat list \<Rightarrow> (nat \<times> pm_node list) option" where
  "caret_at k start [] q = None"
| "caret_at k start (n # ns) [] = None"
| "caret_at k start (n # ns) (0 # q) = (if q = [] then Some (start, [n])
     else map_option (\<lambda>(s, p). (s, n # p)) (caret_at k (start + 1) (content_of n) q))"
| "caret_at k start (n # ns) (Suc i # q) = caret_at k (start + nodeSize k n) ns (i # q)"

lemma resolve_elsewhere:
  assumes "known env st f (set (content_ids ns) \<union> {i})" "i \<notin> set (content_ids ns)" "pos_blockId p = f i"
  shows "resolve_nodes env k p start ns st = (None, st)"
  using assms
proof (induction "size_list size ns" arbitrary: start ns rule: less_induct)
  case less
  show ?case
  proof (cases ns)
    case (Cons n ms)
    have small: "size_list size (content_of n) < size_list size ns" "size_list size ms < size_list size ns"
      using size_contents [of n "size_list size ms"] by (simp_all add: Cons)
    have "resolve_nodes env k p s (content_of n) st = (None, st)" for s
      using less.prems by (intro less.hyps [OF small(1)]) (auto simp: Cons elim: known_subset split: option.splits)
    moreover have "resolve_nodes env k p s ms st = (None, st)" for s
      using less.prems by (intro less.hyps [OF small(2)]) (auto simp: Cons elim: known_subset split: option.splits)
    moreover have "astId env j st = (f j, st) \<and> f j \<noteq> f i" if "id_attr n = Some j" for j
      using less.prems that by (auto simp: Cons known_def astId_def inj_on_def)
    ultimately show ?thesis
      using less.prems(3) by (auto simp: Cons Let_def split: option.splits)
  qed simp
qed

lemma caret_nonempty: "caret_at k start ns q = Some (s, p) \<Longrightarrow> p \<noteq> []"
  by (induction k start ns q arbitrary: s p rule: caret_at.induct) (auto split: if_splits)

lemma other_id:
  assumes "known env st f I" "i \<in> I" "j \<in> I" "j \<noteq> i"
  shows "astId env j st = (f j, st)" "f j \<noteq> f i"
  using assms by (auto simp: known_def astId_def inj_on_def)

lemma resolve_found:
  assumes "known env st f (set (content_ids ns))" "distinct (content_ids ns)" "caret_at k start ns q = Some (s, p)"
    and "isTextblock k (last p)" "id_attr (last p) = Some i" "pos_blockId pos = f i"
  shows "resolve_nodes env k pos start ns st = (Some (place k (pos_offset pos) s (last p)), st) \<and> i \<in> set (content_ids ns)"
  using assms
proof (induction k start ns q arbitrary: s p rule: caret_at.induct)
  case (3 k start n ns q)
  show ?case
  proof (cases "q = []")
    case True
    with 3 have n: "p = [n]" "s = start" by simp_all
    then have "astId env i st = (f i, st)" using 3 by (simp add: known_def astId_def)
    then show ?thesis using 3 n by (simp add: Let_def)
  next
    case False
    then obtain p' where p': "p = n # p'" "caret_at k (start + 1) (content_of n) q = Some (s, p')"
      using "3.prems"(3) by auto
    then have last: "last p = last p'" using caret_nonempty by auto
    have "known env st f (set (content_ids (content_of n)))" "distinct (content_ids (content_of n))"
      using "3.prems"(1,2) by (auto elim: known_subset)
    from "3.IH" [OF False this p'(2)] "3.prems"(4-6) last
    have IH: "resolve_nodes env k pos (start + 1) (content_of n) st = (Some (place k (pos_offset pos) s (last p)), st)"
      "i \<in> set (content_ids (content_of n))" by simp_all
    have "astId env j st = (f j, st) \<and> f j \<noteq> f i" if "id_attr n = Some j" for j
      using other_id [OF "3.prems"(1), of i j] "3.prems"(2) IH(2) that by auto
    then show ?thesis using IH "3.prems"(6) by (auto simp: Let_def split: option.splits)
  qed
next
  case (4 k start n ns j q)
  have "known env st f (set (content_ids ns))" "distinct (content_ids ns)"
    using "4.prems"(1,2) by (auto elim: known_subset)
  from "4.IH" [OF this] "4.prems"(3-6)
  have IH: "resolve_nodes env k pos (start + nodeSize k n) ns st = (Some (place k (pos_offset pos) s (last p)), st)"
    "i \<in> set (content_ids ns)" by simp_all
  have "astId env l st = (f l, st) \<and> f l \<noteq> f i" if "id_attr n = Some l" for l
    using other_id [OF "4.prems"(1), of i l] "4.prems"(2) IH(2) that by auto
  moreover have "resolve_nodes env k pos (start + 1) (content_of n) st = (None, st)"
    using "4.prems" IH(2) by (intro resolve_elsewhere [where f = f and i = i]) (auto elim: known_subset)
  ultimately show ?case using IH "4.prems"(6) by (auto simp: Let_def split: option.splits)
qed simp_all

text \<open>A caret: a place in a text block that has an id, and its position in the document.\<close>

definition caret_in :: "caret_kit \<Rightarrow> pm_node \<Rightarrow> resolved_pos \<Rightarrow> int \<Rightarrow> bool" where
  "caret_in k doc c x \<longleftrightarrow>
     (\<exists>q s. caret_at k 0 (content_of doc) q = Some (s, around c) \<and> x = int s + 1 + int (parentOffset c)) \<and>
     isTextblock k (last (around c)) \<and> id_attr (last (around c)) \<noteq> None \<and>
     parentOffset c \<le> contentSize k (last (around c))"

lemma caret_back:
  assumes "distinct (content_ids (content_of doc))" "known env st f (set (content_ids (content_of doc)))"
    and "known env' st' f (set (content_ids (content_of doc)))" "caret_in k doc c x"
  shows "\<exists>p. editorPosition env k c st = (Some p, st) \<and> resolveEditorPosition env' k doc p st' = (Some x, st')"
proof -
  obtain q s i where c: "caret_at k 0 (content_of doc) q = Some (s, around c)" "x = int s + 1 + int (parentOffset c)"
      "isTextblock k (last (around c))" "id_attr (last (around c)) = Some i" "parentOffset c \<le> contentSize k (last (around c))"
    using assms(4) by (auto simp: caret_in_def)
  let ?p = "\<lparr>pos_blockId = f i, pos_offset = int (parentOffset c)\<rparr>"
  have found: "resolve_nodes env' k ?p 0 (content_of doc) st' = (Some (place k (int (parentOffset c)) s (last (around c))), st')"
    "i \<in> set (content_ids (content_of doc))"
    using resolve_found [OF assms(3,1) c(1,3,4), of ?p] by simp_all
  obtain ns n where n: "around c = ns @ [n]" using caret_nonempty [OF c(1)] by (cases "around c" rule: rev_cases) simp_all
  have "nearest_id env (rev (around c)) (parentOffset c) st = (Some ?p, st)"
    using c(4) found(2) assms(2) by (simp add: n known_def astId_def)
  then show ?thesis
    using found(1) c caret_nonempty [OF c(1)]
    by (intro exI [of _ ?p]) (simp add: editorPosition_def resolveEditorPosition_def place_def)
qed

section \<open>Properties\<close>


fun decoration_in :: "int \<Rightarrow> decoration \<Rightarrow> bool" where
  "decoration_in m (InlineDecoration a b c i) \<longleftrightarrow> 0 < a \<and> a < b \<and> b < m"
| "decoration_in m (WidgetDecoration p c i l key) \<longleftrightarrow> 0 < p \<and> p < m"

lemma resolve_in_document:
  assumes "caret_laws k" "0 \<le> pos_offset p" "resolveEditorPosition env k doc p st = (Some r, st')"
  shows "0 < r \<and> r < int (contentSize k doc)"
  using resolve_inside [OF assms(1,2)] assms(3) by (fastforce simp: resolveEditorPosition_def contentSize_def)

text \<open>C39: whatever positions the others claim to be at, what is drawn for them lies inside the document, and every
  selection runs forward.\<close>

theorem decorations_inside:
  assumes "caret_laws k"
    and "\<forall>peer \<in> set peers. 0 \<le> pos_offset (cur_anchor (peer_cursor peer)) \<and> 0 \<le> pos_offset (cur_head (peer_cursor peer))"
  shows "\<forall>d \<in> set (fst (decorations env k doc peers st)). decoration_in (int (contentSize k doc)) d"
  using assms(2)
proof (induction peers arbitrary: st)
  case (Cons peer peers)
  obtain a s1 h s2 where r: "resolveEditorPosition env k doc (cur_anchor (peer_cursor peer)) st = (a, s1)"
      "resolveEditorPosition env k doc (cur_head (peer_cursor peer)) s1 = (h, s2)" by (metis surj_pair)
  have in_doc: "0 < x \<and> x < int (contentSize k doc)" if "a = Some x \<or> h = Some x" for x
    using that resolve_in_document [OF assms(1) _ r(1) [THEN trans]] resolve_in_document [OF assms(1) _ r(2) [THEN trans]] Cons.prems
    by auto
  have "\<forall>d \<in> set (fst (decorations env k doc peers s2)). decoration_in (int (contentSize k doc)) d"
    using Cons by simp
  moreover have "\<forall>d \<in> set (peer_decorations peer x y). decoration_in (int (contentSize k doc)) d" if "a = Some x" "h = Some y" for x y
    using in_doc [of x] in_doc [of y] that by (auto simp: peer_decorations_def Let_def)
  ultimately show ?case
    by (auto simp: r split: prod.splits option.splits)
qed simp

section \<open>Samples\<close>

definition sample_caret_kit :: caret_kit where
  "sample_caret_kit = \<lparr>isTextblock = (\<lambda>n. is_type n ''paragraph''), isText = (\<lambda>n. is_type n ''text'' \<and> content_of n = []),
     isLeaf = (\<lambda>n. pm_content n = None \<and> \<not> is_type n ''paragraph'')\<rparr>"

lemma sample_caret_laws: "caret_laws sample_caret_kit"
  by (auto simp: caret_laws_def sample_caret_kit_def is_type_def content_of_def js_eval split: option.splits)

definition own_ids :: id_env where
  "own_ids = \<lparr>uuid_validate = (\<lambda>_. True), uuid_version = (\<lambda>_. Some 7), uuid_v7 = (\<lambda>n. replicate n 48)\<rparr>"

definition sample_paragraph :: pm_node where
  "sample_paragraph = PM (Some (js ''paragraph'')) [(js ''id'', JStr sample_id)]
     (Some [insertPersonMention (js ''u'') (js ''U''), PM (Some (js ''text'')) [] None (Some (js ''ab'')) None]) None None"

definition sample_quote :: pm_node where
  "sample_quote = PM (Some (js ''blockquote'')) [(js ''id'', JStr (js ''q''))] (Some [sample_paragraph]) None None"

definition sample_editor_doc :: pm_node where
  "sample_editor_doc = PM (Some (js ''doc'')) [] (Some [sample_quote]) None None"

definition sample_caret :: "nat \<Rightarrow> resolved_pos" where
  "sample_caret n = \<lparr>around = [sample_quote, sample_paragraph], parentOffset = n\<rparr>"

lemma sample_ids_of: "content_ids (content_of sample_editor_doc) = [js ''q'', sample_id]"
  by (simp add: sample_editor_doc_def sample_quote_def sample_paragraph_def insertPersonMention_def atom_node_def content_of_def
      id_attr_def getp_def)

lemma sample_known: "known own_ids st id (set (content_ids (content_of sample_editor_doc)))"
  by (simp add: known_def resolveBlockId_def isUuidV7_def own_ids_def)

lemma sample_caret_in:
  assumes "n \<le> 3"
  shows "caret_in sample_caret_kit sample_editor_doc (sample_caret n) (int n + 2)"
proof -
  have "contentSize sample_caret_kit sample_paragraph = 3"
    by (simp add: contentSize_def sample_paragraph_def content_of_def nodeSize.simps sample_caret_kit_def is_type_def
        insertPersonMention_def atom_node_def js_eval)
  moreover have "caret_at sample_caret_kit 0 (content_of sample_editor_doc) [0, 0] = Some (1, [sample_quote, sample_paragraph])"
    by (simp add: sample_editor_doc_def sample_quote_def content_of_def)
  moreover have "id_attr sample_paragraph = Some sample_id" "isTextblock sample_caret_kit sample_paragraph"
    by (simp_all add: sample_paragraph_def id_attr_def sample_caret_kit_def is_type_def)
  ultimately show ?thesis
    using assms by (auto simp: caret_in_def sample_caret_def)
qed

lemma sample_position:
  "fst (editorPosition own_ids sample_caret_kit (sample_caret n) st) = Some \<lparr>pos_blockId = sample_id, pos_offset = int n\<rparr>"
  by (simp add: editorPosition_def sample_caret_def sample_paragraph_def id_attr_def sample_caret_kit_def is_type_def
      astId_def resolveBlockId_def isUuidV7_def own_ids_def)


definition sample_peers :: "editor_peer list" where
  "sample_peers = [\<lparr>peer_clientId = js ''c'', peer_label = js ''C'', peer_cursor =
     \<lparr>cur_anchor = \<lparr>pos_blockId = sample_id, pos_offset = 99\<rparr>, cur_head = \<lparr>pos_blockId = js ''q'', pos_offset = 0\<rparr>\<rparr>\<rparr>]"

lemma sample_drawn: "length (fst (decorations own_ids sample_caret_kit sample_editor_doc sample_peers st)) = 2"
  by (simp add: sample_peers_def resolveEditorPosition_def sample_editor_doc_def sample_quote_def sample_paragraph_def content_of_def
      id_attr_def getp_def astId_def resolveBlockId_def isUuidV7_def own_ids_def sample_id_def sample_caret_kit_def is_type_def
      place_def contentSize_def nodeSize.simps insertPersonMention_def atom_node_def peer_decorations_def Let_def js_eval)

lemma decorations_inside_witness:
  "list_all (decoration_in (int (contentSize sample_caret_kit sample_editor_doc)))
     (fst (decorations own_ids sample_caret_kit sample_editor_doc sample_peers createAdapterState)) \<and>
   length (fst (decorations own_ids sample_caret_kit sample_editor_doc sample_peers createAdapterState)) = 2"
  using decorations_inside [OF sample_caret_laws, of sample_peers own_ids sample_editor_doc createAdapterState]
  by (simp add: list_all_iff sample_drawn) (simp add: sample_peers_def)

end
