(* ===== verification/Spec2Isabelle.thy ===== *)
theory Spec2Isabelle
  imports Serialize HttpUrl SchemaType Toc EditorIds EditorSchema EditorSession PagePatch ClientCrash Components Requests WorkspaceAccess PageButton EditorCaret
begin

text \<open>
  Verification library of the web client of Anby-Wiki (\<open>apps/web\<close>).

  Anby-Wiki keeps its pages as typed block documents. The web client, in TypeScript, parses such a
  document, shows and edits it, keeps drafts of it, shares it with other editors while it is edited,
  and applies change proposals to it. The core of that is the code under \<open>apps/web/lib\<close>, and this
  library models it function by function. The backend (Go), the AI kernel (Python), the generated API
  client and the React views that only lay out and fetch are not modelled.

  \<^bold>\<open>How the code is represented.\<close> A JavaScript string is a list of 16-bit code units (\<open>Prelude.jstr\<close>),
  an \<open>unknown\<close> value is a \<open>jsval\<close> of \<open>JsValue\<close> with numbers as shortest decimals, a typed document is
  the datatype of \<open>Ast\<close>. A function that throws returns a sum or an option. State is a record that is
  passed and returned; a callback or a resumption of an \<open>async\<close> function is one step of a step relation.
  What is not code of the repository is an argument: \<open>zenv\<close> (string formats of zod, \<open>new URL\<close>),
  \<open>id_env\<close> (the package uuid), \<open>editor_env\<close> and \<open>draft_env\<close> (JSON of the host, clock, quota), \<open>yapi\<close>
  (Yjs shared types), \<open>rel_api\<close> (Yjs relative positions), \<open>editor_kit\<close> (Tiptap), \<open>caret_kit\<close> (ProseMirror
  positions), \<open>button_env\<close> (what answers a page button), \<open>client_env\<close> (network, JSON, Yjs updates). What is relied on of it is a named hypothesis that states its documentation:
  \<open>url_pure\<close>, \<open>v7_supply\<close>, \<open>y_laws\<close>, \<open>kit_ok\<close> and so on; each has a concrete instance in a witness.

  \<^bold>\<open>The theories, in the order of the data flow.\<close>

  \<^item> \<open>Prelude\<close>, \<open>JsValue\<close>: strings, digits, results, association lists; numbers and plain values.

  \<^item> \<open>Serialize\<close> (\<open>lib/ast/serialize.ts\<close>, \<open>hash.ts\<close>): canonical JSON and the content hash. The text
    determines the value, and exists exactly for values JSON has.

  \<^item> \<open>Zod\<close>, \<open>Ast\<close>, \<open>AstSchema\<close>, \<open>SchemaType\<close> (\<open>lib/ast/schema.ts\<close>): the combinators of zod, the document, one
    definition per schema, \<open>parseDocument\<close>. Parsing accepts every valid document unchanged, gives only
    valid documents, and keeps the content hash.

  \<^item> \<open>HttpUrl\<close> (\<open>lib/http-url.ts\<close>, \<open>embed.ts\<close>): which links are accepted and which become a player.

  \<^item> \<open>Toc\<close> (\<open>lib/ast/toc.ts\<close>): the table of contents lists exactly the headings.

  \<^item> \<open>Render\<close> (\<open>components/ast/index.tsx\<close>, \<open>lib/display-id.ts\<close>): a document as the tree of elements React
    renders. The locale \<open>page_check\<close> lifts a property of single nodes to whole pages; it is interpreted for what
    a page may point to and for the links of citations.

  \<^item> \<open>EditorIds\<close>, \<open>FromAst\<close>, \<open>ToAst\<close>, \<open>RoundTrip\<close>, \<open>EditorSchema\<close> (\<open>lib/editor/ids.ts\<close>, \<open>fromAst.ts\<close>, \<open>toAst.ts\<close>,
    \<open>schema.ts\<close>): the document in the editor. Opening and saving gives the canonical form of the document,
    also through the attribute tables of the editor's schema and the plugin that assigns ids, which
    terminates.

  \<^item> \<open>EditorSession\<close> (\<open>lib/editor-session.ts\<close>): the session record, its operations on the browser's storage,
    and the invariants on drafts and conflicts over all operation sequences.

  \<^item> \<open>PagePatch\<close> (\<open>lib/governance-page-patch.ts\<close>): change proposals applied to a page; places in the tree are
    index paths. The result is valid, moves keep every block, choices are respected.

  \<^item> \<open>PageButton\<close> (\<open>components/page-button-runtime.tsx\<close>): what a click on a page button does, from the attributes
    \<open>Render\<close> writes to the proposal \<open>PagePatch\<close> applies. The inserted blocks are fresh copies at the end of the page.

  \<^item> \<open>YjsAst\<close>, \<open>YjsSync\<close> (\<open>lib/collaboration/yjs-ast.ts\<close>): the shared working copy and its reconciliation with a
    document, a refinement of assignment.

  \<^item> \<open>ClientUuid\<close>, \<open>OfflineStore\<close>, \<open>Presence\<close> (\<open>lib/client-uuid.ts\<close>, \<open>lib/collaboration/offline-store.ts\<close>,
    \<open>presence.ts\<close>): generated ids, the IndexedDB record of unsent updates, cursors relative to shared texts.

  \<^item> \<open>EditorCaret\<close> (\<open>lib/editor/presence.ts\<close>, \<open>references.ts\<close>, \<open>lib/ast/title.ts\<close>): carets between the editor, the
    working copy and another editor, the carets drawn for others, and what the editor inserts.

  \<^item> \<open>CollabClient\<close>, \<open>ClientSafety\<close>, \<open>ClientRuns\<close>, \<open>Outbox\<close>, \<open>ClientCrash\<close> (\<open>lib/collaboration/client.ts\<close>): the
    collaboration client as an event system. An update stays pending until it is acknowledged, a closed
    client is silent, a client that is under way can come online, and after a crash a new client finds
    every pending update. \<open>Outbox\<close> is the interface between client and store, a locale interpreted by the
    store's \<open>save\<close>.

  \<^item> \<open>Components\<close> (\<open>lib/components.ts\<close>): the form of an infobox component and its initial properties.

  \<^item> \<open>Requests\<close>, \<open>WorkspaceAccess\<close> (\<open>lib/wiki-context.ts\<close>, \<open>api.ts\<close>, \<open>auth.ts\<close>, \<open>server-api.ts\<close>,
    \<open>workspace-access.ts\<close>): the wiki cookie, rate limits and retries, and who may open which workspace.

  \<^bold>\<open>Bounds and recursion.\<close> Recursion on documents, values and editor nodes is structural or by size, so the
  functions are total. Only \<open>EditorSchema.settle\<close>, the round of appended transactions, is a partial
  function; that it returns is proved. \<open>fromYValue\<close> and \<open>findYBlock\<close> recurse to the depth Yjs gives a value
  (\<open>y_depth\<close>), which bounds every path. Runs of the client are arbitrary event sequences. Widths are kept
  where they matter: code units, bytes, 32-bit counters and sequence numbers; times are whole milliseconds.

  \<^bold>\<open>Not modelled.\<close> React views other than the document, pages, the input fields of the editor's node views, CSS, the server-side
  fetch wrappers, generated code, and everything outside \<open>apps/web\<close>. Members of \<open>Object.prototype\<close> as keys of
  plain objects, and saves of another browser tab during the life of a client, are outside the models.
  The messages of a \<open>ZodError\<close> are not modelled, only that it is thrown.
\<close>

end
